(* ===== verification/Chronik_Prelude.thy ===== *)
theory Chronik_Prelude
  imports Main "HOL-Library.Word" "HOL-Library.List_Lexorder" "HOL-Library.Char_ord"
    "HOL-Library.AList"
begin

text \<open>
  Shared vocabulary of the development: Rust's machine integers as \<^typ>\<open>int\<close> with the
  wrap-around of each width written out, byte strings and their little- and big-endian
  integer encodings, the \<open>Result\<close> plumbing of decoders that read from the front of a
  buffer, the map operations of a concurrent hash map keyed by topic and partition, and the
  two interfaces that several components share: a prefix codec and a per-partition store.
\<close>

named_theorems codec_simps \<open>rewrite rules that run a decoder on an encoded prefix\<close>
named_theorems wrap_simps \<open>machine-integer conversions that are the identity in range\<close>

section \<open>Types\<close>

type_synonym byte = "8 word"
type_synonym node_id = int
type_synonym topic = string
type_synonym partition_key = "topic \<times> int"

section \<open>Machine integers\<close>

text \<open>
  A value of an \<open>n\<close>-bit integer type is an \<^typ>\<open>int\<close> in its range. \<open>swrap n\<close> and
  \<open>uwrap n\<close> are what an \<open>as\<close> cast to the signed or unsigned type of that width does, and
  what two's complement arithmetic does to a result that left the range.
\<close>

definition swrap :: "nat \<Rightarrow> int \<Rightarrow> int" where
  "swrap n x = (x + 2 ^ (n - 1)) mod 2 ^ n - 2 ^ (n - 1)"

definition uwrap :: "nat \<Rightarrow> int \<Rightarrow> int" where
  "uwrap n x = x mod 2 ^ n"

definition in_signed :: "nat \<Rightarrow> int \<Rightarrow> bool" where
  "in_signed n x \<longleftrightarrow> - (2 ^ (n - 1)) \<le> x \<and> x < 2 ^ (n - 1)"

definition in_unsigned :: "nat \<Rightarrow> int \<Rightarrow> bool" where
  "in_unsigned n x \<longleftrightarrow> 0 \<le> x \<and> x < 2 ^ n"

abbreviation i64_min :: int where "i64_min \<equiv> - (2 ^ 63)"
abbreviation i64_max :: int where "i64_max \<equiv> 2 ^ 63 - 1"

definition saturating_sub_u64 :: "int \<Rightarrow> int \<Rightarrow> int" where
  "saturating_sub_u64 a b = max 0 (a - b)"

definition saturating_mul_u64 :: "int \<Rightarrow> int \<Rightarrow> int" where
  "saturating_mul_u64 a b = min (a * b) (2 ^ 64 - 1)"

definition saturating_sub_i64 :: "int \<Rightarrow> int \<Rightarrow> int" where
  "saturating_sub_i64 a b = max i64_min (min i64_max (a - b))"

lemma two_power_pred: "0 < n \<Longrightarrow> (2 :: int) ^ n = 2 * 2 ^ (n - 1)"
  by (cases n) auto

lemma swrap_id [wrap_simps]: "0 < n \<Longrightarrow> in_signed n x \<Longrightarrow> swrap n x = x"
  unfolding swrap_def in_signed_def by (simp add: two_power_pred mod_pos_pos_trivial)

lemma swrap_in_signed: "0 < n \<Longrightarrow> in_signed n (swrap n x)"
  unfolding swrap_def in_signed_def
  by (simp add: two_power_pred)

lemma uwrap_id [wrap_simps]: "in_unsigned n x \<Longrightarrow> uwrap n x = x"
  by (simp add: uwrap_def in_unsigned_def)

lemma uwrap_in_unsigned [simp]: "in_unsigned n (uwrap n x)"
  by (simp add: uwrap_def in_unsigned_def)

lemma in_range_numeral [simp]:
  "in_signed n (-1)" "in_signed n 0" "in_unsigned n 0"
  "in_unsigned n (numeral k) \<longleftrightarrow> numeral k < (2 :: int) ^ n"
  "in_signed n (numeral k) \<longleftrightarrow> numeral k < (2 :: int) ^ (n - 1)"
  "in_unsigned n 1 \<longleftrightarrow> 0 < n"
proof -
  have "(0 :: int) < 2 ^ k" for k by simp
  then show "in_signed n (-1)" unfolding in_signed_def by (smt (verit))
  show "in_unsigned n 1 \<longleftrightarrow> 0 < n"
    using one_less_power [of "2 :: int" n] by (cases n) (auto simp: in_unsigned_def)
qed (auto simp: in_signed_def in_unsigned_def intro: order_trans [of _ 0])

lemma saturating_sub_u64_nonneg [simp]: "0 \<le> saturating_sub_u64 a b"
  by (simp add: saturating_sub_u64_def)

section \<open>Bytes\<close>

text \<open>
  \<open>le_bytes n x\<close> are the \<open>n\<close> bytes of \<open>to_le_bytes\<close> (two's complement), \<open>be_bytes n x\<close>
  those of \<open>to_be_bytes\<close>; \<open>le_uint\<close>, \<open>le_sint\<close>, \<open>be_uint\<close> and \<open>be_sint\<close> are the
  \<open>from_le_bytes\<close> and \<open>from_be_bytes\<close> of the unsigned and signed types.
\<close>

fun le_bytes :: "nat \<Rightarrow> int \<Rightarrow> byte list" where
  "le_bytes 0 x = []"
| "le_bytes (Suc n) x = word_of_int x # le_bytes n (x div 256)"

fun le_uint :: "byte list \<Rightarrow> int" where
  "le_uint [] = 0"
| "le_uint (b # bs) = uint b + 256 * le_uint bs"

definition le_sint :: "byte list \<Rightarrow> int" where
  "le_sint bs = swrap (8 * length bs) (le_uint bs)"

definition be_bytes :: "nat \<Rightarrow> int \<Rightarrow> byte list" where
  "be_bytes n x = rev (le_bytes n x)"

definition be_uint :: "byte list \<Rightarrow> int" where
  "be_uint bs = le_uint (rev bs)"

definition be_sint :: "byte list \<Rightarrow> int" where
  "be_sint bs = le_sint (rev bs)"

lemma length_le_bytes [simp]: "length (le_bytes n x) = n"
  by (induction n arbitrary: x) auto

lemma length_be_bytes [simp]: "length (be_bytes n x) = n"
  by (simp add: be_bytes_def)

lemma le_uint_nonneg [simp]: "0 \<le> le_uint bs"
  by (induction bs) auto

lemma le_uint_le_bytes: "le_uint (le_bytes n x) = x mod 256 ^ n"
proof (induction n arbitrary: x)
  case 0
  then show ?case by simp
next
  case (Suc n)
  have "x mod (256 * 256 ^ n) = 256 * (x div 256 mod 256 ^ n) + x mod 256"
    by (rule zmod_zmult2_eq) simp
  then show ?case
    by (simp add: Suc.IH uint_word_of_int)
qed

lemma pow256: "(256 :: int) ^ n = 2 ^ (8 * n)"
  by (simp add: power_mult)

lemma le_uint_le_bytes_id [codec_simps]:
  "in_unsigned (8 * n) x \<Longrightarrow> le_uint (le_bytes n x) = x"
  by (simp add: le_uint_le_bytes in_unsigned_def pow256)

lemma swrap_mod: "swrap n (x mod 2 ^ n) = swrap n x"
  by (simp add: swrap_def mod_simps)

lemma le_sint_le_bytes_id [codec_simps]:
  "0 < n \<Longrightarrow> in_signed (8 * n) x \<Longrightarrow> le_sint (le_bytes n x) = x"
  by (simp add: le_sint_def le_uint_le_bytes pow256 swrap_mod swrap_id)

lemma be_uint_be_bytes_id [codec_simps]:
  "in_unsigned (8 * n) x \<Longrightarrow> be_uint (be_bytes n x) = x"
  by (simp add: be_uint_def be_bytes_def codec_simps)

lemma be_sint_be_bytes_id [codec_simps]:
  "0 < n \<Longrightarrow> in_signed (8 * n) x \<Longrightarrow> be_sint (be_bytes n x) = x"
  by (simp add: be_sint_def be_bytes_def codec_simps)

section \<open>Strings\<close>

text \<open>
  A Rust \<open>String\<close> is a \<^typ>\<open>string\<close> whose characters are its bytes. \<open>utf8_valid\<close> is the
  well-formedness table that \<open>String::from_utf8\<close> checks.
\<close>

definition as_bytes :: "string \<Rightarrow> byte list" where
  "as_bytes s = map (\<lambda>c. word_of_nat (of_char c)) s"

definition string_of_bytes :: "byte list \<Rightarrow> string" where
  "string_of_bytes bs = map (\<lambda>b. char_of (unat b)) bs"

definition utf8_cont :: "byte \<Rightarrow> bool" where
  "utf8_cont b \<longleftrightarrow> 0x80 \<le> b \<and> b \<le> 0xBF"

definition utf8_lead3 :: "byte \<Rightarrow> byte \<Rightarrow> bool" where
  "utf8_lead3 b c \<longleftrightarrow>
     (b = 0xE0 \<and> 0xA0 \<le> c \<and> c \<le> 0xBF) \<or>
     (0xE1 \<le> b \<and> b \<le> 0xEC \<and> utf8_cont c) \<or>
     (b = 0xED \<and> 0x80 \<le> c \<and> c \<le> 0x9F) \<or>
     (0xEE \<le> b \<and> b \<le> 0xEF \<and> utf8_cont c)"

definition utf8_lead4 :: "byte \<Rightarrow> byte \<Rightarrow> bool" where
  "utf8_lead4 b c \<longleftrightarrow>
     (b = 0xF0 \<and> 0x90 \<le> c \<and> c \<le> 0xBF) \<or>
     (0xF1 \<le> b \<and> b \<le> 0xF3 \<and> utf8_cont c) \<or>
     (b = 0xF4 \<and> 0x80 \<le> c \<and> c \<le> 0x8F)"

fun utf8_valid :: "byte list \<Rightarrow> bool" where
  "utf8_valid [] = True"
| "utf8_valid (b # bs) =
     (if b < 0x80 then utf8_valid bs
      else (case bs of [] \<Rightarrow> False | c # cs \<Rightarrow>
        if 0xC2 \<le> b \<and> b \<le> 0xDF then utf8_cont c \<and> utf8_valid cs
        else (case cs of [] \<Rightarrow> False | d # ds \<Rightarrow>
          if utf8_lead3 b c then utf8_cont d \<and> utf8_valid ds
          else (case ds of [] \<Rightarrow> False | e # es \<Rightarrow>
            utf8_lead4 b c \<and> utf8_cont d \<and> utf8_cont e \<and> utf8_valid es))))"

definition from_utf8 :: "byte list \<Rightarrow> string option" where
  "from_utf8 bs = (if utf8_valid bs then Some (string_of_bytes bs) else None)"

definition rust_str :: "string \<Rightarrow> bool" where
  "rust_str s \<longleftrightarrow> utf8_valid (as_bytes s)"

lemma length_as_bytes [simp]: "length (as_bytes s) = length s"
  by (simp add: as_bytes_def)

lemma string_of_as_bytes [simp]: "string_of_bytes (as_bytes s) = s"
proof -
  have "char_of (unat (word_of_nat (of_char c) :: byte)) = c" for c
    by (simp add: unat_of_nat)
  then show ?thesis
    by (simp add: string_of_bytes_def as_bytes_def comp_def)
qed

lemma from_utf8_as_bytes [codec_simps]: "rust_str s \<Longrightarrow> from_utf8 (as_bytes s) = Some s"
  by (simp add: from_utf8_def rust_str_def)

section \<open>Decoders\<close>

text \<open>
  A decoder reads from the front of a buffer and returns its value with the rest, or an
  error. \<open>dec_bind\<close> is the \<open>?\<close> operator: the first error ends the whole decode, and the
  half-read buffer is dropped with it.
\<close>

type_synonym ('e, 'a) decoder = "byte list \<Rightarrow> 'e + 'a \<times> byte list"

definition dec_return :: "'a \<Rightarrow> ('e, 'a) decoder" where
  "dec_return x bs = Inr (x, bs)"

definition dec_fail :: "'e \<Rightarrow> ('e, 'a) decoder" where
  "dec_fail e bs = Inl e"

definition dec_bind :: "('e, 'a) decoder \<Rightarrow> ('a \<Rightarrow> ('e, 'b) decoder) \<Rightarrow> ('e, 'b) decoder" where
  "dec_bind d f bs = (case d bs of Inl e \<Rightarrow> Inl e | Inr (x, rest) \<Rightarrow> f x rest)"

definition take_bytes :: "'e \<Rightarrow> nat \<Rightarrow> ('e, byte list) decoder" where
  "take_bytes e n bs = (if length bs < n then Inl e else Inr (take n bs, drop n bs))"

fun dec_repeat :: "nat \<Rightarrow> ('e, 'a) decoder \<Rightarrow> ('e, 'a list) decoder" where
  "dec_repeat 0 d = dec_return []"
| "dec_repeat (Suc n) d =
     dec_bind d (\<lambda>x. dec_bind (dec_repeat n d) (\<lambda>xs. dec_return (x # xs)))"

lemma dec_return_run [simp]: "dec_return x bs = Inr (x, bs)"
  by (simp add: dec_return_def)

lemma dec_fail_run [simp]: "dec_fail e bs = Inl e"
  by (simp add: dec_fail_def)

lemma dec_bind_Inr [codec_simps]: "d bs = Inr (x, rest) \<Longrightarrow> dec_bind d f bs = f x rest"
  by (simp add: dec_bind_def)

lemma dec_bind_Inl [codec_simps]: "d bs = Inl e \<Longrightarrow> dec_bind d f bs = Inl e"
  by (simp add: dec_bind_def)

lemma dec_bind_InrE:
  assumes "dec_bind d f bs = Inr r"
  obtains x rest where "d bs = Inr (x, rest)" "f x rest = Inr r"
  using assms by (auto simp: dec_bind_def split: sum.splits prod.splits)

lemma take_bytes_append [codec_simps]:
  "length bs = n \<Longrightarrow> take_bytes e n (bs @ rest) = Inr (bs, rest)"
  by (auto simp: take_bytes_def)

lemma take_bytes_short [codec_simps]: "length bs < n \<Longrightarrow> take_bytes e n bs = Inl e"
  by (simp add: take_bytes_def)

lemma take_bytes_InrD:
  "take_bytes e n bs = Inr (xs, rest) \<Longrightarrow> bs = xs @ rest \<and> length xs = n"
  by (auto simp: take_bytes_def split: if_splits)

definition dec_le_uint :: "'e \<Rightarrow> nat \<Rightarrow> ('e, int) decoder" where
  "dec_le_uint e n = dec_bind (take_bytes e n) (\<lambda>bs. dec_return (le_uint bs))"

definition dec_le_sint :: "'e \<Rightarrow> nat \<Rightarrow> ('e, int) decoder" where
  "dec_le_sint e n = dec_bind (take_bytes e n) (\<lambda>bs. dec_return (le_sint bs))"

definition dec_be_uint :: "'e \<Rightarrow> nat \<Rightarrow> ('e, int) decoder" where
  "dec_be_uint e n = dec_bind (take_bytes e n) (\<lambda>bs. dec_return (be_uint bs))"

definition dec_be_sint :: "'e \<Rightarrow> nat \<Rightarrow> ('e, int) decoder" where
  "dec_be_sint e n = dec_bind (take_bytes e n) (\<lambda>bs. dec_return (be_sint bs))"

definition dec_utf8 :: "'e \<Rightarrow> byte list \<Rightarrow> ('e, string) decoder" where
  "dec_utf8 e bs = (case from_utf8 bs of None \<Rightarrow> dec_fail e | Some s \<Rightarrow> dec_return s)"

lemmas dec_int_defs = dec_le_uint_def dec_le_sint_def dec_be_uint_def dec_be_sint_def

lemma dec_le_uint_run [codec_simps]:
  "in_unsigned (8 * n) x \<Longrightarrow> dec_le_uint e n (le_bytes n x @ rest) = Inr (x, rest)"
  by (simp add: dec_le_uint_def codec_simps)

lemma dec_le_sint_run [codec_simps]:
  "0 < n \<Longrightarrow> in_signed (8 * n) x \<Longrightarrow> dec_le_sint e n (le_bytes n x @ rest) = Inr (x, rest)"
  by (simp add: dec_le_sint_def codec_simps)

lemma dec_be_uint_run [codec_simps]:
  "in_unsigned (8 * n) x \<Longrightarrow> dec_be_uint e n (be_bytes n x @ rest) = Inr (x, rest)"
  by (simp add: dec_be_uint_def codec_simps)

lemma dec_be_sint_run [codec_simps]:
  "0 < n \<Longrightarrow> in_signed (8 * n) x \<Longrightarrow> dec_be_sint e n (be_bytes n x @ rest) = Inr (x, rest)"
  by (simp add: dec_be_sint_def codec_simps)

lemma dec_int_short [codec_simps]:
  assumes "length bs < n"
  shows "dec_le_uint e n bs = Inl e" "dec_le_sint e n bs = Inl e"
    "dec_be_uint e n bs = Inl e" "dec_be_sint e n bs = Inl e"
  using assms by (simp_all add: dec_int_defs codec_simps)

lemma dec_utf8_run [codec_simps]: "rust_str s \<Longrightarrow> dec_utf8 e (as_bytes s) rest = Inr (s, rest)"
  by (simp add: dec_utf8_def codec_simps)

text \<open>
  The contract of a prefix codec: decoding what was encoded, with anything behind it, gives
  the value back and leaves exactly what was behind.
\<close>

locale codec =
  fixes enc :: "'a \<Rightarrow> byte list"
    and dec :: "('e, 'a) decoder"
    and ok :: "'a \<Rightarrow> bool"
  assumes dec_enc: "ok x \<Longrightarrow> dec (enc x @ rest) = Inr (x, rest)"
begin

lemma dec_enc_nil: "ok x \<Longrightarrow> dec (enc x) = Inr (x, [])"
  using dec_enc [of x "[]"] by simp

lemma prefix_free:
  assumes "ok x" "ok y" "enc x @ r = enc y @ s"
  shows "x = y \<and> r = s"
proof -
  have "dec (enc x @ r) = dec (enc y @ s)"
    using assms(3) by (rule arg_cong)
  then show ?thesis
    by (simp only: dec_enc [OF assms(1)] dec_enc [OF assms(2)]) simp
qed

lemma repeat_enc:
  "(\<And>x. x \<in> set xs \<Longrightarrow> ok x) \<Longrightarrow>
    dec_repeat (length xs) dec (concat (map enc xs) @ rest) = Inr (xs, rest)"
proof (induction xs)
  case Nil
  then show ?case by simp
next
  case (Cons x xs)
  have "dec (enc x @ (concat (map enc xs) @ rest)) = Inr (x, concat (map enc xs) @ rest)"
    using Cons.prems by (intro dec_enc) simp
  moreover have "dec_repeat (length xs) dec (concat (map enc xs) @ rest) = Inr (xs, rest)"
    using Cons by simp
  ultimately show ?case
    by (simp add: dec_bind_Inr)
qed

end

section \<open>Hash maps\<close>

text \<open>
  A \<open>HashMap\<close> whose code iterates over it is an association list with distinct keys; its
  lookup is \<^const>\<open>map_of\<close> and its \<open>insert\<close> is \<^const>\<open>AList.update\<close>. \<open>or_insert\<close> is
  \<open>entry(k).or_insert(v)\<close>, \<open>remove_key\<close> is \<open>remove\<close>, \<open>retain\<close> keeps the keys that satisfy
  the predicate.
\<close>

definition or_insert :: "'k \<Rightarrow> 'v \<Rightarrow> ('k \<times> 'v) list \<Rightarrow> ('k \<times> 'v) list" where
  "or_insert k v m = (case map_of m k of Some _ \<Rightarrow> m | None \<Rightarrow> m @ [(k, v)])"

definition remove_key :: "'k \<Rightarrow> ('k \<times> 'v) list \<Rightarrow> ('k \<times> 'v) list" where
  "remove_key k m = filter (\<lambda>e. fst e \<noteq> k) m"

definition retain :: "('k \<Rightarrow> bool) \<Rightarrow> ('k \<times> 'v) list \<Rightarrow> ('k \<times> 'v) list" where
  "retain P m = filter (\<lambda>e. P (fst e)) m"

named_theorems hash_simps \<open>lookups after the operations of a hash map\<close>

lemma map_of_filter_key: "map_of (filter (\<lambda>e. P (fst e)) m) k = (if P k then map_of m k else None)"
  by (induction m) auto

lemma get_insert [hash_simps]: "map_of (AList.update k v m) j = (if j = k then Some v else map_of m j)"
  by (simp add: update_conv')

lemma get_retain [hash_simps]: "map_of (retain P m) k = (if P k then map_of m k else None)"
  by (simp add: retain_def map_of_filter_key)

lemma get_remove [hash_simps]: "map_of (remove_key k m) j = (if j = k then None else map_of m j)"
  by (simp add: remove_key_def map_of_filter_key [where P = "\<lambda>i. i \<noteq> k"])

lemma get_or_insert [hash_simps]:
  "map_of (or_insert k v m) j =
     (if j = k \<and> map_of m k = None then Some v else map_of m j)"
  by (auto simp: or_insert_def map_add_def split: option.splits)

lemma distinct_or_insert: "distinct (map fst m) \<Longrightarrow> distinct (map fst (or_insert k v m))"
  by (auto simp: or_insert_def map_of_eq_None_iff split: option.splits)

lemma distinct_retain: "distinct (map fst m) \<Longrightarrow> distinct (map fst (retain P m))"
  by (auto simp: retain_def distinct_map_filter)

lemma distinct_insert: "distinct (map fst m) \<Longrightarrow> distinct (map fst (AList.update k v m))"
  by (rule distinct_update)

section \<open>Per-partition stores\<close>

text \<open>
  A \<open>DashMap\<close> from \<open>(topic, partition)\<close> to a state: \<open>or_default_update\<close> is
  \<open>entry(k).or_default()\<close> followed by a mutation, \<open>update_existing\<close> is a mutation under
  \<open>get_mut(k)\<close>.
\<close>

definition or_default_update :: "'s \<Rightarrow> ('s \<Rightarrow> 's) \<Rightarrow> 'k \<Rightarrow> ('k \<rightharpoonup> 's) \<Rightarrow> ('k \<rightharpoonup> 's)" where
  "or_default_update d f k m = m(k \<mapsto> f (case m k of None \<Rightarrow> d | Some s \<Rightarrow> s))"

definition update_existing :: "('s \<Rightarrow> 's) \<Rightarrow> 'k \<Rightarrow> ('k \<rightharpoonup> 's) \<Rightarrow> ('k \<rightharpoonup> 's)" where
  "update_existing f k m = (case m k of None \<Rightarrow> m | Some s \<Rightarrow> m(k \<mapsto> f s))"

definition store_all :: "('s \<Rightarrow> bool) \<Rightarrow> ('k \<rightharpoonup> 's) \<Rightarrow> bool" where
  "store_all P m \<longleftrightarrow> (\<forall>k s. m k = Some s \<longrightarrow> P s)"

lemma or_default_update_other [simp]: "j \<noteq> k \<Longrightarrow> or_default_update d f k m j = m j"
  by (simp add: or_default_update_def)

lemma update_existing_other [simp]: "j \<noteq> k \<Longrightarrow> update_existing f k m j = m j"
  by (simp add: update_existing_def split: option.split)

lemma or_default_update_same:
  "or_default_update d f k m k = Some (f (case m k of None \<Rightarrow> d | Some s \<Rightarrow> s))"
  by (simp add: or_default_update_def)

lemma update_existing_same: "update_existing f k m k = map_option f (m k)"
  by (simp add: update_existing_def split: option.split)

lemma store_allD: "store_all P m \<Longrightarrow> m k = Some s \<Longrightarrow> P s"
  by (auto simp: store_all_def)

lemma store_all_empty [simp]: "store_all P Map.empty"
  by (simp add: store_all_def)

lemma store_all_update_existing:
  "store_all P m \<Longrightarrow> (\<And>s. P s \<Longrightarrow> P (f s)) \<Longrightarrow> store_all P (update_existing f k m)"
  by (auto simp: store_all_def update_existing_def split: option.splits)

locale partition_store =
  fixes default :: 's
    and inv :: "'s \<Rightarrow> bool"
  assumes inv_default: "inv default"
begin

lemma entry_inv:
  "store_all inv m \<Longrightarrow> inv (case m k of None \<Rightarrow> default | Some s \<Rightarrow> s)"
  by (auto simp: inv_default dest: store_allD split: option.split)

lemma or_default_inv:
  assumes "store_all inv m" and "\<And>s. inv s \<Longrightarrow> inv (f s)"
  shows "store_all inv (or_default_update default f k m)"
  using assms entry_inv [OF assms(1), of k]
  by (auto simp: store_all_def or_default_update_def)

lemma existing_inv:
  "store_all inv m \<Longrightarrow> (\<And>s. inv s \<Longrightarrow> inv (f s)) \<Longrightarrow> store_all inv (update_existing f k m)"
  by (rule store_all_update_existing)

end

section \<open>Event sourcing\<close>

text \<open>
  The contract between a log of events and the state it rebuilds: \<open>rel recovered live\<close> holds
  at the start and every event preserves it, whatever the two states are.
\<close>

locale event_sourced =
  fixes apply_ev :: "'e \<Rightarrow> 's \<Rightarrow> 's"
    and rel :: "'s \<Rightarrow> 's \<Rightarrow> bool"
    and start :: 's
  assumes rel_start: "rel start start"
    and rel_apply: "rel r l \<Longrightarrow> rel (apply_ev e r) (apply_ev e l)"
begin

lemma logged: "rel (fold apply_ev es start) l \<Longrightarrow> rel (fold apply_ev (es @ [e]) start) (apply_ev e l)"
  by (simp add: rel_apply)

lemma replayed: "rel (fold apply_ev es start) (fold apply_ev es start)"
  by (induction es rule: rev_induct) (simp_all add: rel_start rel_apply)

end

section \<open>Transition systems\<close>

inductive reachable :: "('s \<Rightarrow> bool) \<Rightarrow> ('s \<Rightarrow> 's \<Rightarrow> bool) \<Rightarrow> 's \<Rightarrow> bool"
  for init :: "'s \<Rightarrow> bool" and step :: "'s \<Rightarrow> 's \<Rightarrow> bool" where
  start: "init s \<Longrightarrow> reachable init step s"
| move: "reachable init step s \<Longrightarrow> step s t \<Longrightarrow> reachable init step t"

locale invariant_system =
  fixes init :: "'s \<Rightarrow> bool"
    and step :: "'s \<Rightarrow> 's \<Rightarrow> bool"
    and inv :: "'s \<Rightarrow> bool"
  assumes inv_init: "init s \<Longrightarrow> inv s"
    and inv_step: "inv s \<Longrightarrow> step s t \<Longrightarrow> inv t"
begin

lemma reachable_inv: "reachable init step s \<Longrightarrow> inv s"
  by (induction rule: reachable.induct) (auto intro: inv_init inv_step)

end

end
