(* ===== verification/Leader_Epoch.thy ===== *)
theory Leader_Epoch
  imports Chronik_Prelude
begin

text \<open>
  The leader-epoch history of a partition
  (\<^verbatim>\<open>crates/chronik-server/src/replication/leader_epoch.rs\<close>): \<open>LeaderEpochCache\<close> as a
  record over the ordered list of epoch entries, one function per method, the invariant that
  epochs and start offsets increase strictly together, what every method does to the answer of
  \<open>epoch_for_offset\<close>, and \<open>LeaderEpochStore\<close> as the map from partitions to histories.
\<close>

section \<open>State and operations\<close>

definition UNDEFINED_EPOCH :: int where "UNDEFINED_EPOCH = -1"
definition UNDEFINED_OFFSET :: int where "UNDEFINED_OFFSET = -1"

record epoch_entry =
  epoch :: int
  start_offset :: int

record leader_epoch_cache =
  entries :: "epoch_entry list"

definition empty_cache :: leader_epoch_cache where
  "empty_cache = \<lparr>entries = []\<rparr>"

definition last_opt :: "'a list \<Rightarrow> 'a option" where
  "last_opt xs = (if xs = [] then None else Some (last xs))"

definition latest_epoch :: "leader_epoch_cache \<Rightarrow> int option" where
  "latest_epoch c = map_option epoch (last_opt (entries c))"

definition assign :: "int \<Rightarrow> int \<Rightarrow> leader_epoch_cache \<Rightarrow> leader_epoch_cache" where
  "assign ep so c =
     (if ep < 0 then c
      else case last_opt (entries c) of
        Some l \<Rightarrow>
          if ep < epoch l then c
          else if ep = epoch l then c
          else c\<lparr>entries := filter (\<lambda>e. start_offset e < so) (entries c)
                             @ [\<lparr>epoch = ep, start_offset = so\<rparr>]\<rparr>
      | None \<Rightarrow> c\<lparr>entries := filter (\<lambda>e. start_offset e < so) (entries c)
                             @ [\<lparr>epoch = ep, start_offset = so\<rparr>]\<rparr>)"

definition epoch_for_offset :: "leader_epoch_cache \<Rightarrow> int \<Rightarrow> int option" where
  "epoch_for_offset c off =
     map_option epoch (List.find (\<lambda>e. start_offset e \<le> off) (rev (entries c)))"

definition end_offset_for_epoch :: "leader_epoch_cache \<Rightarrow> int \<Rightarrow> int \<Rightarrow> int \<times> int" where
  "end_offset_for_epoch c requested log_end_offset =
     (if requested < 0 then (UNDEFINED_EPOCH, UNDEFINED_OFFSET)
      else case last_opt (entries c) of
        None \<Rightarrow> (UNDEFINED_EPOCH, UNDEFINED_OFFSET)
      | Some l \<Rightarrow>
          if requested = epoch l then (requested, log_end_offset)
          else (case (List.find (\<lambda>e. epoch e \<le> requested) (rev (entries c)),
                      List.find (\<lambda>e. requested < epoch e) (entries c)) of
                  (Some p, Some s) \<Rightarrow> (epoch p, start_offset s)
                | _ \<Rightarrow> (UNDEFINED_EPOCH, UNDEFINED_OFFSET)))"

definition truncate_from_end :: "int \<Rightarrow> leader_epoch_cache \<Rightarrow> leader_epoch_cache" where
  "truncate_from_end end_offset c =
     (if end_offset < 0 then c
      else c\<lparr>entries := filter (\<lambda>e. start_offset e < end_offset) (entries c)\<rparr>)"

definition truncate_from_start :: "int \<Rightarrow> leader_epoch_cache \<Rightarrow> leader_epoch_cache" where
  "truncate_from_start so c =
     (if so \<le> 0 \<or> entries c = [] then c
      else
        let covering = List.find (\<lambda>e. start_offset e \<le> so) (rev (entries c));
            kept = filter (\<lambda>e. so < start_offset e) (entries c)
        in (case covering of
              None \<Rightarrow> c\<lparr>entries := kept\<rparr>
            | Some entry \<Rightarrow> c\<lparr>entries := entry\<lparr>start_offset := so\<rparr> # kept\<rparr>))"

section \<open>The invariant\<close>

definition epoch_before :: "epoch_entry \<Rightarrow> epoch_entry \<Rightarrow> bool" where
  "epoch_before a b \<longleftrightarrow> epoch a < epoch b \<and> start_offset a < start_offset b"

definition epoch_inv :: "leader_epoch_cache \<Rightarrow> bool" where
  "epoch_inv c \<longleftrightarrow> sorted_wrt epoch_before (entries c) \<and> (\<forall>e \<in> set (entries c). 0 \<le> epoch e)"

lemma last_opt_Some: "last_opt xs = Some x \<longleftrightarrow> (\<exists>ys. xs = ys @ [x])"
  by (cases xs rule: rev_cases) (auto simp: last_opt_def)

lemma last_opt_None [simp]: "last_opt xs = None \<longleftrightarrow> xs = []"
  by (simp add: last_opt_def)

lemma last_opt_snoc [simp]: "last_opt (xs @ [x]) = Some x"
  by (simp add: last_opt_def)

lemma last_opt_Nil [simp]: "last_opt [] = None"
  by (simp add: last_opt_def)

lemma last_opt_single [simp]: "last_opt [x] = Some x"
  by (simp add: last_opt_def)

lemma epoch_inv_empty [simp]: "epoch_inv empty_cache"
  by (simp add: epoch_inv_def empty_cache_def)

lemma sorted_wrt_le_last:
  "sorted_wrt epoch_before (xs @ [l]) \<Longrightarrow> e \<in> set (xs @ [l]) \<Longrightarrow> epoch e \<le> epoch l"
  by (auto simp: sorted_wrt_append epoch_before_def)

lemma epoch_inv_assign [intro]:
  assumes "epoch_inv c"
  shows "epoch_inv (assign ep so c)"
proof (cases "last_opt (entries c)")
  case None
  then show ?thesis
    using assms by (auto simp: assign_def epoch_inv_def)
next
  case (Some l)
  then obtain ys where ys: "entries c = ys @ [l]"
    by (auto simp: last_opt_Some)
  have "epoch e \<le> epoch l" if "e \<in> set (entries c)" for e
    using assms that unfolding epoch_inv_def ys by (blast intro: sorted_wrt_le_last)
  then show ?thesis
    using assms Some
    by (fastforce simp: assign_def epoch_inv_def epoch_before_def sorted_wrt_append
        intro: sorted_wrt_filter)
qed

lemma epoch_inv_truncate_from_end [intro]:
  "epoch_inv c \<Longrightarrow> epoch_inv (truncate_from_end n c)"
  by (auto simp: truncate_from_end_def epoch_inv_def intro: sorted_wrt_filter)

lemma find_rev_filter: "List.find P (rev xs) = last_opt (filter P xs)"
  by (induction xs rule: rev_induct) (auto simp: last_opt_def)

lemma find_filter: "List.find P xs = (case filter P xs of [] \<Rightarrow> None | x # _ \<Rightarrow> Some x)"
  by (induction xs) auto

lemma sorted_split_at:
  "sorted_wrt epoch_before es \<Longrightarrow>
    filter (\<lambda>e. start_offset e \<le> n) es @ filter (\<lambda>e. n < start_offset e) es = es"
proof (induction es)
  case Nil
  then show ?case by simp
next
  case (Cons a es)
  then have "filter (\<lambda>e. start_offset e \<le> n) es = []" if "n < start_offset a"
    using that by (force simp: epoch_before_def filter_empty_conv)
  with Cons show ?case by auto
qed

lemma last_opt_mem: "last_opt xs = Some x \<Longrightarrow> x \<in> set xs"
  by (auto simp: last_opt_Some)

lemma sorted_epoch_mono:
  assumes "sorted_wrt epoch_before es" "a \<in> set es" "b \<in> set es" "start_offset a < start_offset b"
  shows "epoch a < epoch b"
  using assms by (induction es) (auto simp: epoch_before_def)

lemma epoch_inv_truncate_from_start [intro]:
  assumes "epoch_inv c"
  shows "epoch_inv (truncate_from_start so c)"
proof (cases "last_opt (filter (\<lambda>e. start_offset e \<le> so) (entries c))")
  case None
  then show ?thesis
    using assms
    by (auto simp: truncate_from_start_def find_rev_filter epoch_inv_def intro: sorted_wrt_filter)
next
  case (Some l)
  then have l: "l \<in> set (entries c)" "start_offset l \<le> so"
    by (auto dest: last_opt_mem)
  have "epoch l < epoch e" if "e \<in> set (entries c)" "so < start_offset e" for e
    using assms l that by (auto simp: epoch_inv_def intro: sorted_epoch_mono)
  then show ?thesis
    using assms Some l
    by (auto simp: truncate_from_start_def find_rev_filter Let_def epoch_inv_def epoch_before_def
        intro: sorted_wrt_filter)
qed

section \<open>What each operation does to the recorded history\<close>

lemma epoch_for_offset_filter:
  "epoch_for_offset c off = map_option epoch (last_opt (filter (\<lambda>e. start_offset e \<le> off) (entries c)))"
  by (simp add: epoch_for_offset_def find_rev_filter)

lemma filter_le_lt:
  "off < n \<Longrightarrow> filter (\<lambda>e. start_offset e < n \<and> start_offset e \<le> off) es
     = filter (\<lambda>e. start_offset e \<le> off) es"
  by (induction es) auto

lemma epoch_for_offset_truncate_from_end:
  "off < n \<Longrightarrow> epoch_for_offset (truncate_from_end n c) off = epoch_for_offset c off"
  by (simp add: truncate_from_end_def epoch_for_offset_filter filter_le_lt)

lemma assign_accepted:
  assumes "0 \<le> ep" and "\<forall>l. latest_epoch c = Some l \<longrightarrow> l < ep"
  shows "entries (assign ep so c)
    = filter (\<lambda>e. start_offset e < so) (entries c) @ [\<lparr>epoch = ep, start_offset = so\<rparr>]"
  using assms by (auto simp: assign_def latest_epoch_def split: option.split)

lemma assign_refused:
  assumes "ep < 0 \<or> (\<exists>l. latest_epoch c = Some l \<and> ep \<le> l)"
  shows "assign ep so c = c"
  using assms by (auto simp: assign_def latest_epoch_def split: option.split)

lemma epoch_for_offset_assign:
  assumes "0 \<le> ep" and "\<forall>l. latest_epoch c = Some l \<longrightarrow> l < ep"
  shows "epoch_for_offset (assign ep so c) off =
    (if so \<le> off then Some ep else epoch_for_offset c off)"
  using assms by (simp add: epoch_for_offset_filter assign_accepted filter_le_lt)

lemma epoch_for_offset_truncate_from_start:
  assumes inv: "epoch_inv c" and "so \<le> off"
  shows "epoch_for_offset (truncate_from_start so c) off = epoch_for_offset c off"
proof (cases "so \<le> 0 \<or> entries c = []")
  case True
  then show ?thesis by (auto simp: truncate_from_start_def)
next
  case False
  let ?lo = "filter (\<lambda>e. start_offset e \<le> so) (entries c)"
  let ?mid = "filter (\<lambda>e. so < start_offset e \<and> start_offset e \<le> off) (entries c)"
  have "filter (\<lambda>e. start_offset e \<le> off) (entries c)
      = filter (\<lambda>e. start_offset e \<le> off) (?lo @ filter (\<lambda>e. so < start_offset e) (entries c))"
    using inv by (simp add: sorted_split_at epoch_inv_def)
  also have "\<dots> = ?lo @ ?mid"
    using \<open>so \<le> off\<close> by (auto intro!: arg_cong2 [where f = append] filter_cong simp: conj_commute)
  finally have split: "filter (\<lambda>e. start_offset e \<le> off) (entries c) = ?lo @ ?mid" .
  show ?thesis
  proof (cases "?lo = []")
    case True
    then show ?thesis
      using False split
      by (simp add: epoch_for_offset_filter truncate_from_start_def find_rev_filter)
  next
    case lo: False
    then show ?thesis
      using False \<open>so \<le> off\<close> split
      by (simp add: epoch_for_offset_filter truncate_from_start_def find_rev_filter last_opt_def
          conj_commute)
  qed
qed

section \<open>Where an epoch ended\<close>

definition undefined_answer :: "int \<times> int" where
  "undefined_answer = (UNDEFINED_EPOCH, UNDEFINED_OFFSET)"

lemma find_SomeD: "List.find P xs = Some x \<Longrightarrow> x \<in> set xs \<and> P x"
  by (auto simp: find_Some_iff)

lemma end_offset_current:
  "0 \<le> r \<Longrightarrow> latest_epoch c = Some r \<Longrightarrow> end_offset_for_epoch c r leo = (r, leo)"
  by (auto simp: end_offset_for_epoch_def latest_epoch_def split: option.splits)

lemma filter_gt_first_min:
  assumes "sorted_wrt epoch_before es" "filter (\<lambda>e. r < epoch e) es = s # ss"
    "e \<in> set es" "r < epoch e"
  shows "start_offset s \<le> start_offset e"
proof -
  have "sorted_wrt epoch_before (s # ss)"
    using assms(1,2) sorted_wrt_filter by metis
  moreover have "e \<in> set (s # ss)"
    using assms(3,4) unfolding assms(2) [symmetric] by simp
  ultimately show ?thesis
    by (auto simp: epoch_before_def)
qed

lemma filter_le_last_max:
  assumes "sorted_wrt epoch_before es" "filter (\<lambda>e. epoch e \<le> r) es = ps @ [p]"
    "e \<in> set es" "epoch e \<le> r"
  shows "epoch e \<le> epoch p"
proof -
  have "sorted_wrt epoch_before (ps @ [p])"
    using assms(1,2) sorted_wrt_filter by metis
  moreover have "e \<in> set (ps @ [p])"
    using assms(3,4) unfolding assms(2) [symmetric] by simp
  ultimately show ?thesis
    by (rule sorted_wrt_le_last)
qed

text \<open>
  An epoch below the newest one that the history still reaches back to: the answer is the
  newest recorded epoch not above it, and the first offset any newer leader wrote.
\<close>

lemma end_offset_earlier:
  assumes inv: "epoch_inv c" and r: "0 \<le> r"
    and p: "\<exists>e \<in> set (entries c). epoch e \<le> r"
    and s: "\<exists>e \<in> set (entries c). r < epoch e"
  obtains p s where "end_offset_for_epoch c r leo = (epoch p, start_offset s)"
    and "p \<in> set (entries c)" "epoch p \<le> r"
    and "\<forall>e \<in> set (entries c). epoch e \<le> r \<longrightarrow> epoch e \<le> epoch p"
    and "s \<in> set (entries c)" "r < epoch s"
    and "\<forall>e \<in> set (entries c). r < epoch e \<longrightarrow> start_offset s \<le> start_offset e"
proof -
  have sorted: "sorted_wrt epoch_before (entries c)"
    using inv by (simp add: epoch_inv_def)
  obtain ps p' where ps: "filter (\<lambda>e. epoch e \<le> r) (entries c) = ps @ [p']"
    using p by (cases "filter (\<lambda>e. epoch e \<le> r) (entries c)" rule: rev_cases)
      (auto simp: filter_empty_conv)
  obtain s' ss where ss: "filter (\<lambda>e. r < epoch e) (entries c) = s' # ss"
    using s by (cases "filter (\<lambda>e. r < epoch e) (entries c)") (auto simp: filter_empty_conv)
  obtain ys l where l: "entries c = ys @ [l]"
    using p by (cases "entries c" rule: rev_cases) auto
  have "epoch e \<le> epoch l" if "e \<in> set (entries c)" for e
    using sorted that unfolding l by (rule sorted_wrt_le_last)
  then have "r < epoch l" using s by force
  moreover have "last_opt (entries c) = Some l" by (simp add: l)
  ultimately have "end_offset_for_epoch c r leo = (epoch p', start_offset s')"
    using r by (simp add: end_offset_for_epoch_def find_rev_filter ps find_filter [of _ "entries c"] ss)
  moreover have "p' \<in> set (entries c) \<and> epoch p' \<le> r"
    using arg_cong [where f = set, OF ps] by auto
  moreover have "s' \<in> set (entries c) \<and> r < epoch s'"
    using arg_cong [where f = set, OF ss] by auto
  ultimately show ?thesis
    using that filter_le_last_max [OF sorted ps] filter_gt_first_min [OF sorted ss] by blast
qed

lemma end_offset_undefined:
  assumes "epoch_inv c"
    and "r < 0 \<or> (\<forall>e \<in> set (entries c). epoch e < r) \<or> (\<forall>e \<in> set (entries c). r < epoch e)"
  shows "end_offset_for_epoch c r leo = undefined_answer"
proof (cases "last_opt (entries c)")
  case None
  then show ?thesis by (simp add: end_offset_for_epoch_def undefined_answer_def)
next
  case (Some l)
  then have l: "l \<in> set (entries c)" by (rule last_opt_mem)
  from assms(2) consider "r < 0" | "\<forall>e \<in> set (entries c). epoch e < r"
    | "\<forall>e \<in> set (entries c). r < epoch e"
    by blast
  then show ?thesis
  proof cases
    case 1
    then show ?thesis by (simp add: end_offset_for_epoch_def undefined_answer_def)
  next
    case 2
    then have "List.find (\<lambda>e. r < epoch e) (entries c) = None" "r \<noteq> epoch l"
      using l by (auto simp: find_None_iff)
    then show ?thesis
      by (simp add: end_offset_for_epoch_def undefined_answer_def Some split: option.split)
  next
    case 3
    then have "List.find (\<lambda>e. epoch e \<le> r) (rev (entries c)) = None" "r \<noteq> epoch l"
      using l by (auto simp: find_None_iff)
    then show ?thesis
      by (simp add: end_offset_for_epoch_def undefined_answer_def Some)
  qed
qed

section \<open>The history a log leaves behind\<close>

text \<open>
  Specification side. A log is seen through the list of the leader epochs stamped on its
  records, from offset 0 on. Appending a record observes its epoch at its offset; a batch is a
  run of records with one epoch, and only its base offset is observed.
\<close>

fun observe_records :: "int \<Rightarrow> int list \<Rightarrow> leader_epoch_cache \<Rightarrow> leader_epoch_cache" where
  "observe_records off [] c = c"
| "observe_records off (e # es) c = observe_records (off + 1) es (assign e off c)"

fun observe_batches :: "int \<Rightarrow> (int \<times> nat) list \<Rightarrow> leader_epoch_cache \<Rightarrow> leader_epoch_cache" where
  "observe_batches off [] c = c"
| "observe_batches off ((e, n) # bs) c = observe_batches (off + int n) bs (assign e off c)"

fun run_starts :: "int \<Rightarrow> int option \<Rightarrow> int list \<Rightarrow> epoch_entry list" where
  "run_starts off prev [] = []"
| "run_starts off prev (e # es) =
     (if prev = Some e then run_starts (off + 1) prev es
      else \<lparr>epoch = e, start_offset = off\<rparr> # run_starts (off + 1) (Some e) es)"

definition history_of :: "int list \<Rightarrow> leader_epoch_cache" where
  "history_of es = observe_records 0 es empty_cache"

lemma latest_epoch_assign:
  "latest_epoch (assign ep so c) =
    (if ep < 0 then latest_epoch c
     else Some (case latest_epoch c of None \<Rightarrow> ep | Some l \<Rightarrow> max l ep))"
  by (auto simp: latest_epoch_def assign_def max_def split: option.split)

lemma assign_again: "assign ep so' (assign ep so c) = assign ep so c"
proof (cases "ep < 0")
  case True
  then show ?thesis by (simp add: assign_def)
next
  case False
  have "\<exists>l. latest_epoch (assign ep so c) = Some l \<and> ep \<le> l"
    using False by (auto simp: latest_epoch_assign split: option.split)
  then show ?thesis by (intro assign_refused) simp
qed

lemma observe_records_append:
  "observe_records off (xs @ ys) c = observe_records (off + int (length xs)) ys (observe_records off xs c)"
  by (induction xs arbitrary: off c) (auto simp: algebra_simps)

lemma observe_replicate:
  "observe_records so (replicate n e) (assign e off c) = assign e off c"
  by (induction n arbitrary: so) (simp_all add: assign_again)

lemma observe_batches_records:
  "(\<And>e n. (e, n) \<in> set bs \<Longrightarrow> 0 < n) \<Longrightarrow>
    observe_batches off bs c = observe_records off (concat (map (\<lambda>(e, n). replicate n e) bs)) c"
proof (induction bs arbitrary: off c)
  case Nil
  then show ?case by simp
next
  case (Cons b bs)
  obtain e n where b: "b = (e, n)" by force
  then obtain m where n: "n = Suc m" using Cons.prems [of e n] by (cases n) auto
  have "observe_records off (replicate n e) c = assign e off c"
    by (simp add: n observe_replicate)
  moreover have "observe_batches (off + int n) bs (assign e off c)
      = observe_records (off + int n) (concat (map (\<lambda>(e, n). replicate n e) bs)) (assign e off c)"
    using Cons.prems by (intro Cons.IH) auto
  ultimately show ?case
    by (simp add: b observe_records_append)
qed

lemma entries_observe_records:
  assumes "sorted es" and "\<And>e. e \<in> set es \<Longrightarrow> 0 \<le> e"
    and "\<And>e l. e \<in> set es \<Longrightarrow> latest_epoch c = Some l \<Longrightarrow> l \<le> e"
    and "\<And>x. x \<in> set (entries c) \<Longrightarrow> start_offset x < off"
  shows "entries (observe_records off es c) = entries c @ run_starts off (latest_epoch c) es"
  using assms
proof (induction es arbitrary: off c)
  case Nil
  then show ?case by simp
next
  case (Cons e es)
  have step: "assign e off c = c" if "latest_epoch c = Some e"
    using that by (intro assign_refused) simp
  show ?case
  proof (cases "latest_epoch c = Some e")
    case True
    have "entries (observe_records (off + 1) es c) = entries c @ run_starts (off + 1) (latest_epoch c) es"
      using Cons.prems by (intro Cons.IH) fastforce+
    with True step show ?thesis by simp
  next
    case False
    have new: "entries (assign e off c) = entries c @ [\<lparr>epoch = e, start_offset = off\<rparr>]"
    proof -
      have "\<forall>l. latest_epoch c = Some l \<longrightarrow> l < e"
        using Cons.prems(3) [of e] False by force
      moreover have "filter (\<lambda>x. start_offset x < off) (entries c) = entries c"
        using Cons.prems(4) by (simp add: filter_id_conv)
      ultimately show ?thesis
        using Cons.prems(2) [of e] by (simp add: assign_accepted)
    qed
    then have latest: "latest_epoch (assign e off c) = Some e"
      by (simp add: latest_epoch_def)
    have "entries (observe_records (off + 1) es (assign e off c))
        = entries (assign e off c) @ run_starts (off + 1) (latest_epoch (assign e off c)) es"
      using Cons.prems by (intro Cons.IH) (fastforce simp: new latest)+
    with False show ?thesis by (simp add: new latest)
  qed
qed

lemma set_run_starts:
  assumes "sorted es" and "\<And>e l. e \<in> set es \<Longrightarrow> prev = Some l \<Longrightarrow> l \<le> e"
  shows "x \<in> set (run_starts off prev es) \<longleftrightarrow>
    epoch x \<in> set es \<and> prev \<noteq> Some (epoch x) \<and>
    start_offset x = off + int (length (filter (\<lambda>e. e < epoch x) es))"
  using assms
proof (induction es arbitrary: off prev)
  case Nil
  then show ?case by simp
next
  case (Cons e es)
  have low: "filter (\<lambda>a. a < e) es = []"
    using Cons.prems(1) by (auto simp: filter_empty_conv)
  have ge: "e \<le> epoch x" if "epoch x \<in> set es"
    using Cons.prems(1) that by simp
  show ?case
  proof (cases "prev = Some e")
    case True
    have "x \<in> set (run_starts (off + 1) prev es) \<longleftrightarrow>
        epoch x \<in> set es \<and> prev \<noteq> Some (epoch x) \<and>
        start_offset x = off + 1 + int (length (filter (\<lambda>e. e < epoch x) es))"
      by (rule Cons.IH) (use Cons.prems in auto)
    with True ge show ?thesis by auto
  next
    case False
    have "x = \<lparr>epoch = e, start_offset = off\<rparr> \<longleftrightarrow> epoch x = e \<and> start_offset x = off"
      by (cases x) auto
    moreover have "x \<in> set (run_starts (off + 1) (Some e) es) \<longleftrightarrow>
        epoch x \<in> set es \<and> Some e \<noteq> Some (epoch x) \<and>
        start_offset x = off + 1 + int (length (filter (\<lambda>e. e < epoch x) es))"
      by (rule Cons.IH) (use Cons.prems in auto)
    moreover have "prev \<noteq> Some (epoch x)" if "epoch x \<in> set es" "epoch x \<noteq> e"
      using that ge Cons.prems(2) [of e] by force
    ultimately show ?thesis using False low ge by (cases "epoch x = e") auto
  qed
qed

lemma entries_history_of:
  assumes "sorted es" and "\<And>e. e \<in> set es \<Longrightarrow> 0 \<le> e"
  shows "entries (history_of es) = run_starts 0 None es"
proof -
  have "entries (observe_records 0 es empty_cache)
      = entries empty_cache @ run_starts 0 (latest_epoch empty_cache) es"
    by (rule entries_observe_records) (use assms in \<open>auto simp: empty_cache_def latest_epoch_def\<close>)
  then show ?thesis by (simp add: history_of_def empty_cache_def latest_epoch_def)
qed

lemma epoch_inv_observe_records [intro]: "epoch_inv c \<Longrightarrow> epoch_inv (observe_records off es c)"
  by (induction es arbitrary: off c) auto

lemma epoch_inv_history_of [simp]: "epoch_inv (history_of es)"
  by (auto simp: history_of_def)

lemma set_history_of:
  assumes "sorted es" and "\<And>e. e \<in> set es \<Longrightarrow> 0 \<le> e"
  shows "x \<in> set (entries (history_of es)) \<longleftrightarrow>
    epoch x \<in> set es \<and> start_offset x = int (length (filter (\<lambda>e. e < epoch x) es))"
  by (subst entries_history_of [OF assms], assumption, subst set_run_starts)
    (use assms in auto)

lemma length_filter_mono: "(\<And>x. P x \<Longrightarrow> Q x) \<Longrightarrow> length (filter P xs) \<le> length (filter Q xs)"
  by (induction xs) auto

lemma history_end_offset:
  assumes "sorted es" and nonneg: "\<And>e. e \<in> set es \<Longrightarrow> 0 \<le> e" and r: "r \<in> set es"
  shows "end_offset_for_epoch (history_of es) r (int (length es)) = (r, int (length (filter (\<lambda>e. e \<le> r) es)))"
proof (cases "\<exists>e \<in> set es. r < e")
  case False
  note mem = set_history_of [OF assms(1) nonneg]
  let ?l = "last (entries (history_of es))"
  have "\<lparr>epoch = r, start_offset = int (length (filter (\<lambda>e. e < r) es))\<rparr> \<in> set (entries (history_of es))"
    using r by (simp add: mem)
  then obtain ys where ys: "entries (history_of es) = ys @ [?l]" and
    "epoch \<lparr>epoch = r, start_offset = int (length (filter (\<lambda>e. e < r) es))\<rparr> \<le> epoch ?l"
    using epoch_inv_history_of [of es] sorted_wrt_le_last unfolding epoch_inv_def
    by (metis append_butlast_last_id empty_iff empty_set)
  moreover have "epoch ?l \<in> set es" using ys mem [of ?l] by (metis in_set_conv_decomp)
  ultimately have "epoch ?l = r"
    using False by (simp add: order_antisym not_less)
  then have "latest_epoch (history_of es) = Some r"
    using ys by (metis last_opt_snoc latest_epoch_def option.map(2))
  moreover have "filter (\<lambda>e. e \<le> r) es = es"
    using False by (simp add: filter_id_conv) force
  ultimately show ?thesis
    using nonneg [OF r] by (simp add: end_offset_current)
next
  case True
  note mem = set_history_of [OF assms(1) nonneg]
  let ?start = "\<lambda>e. int (length (filter (\<lambda>x. x < e) es))"
  define t where "t = Min {e \<in> set es. r < e}"
  have "t \<in> {e \<in> set es. r < e}"
    unfolding t_def using True by (intro Min_in) auto
  then have t: "t \<in> set es" "r < t" by auto
  have least: "t \<le> e" if "e \<in> set es" "r < e" for e
    unfolding t_def using that by (intro Min_le) auto
  have start_t: "filter (\<lambda>x. x < t) es = filter (\<lambda>e. e \<le> r) es"
    using t least by (intro filter_cong) force+
  have rin: "\<exists>e \<in> set (entries (history_of es)). epoch e \<le> r"
    using r by (intro bexI [of _ "\<lparr>epoch = r, start_offset = ?start r\<rparr>"]) (auto simp: mem)
  have tin: "\<lparr>epoch = t, start_offset = ?start t\<rparr> \<in> set (entries (history_of es))"
    using t by (simp add: mem)
  obtain p s where ps: "end_offset_for_epoch (history_of es) r (int (length es)) = (epoch p, start_offset s)"
    "p \<in> set (entries (history_of es))" "epoch p \<le> r"
    "\<forall>e \<in> set (entries (history_of es)). epoch e \<le> r \<longrightarrow> epoch e \<le> epoch p"
    "s \<in> set (entries (history_of es))" "r < epoch s"
    "\<forall>e \<in> set (entries (history_of es)). r < epoch e \<longrightarrow> start_offset s \<le> start_offset e"
    using end_offset_earlier [OF epoch_inv_history_of nonneg [OF r] rin] tin t(2)
    by (metis epoch_entry.select_convs(1))
  have "epoch p = r"
    using ps(3,4) r mem [of "\<lparr>epoch = r, start_offset = ?start r\<rparr>"]
    by (metis antisym epoch_entry.select_convs order_refl)
  moreover have "start_offset s = ?start t"
  proof (rule antisym)
    show "start_offset s \<le> ?start t" using ps(7) tin t(2) by force
    have "start_offset s = ?start (epoch s)" using ps(5) mem by blast
    moreover have "t \<le> epoch s" using ps(5,6) mem least by blast
    then have "?start t \<le> ?start (epoch s)" by (auto intro!: length_filter_mono)
    ultimately show "?start t \<le> start_offset s" by simp
  qed
  ultimately show ?thesis by (simp add: ps(1) start_t)
qed

section \<open>Histories of all partitions\<close>

type_synonym leader_epoch_store = "partition_key \<rightharpoonup> leader_epoch_cache"

definition observe_append :: "topic \<Rightarrow> int \<Rightarrow> int \<Rightarrow> int \<Rightarrow> leader_epoch_store \<Rightarrow> leader_epoch_store" where
  "observe_append t p ep base_offset st =
     (if ep < 0 then st else or_default_update empty_cache (assign ep base_offset) (t, p) st)"

definition store_latest_epoch :: "leader_epoch_store \<Rightarrow> topic \<Rightarrow> int \<Rightarrow> int option" where
  "store_latest_epoch st t p = Option.bind (st (t, p)) latest_epoch"

definition store_end_offset_for_epoch ::
  "leader_epoch_store \<Rightarrow> topic \<Rightarrow> int \<Rightarrow> int \<Rightarrow> int \<Rightarrow> int \<times> int" where
  "store_end_offset_for_epoch st t p requested log_end_offset =
     (case st (t, p) of
        Some c \<Rightarrow> end_offset_for_epoch c requested log_end_offset
      | None \<Rightarrow> (UNDEFINED_EPOCH, UNDEFINED_OFFSET))"

definition store_truncate_from_end :: "topic \<Rightarrow> int \<Rightarrow> int \<Rightarrow> leader_epoch_store \<Rightarrow> leader_epoch_store" where
  "store_truncate_from_end t p end_offset st = update_existing (truncate_from_end end_offset) (t, p) st"

definition snapshot :: "leader_epoch_store \<Rightarrow> topic \<Rightarrow> int \<Rightarrow> epoch_entry list" where
  "snapshot st t p = (case st (t, p) of Some c \<Rightarrow> entries c | None \<Rightarrow> [])"

definition tracked :: "leader_epoch_store \<Rightarrow> partition_key \<rightharpoonup> int" where
  "tracked st = (\<lambda>k. Option.bind (st k) latest_epoch)"

inductive epoch_store_step :: "leader_epoch_store \<Rightarrow> leader_epoch_store \<Rightarrow> bool" where
  observe: "epoch_store_step st (observe_append t p ep off st)"
| truncate: "epoch_store_step st (store_truncate_from_end t p off st)"

interpretation epoch_store: partition_store empty_cache epoch_inv
  by unfold_locales simp

interpretation epoch_run: invariant_system "\<lambda>st. st = Map.empty" epoch_store_step "store_all epoch_inv"
proof unfold_locales
  fix st st' :: leader_epoch_store
  assume "store_all epoch_inv st" "epoch_store_step st st'"
  then show "store_all epoch_inv st'"
    by (auto elim!: epoch_store_step.cases intro!: epoch_store.existing_inv epoch_store.or_default_inv
        simp: observe_append_def store_truncate_from_end_def)
qed simp

lemma sorted_concat_replicate:
  "sorted (map fst bs) \<Longrightarrow> sorted (concat (map (\<lambda>(e, n). replicate n e) bs))"
proof (induction bs)
  case (Cons b bs)
  have "x \<in> fst ` set bs" if "x \<in> set (concat (map (\<lambda>(e, n). replicate n e) bs))" for x
    using that by force
  with Cons show ?case by (cases b) (auto simp: sorted_append)
qed simp

section \<open>Properties\<close>

text \<open>C28: whatever sequence of observed batches and truncations a node applies, in whatever order and
  with whatever epochs and offsets, the recorded history of every partition is strictly increasing both
  in epoch and in start offset and holds no negative epoch.\<close>

theorem epoch_store_reachable_inv:
  assumes "reachable (\<lambda>st. st = Map.empty) epoch_store_step st" and "st (t, p) = Some c"
  shows "sorted_wrt (\<lambda>a b. epoch a < epoch b \<and> start_offset a < start_offset b) (snapshot st t p)
    \<and> (\<forall>e \<in> set (snapshot st t p). 0 \<le> epoch e)"
proof -
  have "epoch_inv c"
    using epoch_run.reachable_inv [OF assms(1)] assms(2) by (simp add: store_all_def)
  then show ?thesis
    using assms(2) by (simp add: snapshot_def epoch_inv_def epoch_before_def [abs_def])
qed

theorem epoch_store_reachable_inv_witness:
  "snapshot (observe_append ''t'' 0 5 2 (observe_append ''t'' 0 3 7 Map.empty)) ''t'' 0
     = [\<lparr>epoch = 5, start_offset = 2\<rparr>]
   \<and> sorted_wrt (\<lambda>a b. epoch a < epoch b \<and> start_offset a < start_offset b)
       (snapshot (observe_append ''t'' 0 5 2 (observe_append ''t'' 0 3 7 Map.empty)) ''t'' 0)"
proof -
  let ?st = "observe_append ''t'' 0 5 2 (observe_append ''t'' 0 3 7 Map.empty)"
  have "reachable (\<lambda>st. st = Map.empty) epoch_store_step ?st"
    by (rule reachable.move [OF reachable.move [OF reachable.start]]) (rule refl epoch_store_step.observe)+
  moreover have st: "?st (''t'', 0) = Some \<lparr>entries = [\<lparr>epoch = 5, start_offset = 2\<rparr>]\<rparr>"
    by (simp add: observe_append_def or_default_update_def assign_def empty_cache_def last_opt_def)
  ultimately show ?thesis
    using epoch_store_reachable_inv [of ?st "''t''" 0] by (simp add: snapshot_def)
qed

text \<open>C16: a leader that stamped its batches with non-decreasing epochs answers a request for any epoch in
  its log with that epoch and the offset one past its last record: the number of records whose epoch is at
  most the requested one.\<close>

theorem observed_batches_end_offset:
  assumes pos: "\<forall>b \<in> set bs. 0 < snd b \<and> 0 \<le> fst b"
    and "sorted (map fst bs)" and "r \<in> fst ` set bs"
  shows "end_offset_for_epoch (observe_batches 0 bs empty_cache) r (int (sum_list (map snd bs)))
    = (r, int (sum_list (map snd (filter (\<lambda>b. fst b \<le> r) bs))))"
proof -
  let ?es = "concat (map (\<lambda>(e, n). replicate n e) bs)"
  have mem: "e \<in> set ?es \<longleftrightarrow> e \<in> fst ` set bs" for e using pos by force
  have "observe_batches 0 bs empty_cache = history_of ?es"
    unfolding history_of_def using pos by (intro observe_batches_records) auto
  moreover have "end_offset_for_epoch (history_of ?es) r (int (length ?es))
      = (r, int (length (filter (\<lambda>e. e \<le> r) ?es)))"
  proof (rule history_end_offset)
    show "sorted ?es"
      using assms(2) by (rule sorted_concat_replicate)
    show "r \<in> set ?es" using assms(3) unfolding mem .
    show "0 \<le> e" if "e \<in> set ?es" for e using that pos unfolding mem by auto
  qed
  moreover have "length ?es = sum_list (map snd bs)"
    by (induction bs) auto
  moreover have "length (filter (\<lambda>e. e \<le> r) ?es) = sum_list (map snd (filter (\<lambda>b. fst b \<le> r) bs))"
    by (induction bs) auto
  ultimately show ?thesis by simp
qed

theorem observed_batches_end_offset_witness:
  "end_offset_for_epoch (observe_batches 0 [(3, 2), (3, 1), (5, 4), (6, 1)] empty_cache) 5 8 = (5, 7)"
  using observed_batches_end_offset [of "[(3, 2), (3, 1), (5, 4), (6, 1)]" 5] by simp

text \<open>Retention that moves the start of the log to some offset leaves the epoch of every offset that
  is still in the log unchanged.\<close>

theorem retention_keeps_epochs:
  assumes "reachable (\<lambda>st. st = Map.empty) epoch_store_step st" and "st (t, p) = Some c" and "so \<le> off"
  shows "epoch_for_offset (truncate_from_start so c) off = epoch_for_offset c off"
proof -
  have "epoch_inv c"
    using epoch_run.reachable_inv [OF assms(1)] assms(2) by (simp add: store_all_def)
  then show ?thesis using assms(3) by (rule epoch_for_offset_truncate_from_start)
qed

theorem retention_keeps_epochs_witness:
  "epoch_for_offset (truncate_from_start 4 \<lparr>entries = [\<lparr>epoch = 3, start_offset = 2\<rparr>]\<rparr>) 9
    = epoch_for_offset \<lparr>entries = [\<lparr>epoch = 3, start_offset = 2\<rparr>]\<rparr> 9"
proof -
  let ?st = "observe_append ''t'' 0 3 2 Map.empty"
  have "reachable (\<lambda>st. st = Map.empty) epoch_store_step ?st"
    by (rule reachable.move [OF reachable.start]) (rule refl epoch_store_step.observe)+
  moreover have "?st (''t'', 0) = Some \<lparr>entries = [\<lparr>epoch = 3, start_offset = 2\<rparr>]\<rparr>"
    by (simp add: observe_append_def or_default_update_def assign_def empty_cache_def last_opt_def)
  ultimately show ?thesis
    using retention_keeps_epochs [of ?st "''t''" 0 _ 4 9] by simp
qed

end
