(* ===== verification/Wal_Record.thy ===== *)
theory Wal_Record
  imports Chronik_Prelude
begin

text \<open>
  The record format of the write-ahead log (\<open>chronik-wal/src/record.rs\<close>): the two record
  versions, their little-endian serialisation, the length and checksum fields, and the
  parser with every error it returns. The CRC-32 of the \<open>crc32fast\<close> crate is the parameter
  \<open>crc\<close> of the definitions that use it, applied to all bytes fed to the hasher in order.
  Arithmetic on the \<open>u32\<close> length wraps as in a release build.
\<close>

section \<open>Data\<close>

definition WAL_MAGIC :: int where "WAL_MAGIC = 0xCA7E"
definition WAL_VERSION_V1 :: int where "WAL_VERSION_V1 = 1"
definition WAL_VERSION_V2 :: int where "WAL_VERSION_V2 = 2"

record wal_prefix =
  wal_magic :: int
  wal_version :: int
  wal_flags :: int
  wal_length :: int
  wal_crc32 :: int

record wal_v1 = wal_prefix +
  wal_offset :: int
  wal_timestamp :: int
  wal_key :: "byte list option"
  wal_value :: "byte list"
  wal_headers :: "(string \<times> byte list) list"

record wal_v2 = wal_prefix +
  wal_topic :: topic
  wal_partition :: int
  wal_canonical_data :: "byte list"
  wal_base_offset :: int
  wal_last_offset :: int
  wal_record_count :: int

datatype wal_record = V1 wal_v1 | V2 wal_v2

datatype wal_error =
    Io_eof
  | Invalid_magic int
  | Unsupported_version int
  | Invalid_utf8
  | Checksum_mismatch int int int
  | Capacity_panic

section \<open>Serialisation\<close>

definition key_bytes :: "byte list option \<Rightarrow> byte list" where
  "key_bytes k = (case k of
      Some k \<Rightarrow> le_bytes 4 (swrap 32 (int (length k))) @ k
    | None \<Rightarrow> le_bytes 4 (-1))"

definition header_bytes :: "string \<times> byte list \<Rightarrow> byte list" where
  "header_bytes h = le_bytes 2 (uwrap 16 (int (length (fst h)))) @ as_bytes (fst h)
     @ le_bytes 4 (uwrap 32 (int (length (snd h)))) @ snd h"

definition v1_body_bytes :: "wal_v1 \<Rightarrow> byte list" where
  "v1_body_bytes r = key_bytes (wal_key r)
     @ le_bytes 4 (swrap 32 (int (length (wal_value r)))) @ wal_value r
     @ le_bytes 4 (swrap 32 (int (length (wal_headers r)))) @ concat (map header_bytes (wal_headers r))"

definition v2_body_bytes :: "wal_v2 \<Rightarrow> byte list" where
  "v2_body_bytes r = le_bytes 2 (uwrap 16 (int (length (wal_topic r)))) @ as_bytes (wal_topic r)
     @ le_bytes 4 (wal_partition r)
     @ le_bytes 4 (uwrap 32 (int (length (wal_canonical_data r)))) @ wal_canonical_data r
     @ le_bytes 8 (wal_base_offset r) @ le_bytes 8 (wal_last_offset r) @ le_bytes 4 (wal_record_count r)"

fun to_bytes :: "wal_record \<Rightarrow> byte list" where
  "to_bytes (V1 r) = le_bytes 2 (wal_magic r) @ le_bytes 1 (wal_version r) @ le_bytes 1 (wal_flags r)
     @ le_bytes 4 (wal_length r) @ le_bytes 8 (wal_offset r) @ le_bytes 8 (wal_timestamp r)
     @ le_bytes 4 (wal_crc32 r) @ v1_body_bytes r"
| "to_bytes (V2 r) = le_bytes 2 (wal_magic r) @ le_bytes 1 (wal_version r) @ le_bytes 1 (wal_flags r)
     @ le_bytes 4 (wal_length r) @ le_bytes 4 (wal_crc32 r) @ v2_body_bytes r"

text \<open>The second serialiser, into a pooled buffer. The \<open>put_u16\<close> family of \<open>bytes\<close> is big-endian.\<close>

definition key_bytes_be :: "byte list option \<Rightarrow> byte list" where
  "key_bytes_be k = (case k of
      Some k \<Rightarrow> be_bytes 4 (swrap 32 (int (length k))) @ k
    | None \<Rightarrow> be_bytes 4 (-1))"

definition header_bytes_be :: "string \<times> byte list \<Rightarrow> byte list" where
  "header_bytes_be h = be_bytes 2 (uwrap 16 (int (length (fst h)))) @ as_bytes (fst h)
     @ be_bytes 4 (uwrap 32 (int (length (snd h)))) @ snd h"

fun write_to_pooled :: "wal_record \<Rightarrow> byte list" where
  "write_to_pooled (V1 r) = be_bytes 2 (wal_magic r) @ be_bytes 1 (wal_version r) @ be_bytes 1 (wal_flags r)
     @ be_bytes 4 (wal_length r) @ be_bytes 8 (wal_offset r) @ be_bytes 8 (wal_timestamp r)
     @ be_bytes 4 (wal_crc32 r) @ key_bytes_be (wal_key r)
     @ be_bytes 4 (swrap 32 (int (length (wal_value r)))) @ wal_value r
     @ be_bytes 4 (swrap 32 (int (length (wal_headers r)))) @ concat (map header_bytes_be (wal_headers r))"
| "write_to_pooled (V2 r) = be_bytes 2 (wal_magic r) @ be_bytes 1 (wal_version r) @ be_bytes 1 (wal_flags r)
     @ be_bytes 4 (wal_length r) @ be_bytes 4 (wal_crc32 r)
     @ be_bytes 2 (uwrap 16 (int (length (wal_topic r)))) @ as_bytes (wal_topic r)
     @ be_bytes 4 (wal_partition r)
     @ be_bytes 4 (uwrap 32 (int (length (wal_canonical_data r)))) @ wal_canonical_data r
     @ be_bytes 8 (wal_base_offset r) @ be_bytes 8 (wal_last_offset r) @ be_bytes 4 (wal_record_count r)"

section \<open>Length and checksum\<close>

definition header_length :: "string \<times> byte list \<Rightarrow> int" where
  "header_length h = 2 + int (length (fst h)) + 4 + int (length (snd h))"

fun calculate_length :: "wal_record \<Rightarrow> int" where
  "calculate_length (V1 r) = uwrap 32 (28 + 4
     + (case wal_key r of Some k \<Rightarrow> int (length k) | None \<Rightarrow> 0)
     + (4 + int (length (wal_value r))) + 4
     + sum_list (map header_length (wal_headers r)))"
| "calculate_length (V2 r) = uwrap 32 (2 + int (length (wal_topic r)) + 4 + 4
     + int (length (wal_canonical_data r)) + 8 + 8 + 4)"

fun calculate_checksum :: "(byte list \<Rightarrow> int) \<Rightarrow> wal_record \<Rightarrow> int" where
  "calculate_checksum crc (V1 r) = crc (le_bytes 2 (wal_magic r)
     @ le_bytes 1 (wal_version r) @ le_bytes 1 (wal_flags r) @ le_bytes 4 (wal_length r)
     @ le_bytes 8 (wal_offset r) @ le_bytes 8 (wal_timestamp r) @ v1_body_bytes r)"
| "calculate_checksum crc (V2 r) = crc (le_bytes 2 (wal_magic r)
     @ le_bytes 1 (wal_version r) @ le_bytes 1 (wal_flags r) @ le_bytes 4 (wal_length r)
     @ v2_body_bytes r)"

fun get_length :: "wal_record \<Rightarrow> int" where
  "get_length (V1 r) = wal_length r"
| "get_length (V2 r) = wal_length r"

fun get_crc32 :: "wal_record \<Rightarrow> int" where
  "get_crc32 (V1 r) = wal_crc32 r"
| "get_crc32 (V2 r) = wal_crc32 r"

fun get_offset :: "wal_record \<Rightarrow> int option" where
  "get_offset (V1 r) = Some (wal_offset r)"
| "get_offset (V2 r) = None"

fun get_base_offset :: "wal_record \<Rightarrow> int" where
  "get_base_offset (V1 r) = wal_offset r"
| "get_base_offset (V2 r) = wal_base_offset r"

fun get_last_offset :: "wal_record \<Rightarrow> int" where
  "get_last_offset (V1 r) = wal_offset r"
| "get_last_offset (V2 r) = wal_last_offset r"

fun is_v2 :: "wal_record \<Rightarrow> bool" where
  "is_v2 (V1 r) = False"
| "is_v2 (V2 r) = True"

fun set_length :: "int \<Rightarrow> wal_record \<Rightarrow> wal_record" where
  "set_length l (V1 r) = V1 (r\<lparr>wal_length := l\<rparr>)"
| "set_length l (V2 r) = V2 (r\<lparr>wal_length := l\<rparr>)"

fun set_crc32 :: "int \<Rightarrow> wal_record \<Rightarrow> wal_record" where
  "set_crc32 c (V1 r) = V1 (r\<lparr>wal_crc32 := c\<rparr>)"
| "set_crc32 c (V2 r) = V2 (r\<lparr>wal_crc32 := c\<rparr>)"

definition update_length_and_checksum :: "(byte list \<Rightarrow> int) \<Rightarrow> wal_record \<Rightarrow> wal_record" where
  "update_length_and_checksum crc r =
     (let r1 = set_length (calculate_length r) r
      in set_crc32 (calculate_checksum crc r1) r1)"

definition new_v1 :: "(byte list \<Rightarrow> int) \<Rightarrow> int \<Rightarrow> byte list option \<Rightarrow> byte list \<Rightarrow> int \<Rightarrow> wal_record" where
  "new_v1 crc off k v ts = update_length_and_checksum crc (V1
     \<lparr>wal_magic = WAL_MAGIC, wal_version = WAL_VERSION_V1, wal_flags = 0, wal_length = 0, wal_crc32 = 0,
      wal_offset = off, wal_timestamp = ts, wal_key = k, wal_value = v, wal_headers = []\<rparr>)"

definition new_v2 ::
  "(byte list \<Rightarrow> int) \<Rightarrow> topic \<Rightarrow> int \<Rightarrow> byte list \<Rightarrow> int \<Rightarrow> int \<Rightarrow> int \<Rightarrow> wal_record" where
  "new_v2 crc t p data base last_off cnt = update_length_and_checksum crc (V2
     \<lparr>wal_magic = WAL_MAGIC, wal_version = WAL_VERSION_V2, wal_flags = 0, wal_length = 0, wal_crc32 = 0,
      wal_topic = t, wal_partition = p, wal_canonical_data = data,
      wal_base_offset = base, wal_last_offset = last_off, wal_record_count = cnt\<rparr>)"

definition verify_checksum :: "(byte list \<Rightarrow> int) \<Rightarrow> wal_record \<Rightarrow> wal_error + unit" where
  "verify_checksum crc r =
     (if is_v2 r then Inr ()
      else let computed = calculate_checksum crc r; stored = get_crc32 r
        in if computed \<noteq> stored
           then Inl (Checksum_mismatch (case get_offset r of Some off \<Rightarrow> off | None \<Rightarrow> -1) stored computed)
           else Inr ())"

fun get_record_count :: "wal_record \<Rightarrow> int" where
  "get_record_count (V1 r) = 1"
| "get_record_count (V2 r) = wal_record_count r"

definition HEADER :: nat where "HEADER = 64"

fun heap_size :: "wal_record \<Rightarrow> nat" where
  "heap_size (V1 r) = HEADER + (case wal_key r of None \<Rightarrow> 0 | Some k \<Rightarrow> length k) + length (wal_value r)
     + sum_list (map (\<lambda>(k, v). length k + length v) (wal_headers r))"
| "heap_size (V2 r) = HEADER + length (wal_topic r) + length (wal_canonical_data r)"

section \<open>Parsing\<close>

text \<open>
  \<open>vec![0u8; n as usize]\<close> followed by \<open>read_exact\<close>: a negative \<open>i32\<close> becomes a
  capacity above \<open>isize::MAX\<close>, and the allocation panics.
\<close>

definition read_vec :: "int \<Rightarrow> (wal_error, byte list) decoder" where
  "read_vec n = (if n < 0 then dec_fail Capacity_panic else take_bytes Io_eof (nat n))"

definition read_key :: "(wal_error, byte list option) decoder" where
  "read_key =
     dec_bind (dec_le_sint Io_eof 4) (\<lambda>key_len.
       if 0 \<le> key_len then dec_bind (read_vec key_len) (\<lambda>buf. dec_return (Some buf))
       else dec_return None)"

definition read_header :: "(wal_error, string \<times> byte list) decoder" where
  "read_header =
     dec_bind (dec_le_uint Io_eof 2) (\<lambda>name_len.
     dec_bind (read_vec name_len) (\<lambda>name_buf.
     dec_bind (dec_utf8 Invalid_utf8 name_buf) (\<lambda>name.
     dec_bind (dec_le_uint Io_eof 4) (\<lambda>value_len.
     dec_bind (read_vec value_len) (\<lambda>value_buf.
     dec_return (name, value_buf))))))"

definition read_headers :: "(wal_error, (string \<times> byte list) list) decoder" where
  "read_headers =
     dec_bind (dec_le_sint Io_eof 4) (\<lambda>headers_count.
       if headers_count < 0 then dec_fail Capacity_panic
       else dec_repeat (nat headers_count) read_header)"

definition read_v1 :: "int \<Rightarrow> int \<Rightarrow> (wal_error, wal_record) decoder" where
  "read_v1 magic version =
     dec_bind (dec_le_uint Io_eof 1) (\<lambda>flags.
     dec_bind (dec_le_uint Io_eof 4) (\<lambda>len.
     dec_bind (dec_le_sint Io_eof 8) (\<lambda>off.
     dec_bind (dec_le_sint Io_eof 8) (\<lambda>ts.
     dec_bind (dec_le_uint Io_eof 4) (\<lambda>crc32.
     dec_bind read_key (\<lambda>k.
     dec_bind (dec_le_sint Io_eof 4) (\<lambda>value_len.
     dec_bind (read_vec value_len) (\<lambda>v.
     dec_bind read_headers (\<lambda>hs.
     dec_return (V1 \<lparr>wal_magic = magic, wal_version = version, wal_flags = flags, wal_length = len,
       wal_crc32 = crc32, wal_offset = off, wal_timestamp = ts, wal_key = k, wal_value = v,
       wal_headers = hs\<rparr>))))))))))"

definition read_v2 :: "int \<Rightarrow> int \<Rightarrow> (wal_error, wal_record) decoder" where
  "read_v2 magic version =
     dec_bind (dec_le_uint Io_eof 1) (\<lambda>flags.
     dec_bind (dec_le_uint Io_eof 4) (\<lambda>len.
     dec_bind (dec_le_uint Io_eof 4) (\<lambda>crc32.
     dec_bind (dec_le_uint Io_eof 2) (\<lambda>topic_len.
     dec_bind (read_vec topic_len) (\<lambda>topic_buf.
     dec_bind (dec_utf8 Invalid_utf8 topic_buf) (\<lambda>t.
     dec_bind (dec_le_sint Io_eof 4) (\<lambda>p.
     dec_bind (dec_le_uint Io_eof 4) (\<lambda>data_len.
     dec_bind (read_vec data_len) (\<lambda>data.
     dec_bind (dec_le_sint Io_eof 8) (\<lambda>base.
     dec_bind (dec_le_sint Io_eof 8) (\<lambda>last_off.
     dec_bind (dec_le_sint Io_eof 4) (\<lambda>cnt.
     dec_return (V2 \<lparr>wal_magic = magic, wal_version = version, wal_flags = flags, wal_length = len,
       wal_crc32 = crc32, wal_topic = t, wal_partition = p, wal_canonical_data = data,
       wal_base_offset = base, wal_last_offset = last_off, wal_record_count = cnt\<rparr>)))))))))))))"

definition read_verified :: "(byte list \<Rightarrow> int) \<Rightarrow> wal_record \<Rightarrow> (wal_error, wal_record) decoder" where
  "read_verified crc r = (case verify_checksum crc r of Inl e \<Rightarrow> dec_fail e | Inr _ \<Rightarrow> dec_return r)"

definition read_record :: "(byte list \<Rightarrow> int) \<Rightarrow> (wal_error, wal_record) decoder" where
  "read_record crc =
     dec_bind (dec_le_uint Io_eof 2) (\<lambda>magic.
       if magic \<noteq> WAL_MAGIC then dec_fail (Invalid_magic magic)
       else dec_bind (dec_le_uint Io_eof 1) (\<lambda>version.
         if version = WAL_VERSION_V1 then dec_bind (read_v1 magic version) (read_verified crc)
         else if version = WAL_VERSION_V2 then dec_bind (read_v2 magic version) (read_verified crc)
         else dec_fail (Unsupported_version version)))"

definition from_bytes :: "(byte list \<Rightarrow> int) \<Rightarrow> byte list \<Rightarrow> wal_error + wal_record" where
  "from_bytes crc data = map_sum id fst (read_record crc data)"

section \<open>Encodable records\<close>

text \<open>
  The values a Rust program can hold in the fields, with the lengths that the length fields
  can represent.
\<close>

definition vec_ok :: "nat \<Rightarrow> 'a list \<Rightarrow> bool" where
  "vec_ok n xs \<longleftrightarrow> int (length xs) < 2 ^ n"

definition prefix_ok :: "('a wal_prefix_scheme) \<Rightarrow> bool" where
  "prefix_ok r \<longleftrightarrow> in_unsigned 8 (wal_flags r) \<and> in_unsigned 32 (wal_length r) \<and> in_unsigned 32 (wal_crc32 r)"

definition header_ok :: "string \<times> byte list \<Rightarrow> bool" where
  "header_ok h \<longleftrightarrow> rust_str (fst h) \<and> vec_ok 16 (fst h) \<and> vec_ok 32 (snd h)"

fun record_ok :: "wal_record \<Rightarrow> bool" where
  "record_ok (V1 r) \<longleftrightarrow> wal_magic r = WAL_MAGIC \<and> wal_version r = WAL_VERSION_V1 \<and> prefix_ok r
     \<and> in_signed 64 (wal_offset r) \<and> in_signed 64 (wal_timestamp r)
     \<and> (case wal_key r of None \<Rightarrow> True | Some k \<Rightarrow> vec_ok 31 k) \<and> vec_ok 31 (wal_value r)
     \<and> vec_ok 31 (wal_headers r) \<and> list_all header_ok (wal_headers r)"
| "record_ok (V2 r) \<longleftrightarrow> wal_magic r = WAL_MAGIC \<and> wal_version r = WAL_VERSION_V2 \<and> prefix_ok r
     \<and> rust_str (wal_topic r) \<and> vec_ok 16 (wal_topic r) \<and> in_signed 32 (wal_partition r)
     \<and> vec_ok 32 (wal_canonical_data r) \<and> in_signed 64 (wal_base_offset r)
     \<and> in_signed 64 (wal_last_offset r) \<and> in_signed 32 (wal_record_count r)"

lemma vec_ok_len:
  "vec_ok n xs \<Longrightarrow> uwrap n (int (length xs)) = int (length xs)"
  "vec_ok n xs \<Longrightarrow> in_unsigned n (int (length xs))"
  "vec_ok 31 xs \<Longrightarrow> swrap 32 (int (length xs)) = int (length xs)"
  "vec_ok 31 xs \<Longrightarrow> in_signed 32 (int (length xs))"
  by (simp_all add: vec_ok_def in_unsigned_def in_signed_def wrap_simps)

lemma read_vec_run [codec_simps]: "read_vec (int (length bs)) (bs @ rest) = Inr (bs, rest)"
  by (simp add: read_vec_def codec_simps)

lemma read_vec_string [codec_simps]:
  "read_vec (int (length s)) (as_bytes s @ rest) = Inr (as_bytes s, rest)"
  using read_vec_run [of "as_bytes s" rest] by simp

interpretation header_codec: codec header_bytes read_header header_ok
  by unfold_locales
    (simp add: header_ok_def header_bytes_def read_header_def codec_simps vec_ok_len)

interpretation key_codec: codec key_bytes read_key "\<lambda>k. case k of None \<Rightarrow> True | Some k \<Rightarrow> vec_ok 31 k"
proof unfold_locales
  fix k :: "byte list option" and rest :: "byte list"
  assume "case k of None \<Rightarrow> True | Some k \<Rightarrow> vec_ok 31 k"
  then show "read_key (key_bytes k @ rest) = Inr (k, rest)"
    by (cases k) (simp_all add: key_bytes_def read_key_def codec_simps vec_ok_len)
qed

definition sealed :: "(byte list \<Rightarrow> int) \<Rightarrow> wal_record \<Rightarrow> bool" where
  "sealed crc r \<longleftrightarrow> record_ok r \<and> get_length r = calculate_length r
     \<and> get_crc32 r = calculate_checksum crc r"

lemma read_headers_run:
  assumes "vec_ok 31 hs" and "list_all header_ok hs"
  shows "read_headers (le_bytes 4 (int (length hs)) @ concat (map header_bytes hs) @ rest) = Inr (hs, rest)"
  using assms header_codec.repeat_enc [of hs rest]
  by (simp add: read_headers_def codec_simps vec_ok_len list_all_iff)

lemma read_record_v1:
  assumes "record_ok (V1 r)"
  shows "read_record crc (to_bytes (V1 r) @ rest) = read_verified crc (V1 r) rest"
proof -
  have key: "read_key (key_bytes (wal_key r) @ x) = Inr (wal_key r, x)" for x
    using assms by (intro key_codec.dec_enc) simp
  have hs: "read_headers (le_bytes 4 (int (length (wal_headers r)))
      @ concat (map header_bytes (wal_headers r)) @ rest) = Inr (wal_headers r, rest)"
    using assms by (intro read_headers_run) simp_all
  have "read_v1 WAL_MAGIC WAL_VERSION_V1 (le_bytes 1 (wal_flags r) @ le_bytes 4 (wal_length r)
      @ le_bytes 8 (wal_offset r) @ le_bytes 8 (wal_timestamp r)
      @ le_bytes 4 (wal_crc32 r) @ v1_body_bytes r @ rest) = Inr (V1 r, rest)"
    using assms
    by (simp add: read_v1_def v1_body_bytes_def codec_simps vec_ok_len prefix_ok_def key hs
        del: One_nat_def)
  then show ?thesis
    using assms
    by (simp add: read_record_def codec_simps WAL_MAGIC_def WAL_VERSION_V1_def del: One_nat_def)
qed

lemma read_record_v2:
  assumes "record_ok (V2 r)"
  shows "read_record crc (to_bytes (V2 r) @ rest) = read_verified crc (V2 r) rest"
proof -
  have "read_v2 WAL_MAGIC WAL_VERSION_V2 (le_bytes 1 (wal_flags r) @ le_bytes 4 (wal_length r)
      @ le_bytes 4 (wal_crc32 r) @ v2_body_bytes r @ rest) = Inr (V2 r, rest)"
    using assms
    by (simp add: read_v2_def v2_body_bytes_def codec_simps vec_ok_len prefix_ok_def
        del: One_nat_def)
  then show ?thesis
    using assms
    by (simp add: read_record_def codec_simps WAL_MAGIC_def WAL_VERSION_V1_def WAL_VERSION_V2_def
        del: One_nat_def)
qed

lemma read_record_run:
  "record_ok r \<Longrightarrow> read_record crc (to_bytes r @ rest) = read_verified crc r rest"
  by (cases r) (simp_all add: read_record_v1 read_record_v2 del: to_bytes.simps)

lemma verify_checksum_ok: "get_crc32 r = calculate_checksum crc r \<Longrightarrow> verify_checksum crc r = Inr ()"
  by (simp add: verify_checksum_def)

interpretation wal_codec: codec to_bytes "read_record crc" "sealed crc"
proof unfold_locales
  fix r and rest :: "byte list"
  assume "sealed crc r"
  then show "read_record crc (to_bytes r @ rest) = Inr (r, rest)"
    by (simp add: sealed_def read_record_run read_verified_def verify_checksum_ok)
qed

section \<open>Sealing\<close>

lemma calculate_length_set [simp]:
  "calculate_length (set_length l r) = calculate_length r"
  "calculate_length (set_crc32 c r) = calculate_length r"
  by (cases r; simp)+

lemma get_set [simp]:
  "get_length (set_length l r) = l" "get_length (set_crc32 c r) = get_length r"
  "get_crc32 (set_crc32 c r) = c"
  by (cases r; simp)+

lemma v1_body_bytes_update [simp]:
  "v1_body_bytes (r\<lparr>wal_crc32 := c\<rparr>) = v1_body_bytes r"
  "v1_body_bytes (r\<lparr>wal_length := l\<rparr>) = v1_body_bytes r"
  by (simp_all add: v1_body_bytes_def)

lemma v2_body_bytes_update [simp]:
  "v2_body_bytes (r\<lparr>wal_crc32 := c\<rparr>) = v2_body_bytes r"
  "v2_body_bytes (r\<lparr>wal_length := l\<rparr>) = v2_body_bytes r"
  by (simp_all add: v2_body_bytes_def)

lemma calculate_checksum_set_crc32 [simp]:
  "calculate_checksum crc (set_crc32 c r) = calculate_checksum crc r"
  by (cases r) simp_all

lemma sealed_update:
  assumes "record_ok r" and "\<And>bs. in_unsigned 32 (crc bs)"
  shows "sealed crc (update_length_and_checksum crc r)"
proof -
  have "in_unsigned 32 (calculate_length r)" by (cases r) simp_all
  moreover have "in_unsigned 32 (calculate_checksum crc x)" for x
    using assms(2) by (cases x) simp_all
  ultimately have "record_ok (update_length_and_checksum crc r)"
    using assms(1)
    by (cases r) (simp_all add: update_length_and_checksum_def Let_def prefix_ok_def
        del: calculate_length.simps calculate_checksum.simps)
  then show ?thesis
    by (simp add: sealed_def update_length_and_checksum_def Let_def)
qed

lemma length_header_bytes: "int (length (header_bytes h)) = header_length h"
  by (simp add: header_bytes_def header_length_def)

lemma length_headers_bytes:
  "int (length (concat (map header_bytes hs))) = sum_list (map header_length hs)"
  by (induction hs) (simp_all add: length_header_bytes)

lemma length_to_bytes_v1:
  "calculate_length (V1 r) = uwrap 32 (int (length (to_bytes (V1 r))))"
  using length_headers_bytes [of "wal_headers r"]
  by (simp add: v1_body_bytes_def key_bytes_def add.assoc split: option.split)

lemma length_to_bytes_v2:
  "calculate_length (V2 r) = uwrap 32 (int (length (to_bytes (V2 r))) - 12)"
  by (simp add: v2_body_bytes_def)

section \<open>Properties\<close>

text \<open>C22: a record with length and checksum filled in is read back unchanged from its serialisation, whatever
  bytes follow it in the segment file.\<close>

theorem wal_record_roundtrip:
  assumes "record_ok r" and "\<forall>bs. in_unsigned 32 (crc bs)"
  shows "from_bytes crc (to_bytes (update_length_and_checksum crc r) @ rest)
    = Inr (update_length_and_checksum crc r)"
  using wal_codec.dec_enc [OF sealed_update [OF assms(1)], of crc rest] assms(2)
  by (simp add: from_bytes_def)

theorem wal_record_roundtrip_witness:
  "from_bytes (\<lambda>bs. int (length bs)) (to_bytes (new_v1 (\<lambda>bs. 7) 42 (Some [1, 2]) [3] 1000) @ [255])
    = Inl (Checksum_mismatch 42 7 39)
   \<and> from_bytes (\<lambda>bs. 7) (to_bytes (new_v1 (\<lambda>bs. 7) 42 (Some [1, 2]) [3] 1000) @ [255])
    = Inr (new_v1 (\<lambda>bs. 7) 42 (Some [1, 2]) [3] 1000)"
proof -
  have "from_bytes (\<lambda>bs. 7) (to_bytes (new_v1 (\<lambda>bs. 7) 42 (Some [1, 2]) [3] 1000) @ [255])
    = Inr (new_v1 (\<lambda>bs. 7) 42 (Some [1, 2]) [3] 1000)"
    unfolding new_v1_def
    by (rule wal_record_roundtrip) (simp_all add: prefix_ok_def vec_ok_def)
  moreover have "from_bytes (\<lambda>bs. int (length bs)) (to_bytes (new_v1 (\<lambda>bs. 7) 42 (Some [1, 2]) [3] 1000) @ [255])
    = Inl (Checksum_mismatch 42 7 39)"
    by code_simp
  ultimately show ?thesis by simp
qed

text \<open>C37: a serialised V1 record is accepted exactly when its stored checksum is the one of its contents,
  and is refused with both checksums and its offset otherwise; a V2 record is accepted whatever its checksum
  field holds.\<close>

theorem from_bytes_checksum:
  assumes "record_ok r"
  shows "from_bytes crc (to_bytes r @ rest) =
    (case r of
       V1 r1 \<Rightarrow> if calculate_checksum crc r = wal_crc32 r1 then Inr r
               else Inl (Checksum_mismatch (wal_offset r1) (wal_crc32 r1) (calculate_checksum crc r))
     | V2 _ \<Rightarrow> Inr r)"
  using assms
  by (cases r) (simp_all add: from_bytes_def read_record_run read_verified_def verify_checksum_def
      del: to_bytes.simps calculate_checksum.simps)

theorem from_bytes_checksum_witness:
  "from_bytes (\<lambda>bs. 7) (to_bytes (set_crc32 9 (new_v2 (\<lambda>bs. 7) ''orders'' 3 [1, 2] 10 11 2)))
    = Inr (set_crc32 9 (new_v2 (\<lambda>bs. 7) ''orders'' 3 [1, 2] 10 11 2))"
proof -
  let ?r = "set_crc32 9 (new_v2 (\<lambda>bs. 7) ''orders'' 3 [1, 2] 10 11 2)"
  have "record_ok ?r" by code_simp
  then show ?thesis
    using from_bytes_checksum [of ?r "\<lambda>bs. 7" "[]"]
    by (simp add: new_v2_def update_length_and_checksum_def Let_def)
qed

text \<open>The length field of a record that fits in 4 GiB is the size of its whole serialisation for V1, and
  the size of what follows the 12-byte header for V2.\<close>

theorem wal_length_field:
  assumes "int (length (to_bytes r)) < 2 ^ 32"
  shows "int (length (to_bytes (update_length_and_checksum crc r)))
    = get_length (update_length_and_checksum crc r) + (if is_v2 r then 12 else 0)"
  using assms length_to_bytes_v1 length_to_bytes_v2
  by (cases r) (simp_all add: update_length_and_checksum_def Let_def uwrap_def v2_body_bytes_def
      del: calculate_length.simps)

theorem wal_length_field_witness:
  "int (length (to_bytes (new_v2 (\<lambda>bs. 7) ''orders'' 3 [1, 2] 10 11 2)))
    = get_length (new_v2 (\<lambda>bs. 7) ''orders'' 3 [1, 2] 10 11 2) + 12"
  unfolding new_v2_def
  by (subst wal_length_field) (simp_all add: v2_body_bytes_def)

text \<open>A V1 record whose value length field is negative does not give an error: the parser panics on
  the allocation, before the checksum is looked at.\<close>

theorem from_bytes_negative_value_length:
  assumes "in_unsigned 8 fl" "in_unsigned 32 len" "in_signed 64 off" "in_signed 64 ts" "in_unsigned 32 c"
    and "in_signed 32 vl" "vl < 0"
  shows "from_bytes crc (le_bytes 2 WAL_MAGIC @ le_bytes 1 WAL_VERSION_V1 @ le_bytes 1 fl @ le_bytes 4 len
     @ le_bytes 8 off @ le_bytes 8 ts @ le_bytes 4 c @ le_bytes 4 (-1) @ le_bytes 4 vl @ rest)
    = Inl Capacity_panic"
  using assms
  by (simp add: from_bytes_def read_record_def read_v1_def read_key_def read_vec_def codec_simps
      WAL_MAGIC_def WAL_VERSION_V1_def del: One_nat_def)

theorem from_bytes_negative_value_length_witness:
  "from_bytes (\<lambda>bs. 7) (le_bytes 2 WAL_MAGIC @ le_bytes 1 WAL_VERSION_V1 @ le_bytes 1 0 @ le_bytes 4 40
     @ le_bytes 8 5 @ le_bytes 8 6 @ le_bytes 4 7 @ le_bytes 4 (-1) @ le_bytes 4 (-1) @ [])
    = Inl Capacity_panic"
  by (rule from_bytes_negative_value_length) simp_all

lemma magic_swapped: "dec_le_uint Io_eof 2 (be_bytes 2 WAL_MAGIC @ rest) = Inr (0x7ECA, rest)"
proof -
  have "le_uint (be_bytes 2 WAL_MAGIC) = 0x7ECA" by code_simp
  then show ?thesis by (simp add: dec_le_uint_def codec_simps)
qed

text \<open>The pooled serialisation is not readable: the parser refuses every record written by it, because
  it finds the magic number with its two bytes swapped.\<close>

theorem write_to_pooled_unreadable:
  assumes "record_ok r"
  shows "from_bytes crc (write_to_pooled r @ rest) = Inl (Invalid_magic 0x7ECA)"
proof -
  have magic: "WAL_MAGIC \<noteq> 0x7ECA" by (simp add: WAL_MAGIC_def)
  obtain x where "write_to_pooled r = be_bytes 2 WAL_MAGIC @ x"
    using assms by (cases r) simp_all
  then show ?thesis
    using magic by (simp add: from_bytes_def read_record_def magic_swapped dec_bind_Inr)
qed

theorem write_to_pooled_unreadable_witness:
  "from_bytes (\<lambda>bs. 7) (write_to_pooled (new_v1 (\<lambda>bs. 7) 42 None [3] 1000) @ []) = Inl (Invalid_magic 0x7ECA)"
  by (rule write_to_pooled_unreadable) code_simp

end
