(* ===== verification/Wal_Truncate.thy ===== *)
theory Wal_Truncate
  imports Wal_Record "HOL-Library.Multiset"
begin

text \<open>
  Suffix truncation of a partition's write-ahead log. The first part is the planner of
  \<open>chronik-wal/src/truncate.rs\<close>: how a record's extent is read from its framing and what a
  truncation does to one segment file. The second part is the file surgery
  \<open>truncate_partition_files\<close> of \<open>chronik-wal/src/group_commit.rs\<close> on a directory of
  segment files; a file is its contents, or \<open>None\<close> once it is unlinked. I/O errors other
  than a missing file are not modelled. The last part relates both to the records that
  survive.
\<close>

section \<open>Reading a record's extent\<close>

record record_span =
  total_size :: nat
  base_offset :: int
  last_offset :: int

definition RECORD_HEADER_LEN :: nat where "RECORD_HEADER_LEN = 12"

definition get_range :: "byte list \<Rightarrow> nat \<Rightarrow> nat \<Rightarrow> byte list option" where
  "get_range d p n = (if p + n \<le> length d then Some (take n (drop p d)) else None)"

definition le_u16 :: "byte list \<Rightarrow> nat \<Rightarrow> int option" where
  "le_u16 d p = map_option le_uint (get_range d p 2)"

definition le_u32 :: "byte list \<Rightarrow> nat \<Rightarrow> int option" where
  "le_u32 d p = map_option le_uint (get_range d p 4)"

definition le_i64 :: "byte list \<Rightarrow> nat \<Rightarrow> int option" where
  "le_i64 d p = map_option le_sint (get_range d p 8)"

definition checked_add_usize :: "nat \<Rightarrow> nat \<Rightarrow> nat option" where
  "checked_add_usize a b = (if int (a + b) < 2 ^ 64 then Some (a + b) else None)"

definition declared_record_size :: "byte list \<Rightarrow> nat option" where
  "declared_record_size header =
     (if length header < RECORD_HEADER_LEN then None
      else Option.bind (le_u16 header 0) (\<lambda>magic.
        if magic \<noteq> WAL_MAGIC \<or> uint (header ! 2) \<noteq> WAL_VERSION_V2 then None
        else Option.bind (le_u32 header 4) (\<lambda>len.
          if len = 0 then None else checked_add_usize RECORD_HEADER_LEN (nat len))))"

definition parse_record_span :: "byte list \<Rightarrow> record_span option" where
  "parse_record_span data =
     Option.bind (declared_record_size data) (\<lambda>total.
       if length data < total then None
       else Option.bind (le_u16 data 12) (\<lambda>topic_len.
         Option.bind (checked_add_usize 18 (nat topic_len)) (\<lambda>data_len_pos.
         Option.bind (le_u32 data data_len_pos) (\<lambda>canonical_len.
         Option.bind (checked_add_usize 22 (nat topic_len)) (\<lambda>t1.
         Option.bind (checked_add_usize t1 (nat canonical_len)) (\<lambda>trailer.
         Option.bind (checked_add_usize trailer 20) (\<lambda>end_pos.
           if end_pos \<noteq> total then None
           else Option.bind (le_i64 data trailer) (\<lambda>b.
             Option.bind (le_i64 data (trailer + 8)) (\<lambda>l.
             Some \<lparr>total_size = total, base_offset = b, last_offset = l\<rparr>)))))))))"

definition first_record_range :: "byte list \<Rightarrow> (int \<times> int) option" where
  "first_record_range data = map_option (\<lambda>s. (base_offset s, last_offset s)) (parse_record_span data)"

section \<open>Planning one segment\<close>

datatype segment_verdict =
    Empty
  | Keep_whole int
  | Delete_whole
  | Cut nat int

lemma declared_record_size_gt: "declared_record_size d = Some n \<Longrightarrow> 12 < n"
  by (auto simp: declared_record_size_def checked_add_usize_def RECORD_HEADER_LEN_def le_u32_def get_range_def
      bind_eq_Some_conv split: if_splits)
    (metis gr0I le_uint_nonneg less_le nat_eq_iff2 nat_0_iff)

lemma parse_record_span_size:
  "parse_record_span d = Some s \<Longrightarrow> 0 < total_size s \<and> total_size s \<le> length d"
  by (auto simp: parse_record_span_def bind_eq_Some_conv dest!: declared_record_size_gt split: if_splits)

function plan_loop :: "byte list \<Rightarrow> nat \<Rightarrow> int option \<Rightarrow> int \<Rightarrow> segment_verdict" where
  "plan_loop data cursor last_kept target =
     (case parse_record_span data of
        None \<Rightarrow> (case last_kept of None \<Rightarrow> Empty | Some l \<Rightarrow> Keep_whole l)
      | Some span \<Rightarrow>
          if target \<le> last_offset span
          then (case last_kept of None \<Rightarrow> Delete_whole | Some l \<Rightarrow> Cut cursor l)
          else plan_loop (drop (total_size span) data) (cursor + total_size span)
                 (Some (last_offset span)) target)"
  by pat_completeness auto
termination
  by (relation "measure (\<lambda>(data, _, _, _). length data)")
    (auto dest: parse_record_span_size)

declare plan_loop.simps [simp del]

definition plan_segment_truncation :: "byte list \<Rightarrow> int \<Rightarrow> segment_verdict" where
  "plan_segment_truncation data target = plan_loop data 0 None target"

section \<open>Truncating a directory of segments\<close>

type_synonym segment_file = "nat \<times> byte list option"

record truncate_outcome =
  new_log_end_offset :: "int option"
  segments_deleted :: nat
  bytes_discarded :: nat
  buffered_writes_dropped :: nat

definition untouched :: "int option \<Rightarrow> truncate_outcome" where
  "untouched e = \<lparr>new_log_end_offset = e, segments_deleted = 0, bytes_discarded = 0,
     buffered_writes_dropped = 0\<rparr>"

definition touched_disk :: "truncate_outcome \<Rightarrow> bool" where
  "touched_disk out \<longleftrightarrow> 0 < segments_deleted out \<or> 0 < bytes_discarded out"

definition first_record_offset :: "byte list option \<Rightarrow> int option" where
  "first_record_offset file = (case file of None \<Rightarrow> None | Some data \<Rightarrow>
     if length data < RECORD_HEADER_LEN then None
     else (case declared_record_size (take RECORD_HEADER_LEN data) of
         None \<Rightarrow> None
       | Some n \<Rightarrow>
           if length data < n then None
           else map_option fst (first_record_range (take n data))))"

definition last_record_offset :: "byte list option \<Rightarrow> int option" where
  "last_record_offset file = (case file of None \<Rightarrow> None | Some data \<Rightarrow>
     (case plan_segment_truncation data i64_max of Keep_whole l \<Rightarrow> Some l | _ \<Rightarrow> None))"

fun find_straddler :: "segment_file list \<Rightarrow> int \<Rightarrow> nat \<Rightarrow> nat option \<Rightarrow> nat option" where
  "find_straddler [] target index straddler = straddler"
| "find_straddler ((_, file) # segs) target index straddler =
     (case first_record_offset file of
        None \<Rightarrow> find_straddler segs target (Suc index) straddler
      | Some base \<Rightarrow>
          if base < target then find_straddler segs target (Suc index) (Some index)
          else straddler)"

definition file_size :: "byte list option \<Rightarrow> nat" where
  "file_size file = (case file of None \<Rightarrow> 0 | Some data \<Rightarrow> length data)"

definition cut_straddler ::
  "segment_file list \<Rightarrow> int \<Rightarrow> nat \<Rightarrow> segment_file list \<times> truncate_outcome \<times> int option" where
  "cut_straddler segs target index =
     (let (sid, file) = segs ! index;
          data = (case file of None \<Rightarrow> [] | Some d \<Rightarrow> d);
          out = untouched None
      in case plan_segment_truncation data target of
           Empty \<Rightarrow> (segs, out, None)
         | Keep_whole l \<Rightarrow> (segs, out, Some l)
         | Delete_whole \<Rightarrow>
             (segs[index := (sid, None)],
              out\<lparr>bytes_discarded := length data, segments_deleted := 1\<rparr>, None)
         | Cut keep_bytes l \<Rightarrow>
             (segs[index := (sid, Some (take keep_bytes data))],
              out\<lparr>bytes_discarded := length data - keep_bytes\<rparr>, Some l))"

fun delete_loop :: "segment_file list \<Rightarrow> nat \<Rightarrow> truncate_outcome \<Rightarrow>
    segment_file list \<times> nat list \<times> truncate_outcome" where
  "delete_loop [] index out = ([], [], out)"
| "delete_loop ((sid, file) # segs) index out =
     (if file_size file = 0 then
        let (segs', deleted, out') = delete_loop segs (Suc index) out
        in ((sid, file) # segs', deleted, out')
      else
        let (segs', deleted, out') = delete_loop segs (Suc index)
              (out\<lparr>bytes_discarded := bytes_discarded out + file_size file,
                   segments_deleted := segments_deleted out + 1\<rparr>)
        in ((sid, None) # segs', index # deleted, out'))"

fun scan_survivors :: "(nat \<times> segment_file) list \<Rightarrow> nat list \<Rightarrow> int option" where
  "scan_survivors [] deleted = None"
| "scan_survivors ((index, (_, file)) # segs) deleted =
     (if index \<in> set deleted then scan_survivors segs deleted
      else case last_record_offset file of
        Some l \<Rightarrow> Some l
      | None \<Rightarrow> scan_survivors segs deleted)"

definition truncate_partition_files ::
  "segment_file list option \<Rightarrow> int \<Rightarrow> segment_file list option \<times> truncate_outcome" where
  "truncate_partition_files dir target =
     (case dir of
        None \<Rightarrow> (None, untouched None)
      | Some files \<Rightarrow>
          let segments = sort_key fst files;
              straddler = find_straddler segments target 0 None;
              (segs1, out1, last_kept) =
                (case straddler of
                   None \<Rightarrow> (segments, untouched None, None)
                 | Some index \<Rightarrow> cut_straddler segments target index);
              delete_from = (case straddler of None \<Rightarrow> 0 | Some index \<Rightarrow> index + 1);
              (tail, deleted, out2) = delete_loop (drop delete_from segs1) delete_from out1;
              segs2 = take delete_from segs1 @ tail;
              last_kept' = (case last_kept of
                  Some l \<Rightarrow> Some l
                | None \<Rightarrow> scan_survivors (rev (enumerate 0 segs2)) deleted)
          in (Some (filter (\<lambda>f. snd f \<noteq> None) segs2),
              out2\<lparr>new_log_end_offset := map_option (\<lambda>l. l + 1) last_kept'\<rparr>))"

section \<open>The extent of a serialised record\<close>

definition v2_ok :: "wal_v2 \<Rightarrow> bool" where
  "v2_ok r \<longleftrightarrow> record_ok (V2 r) \<and> wal_length r = calculate_length (V2 r)
     \<and> int (length (to_bytes (V2 r))) < 2 ^ 32"

abbreviation v2_bytes :: "wal_v2 \<Rightarrow> byte list" where "v2_bytes r \<equiv> to_bytes (V2 r)"

lemma get_range_append:
  "length a = p \<Longrightarrow> length b = n \<Longrightarrow> get_range (a @ b @ c) p n = Some b"
  by (simp add: get_range_def)

lemma length_v2_bytes: "length (v2_bytes r) = 42 + length (wal_topic r) + length (wal_canonical_data r)"
  by (simp add: v2_body_bytes_def)

lemma v2_ok_len:
  assumes "v2_ok r"
  shows "wal_length r = 30 + int (length (wal_topic r)) + int (length (wal_canonical_data r))"
    "in_unsigned 32 (wal_length r)" 
    "uwrap 16 (int (length (wal_topic r))) = int (length (wal_topic r))"
    "uwrap 32 (int (length (wal_canonical_data r))) = int (length (wal_canonical_data r))"
    "in_unsigned 16 (int (length (wal_topic r)))"
    "in_unsigned 32 (int (length (wal_canonical_data r)))"
    "42 + int (length (wal_topic r)) + int (length (wal_canonical_data r)) < 2 ^ 32"
  using assms length_v2_bytes [of r]
  by (simp_all add: v2_ok_def vec_ok_def in_unsigned_def uwrap_def del: to_bytes.simps)


lemma declared_size_v2:
  assumes "v2_ok r" "12 \<le> n"
  shows "declared_record_size (take n (v2_bytes r @ rest)) = Some (length (v2_bytes r))"
proof -
  define x where "x = v2_body_bytes r @ rest"
  have bytes: "take n (v2_bytes r @ rest) = le_bytes 2 WAL_MAGIC
     @ le_bytes 1 WAL_VERSION_V2 @ le_bytes 1 (wal_flags r)
     @ le_bytes 4 (wal_length r) @ le_bytes 4 (wal_crc32 r) @ take (n - 12) x" (is "_ = ?d")
    using assms by (simp add: x_def v2_ok_def del: One_nat_def le_bytes.simps)
  have "le_u16 ?d 0 = Some WAL_MAGIC" "le_u32 ?d 4 = Some (wal_length r)"
    using v2_ok_len(2) [OF assms(1)]
    by (simp_all add: le_u16_def le_u32_def get_range_def codec_simps WAL_MAGIC_def 
       del: One_nat_def le_bytes.simps)
  moreover have "uint (?d ! 2) = WAL_VERSION_V2" by (simp add: nth_append WAL_VERSION_V2_def)
  moreover have "12 \<le> length ?d" "0 < wal_length r"
    using v2_ok_len(1) [OF assms(1)] by (simp_all del: One_nat_def)
  ultimately have "declared_record_size ?d = checked_add_usize 12 (nat (wal_length r))"
    unfolding declared_record_size_def RECORD_HEADER_LEN_def by simp
  then show ?thesis
    unfolding bytes length_v2_bytes using v2_ok_len(1,7) [OF assms(1)]
    by (simp add: checked_add_usize_def nat_add_distrib)
qed

lemma parse_record_span_v2:
  assumes "v2_ok r"
  shows "parse_record_span (v2_bytes r @ rest) = Some \<lparr>total_size = length (v2_bytes r),
    base_offset = wal_base_offset r, last_offset = wal_last_offset r\<rparr>"
proof -
  let ?t = "length (wal_topic r)" and ?n = "length (wal_canonical_data r)"
  let ?d = "v2_bytes r @ rest"
  note len = v2_ok_len [OF assms]
  define h where "h = le_bytes 2 (wal_magic r) @ le_bytes 1 (wal_version r) @ le_bytes 1 (wal_flags r)
     @ le_bytes 4 (wal_length r) @ le_bytes 4 (wal_crc32 r)"
  have [simp]: "length h = 12" by (simp add: h_def del: One_nat_def le_bytes.simps)
  have d: "?d = h @ le_bytes 2 (int ?t) @ as_bytes (wal_topic r)
     @ le_bytes 4 (wal_partition r) @ le_bytes 4 (int ?n) @ wal_canonical_data r
     @ le_bytes 8 (wal_base_offset r) @ le_bytes 8 (wal_last_offset r)
     @ le_bytes 4 (wal_record_count r) @ rest"
    by (simp add: h_def v2_body_bytes_def len del: One_nat_def le_bytes.simps)
  have "le_u16 ?d 12 = Some (int ?t)"
    unfolding d le_u16_def by (subst get_range_append) (simp_all add: codec_simps len)
  moreover have "le_u32 ?d (18 + ?t) = Some (int ?n)"
    unfolding d le_u32_def using len
    by (simp add: get_range_def codec_simps)
  moreover have "le_i64 ?d (22 + ?t + ?n) = Some (wal_base_offset r)"
    unfolding d le_i64_def using assms
    by (simp add: get_range_def codec_simps v2_ok_def)
  moreover have "le_i64 ?d (22 + ?t + ?n + 8) = Some (wal_last_offset r)"
    unfolding d le_i64_def using assms
    by (simp add: get_range_def codec_simps v2_ok_def)
  moreover have "declared_record_size ?d = Some (42 + ?t + ?n)"
    using declared_size_v2 [OF assms, of "length ?d" rest] length_v2_bytes [of r]
    by (simp del: to_bytes.simps)
  ultimately show ?thesis
    using len(7) length_v2_bytes [of r]
    by (simp add: parse_record_span_def checked_add_usize_def del: to_bytes.simps)
qed

section \<open>Segments of records\<close>

definition log_ok :: "wal_v2 list \<Rightarrow> bool" where
  "log_ok rs \<longleftrightarrow> (\<forall>r \<in> set rs. v2_ok r \<and> wal_base_offset r \<le> wal_last_offset r \<and> wal_last_offset r < i64_max)
     \<and> sorted_wrt (\<lambda>a b. wal_last_offset a < wal_base_offset b) rs"

definition seg_bytes :: "wal_v2 list \<Rightarrow> byte list" where
  "seg_bytes rs = concat (map v2_bytes rs)"

definition seg_file :: "nat \<times> wal_v2 list \<Rightarrow> segment_file" where
  "seg_file s = (fst s, Some (seg_bytes (snd s)))"

definition end_of :: "wal_v2 list \<Rightarrow> int option" where
  "end_of rs = (if rs = [] then None else Some (wal_last_offset (last rs)))"

definition below :: "int \<Rightarrow> wal_v2 list \<Rightarrow> wal_v2 list" where
  "below target rs = takeWhile (\<lambda>r. wal_last_offset r < target) rs"

lemma seg_bytes_simps [simp]:
  "seg_bytes [] = []" "seg_bytes (r # rs) = v2_bytes r @ seg_bytes rs"
  "seg_bytes (rs @ rs') = seg_bytes rs @ seg_bytes rs'"
  by (simp_all add: seg_bytes_def)

lemma seg_bytes_empty_iff [simp]: "seg_bytes rs = [] \<longleftrightarrow> rs = []"
  by (cases rs) auto

lemma parse_record_span_Nil [simp]: "parse_record_span [] = None"
  by (simp add: parse_record_span_def declared_record_size_def RECORD_HEADER_LEN_def)

lemma below_simps [simp]:
  "below target [] = []"
  "below target (r # rs) = (if wal_last_offset r < target then r # below target rs else [])"
  by (simp_all add: below_def)

lemma end_of_simps [simp]:
  "end_of [] = None" "end_of (r # rs) = (if rs = [] then Some (wal_last_offset r) else end_of rs)"
  by (simp_all add: end_of_def)

lemma end_of_None [simp]: "end_of rs = None \<longleftrightarrow> rs = []"
  by (simp add: end_of_def)

lemma plan_loop_seg:
  assumes "\<forall>r \<in> set rs. v2_ok r"
  shows "plan_loop (seg_bytes rs) cursor kept target =
    (let ks = below target rs; kept' = (if ks = [] then kept else end_of ks)
     in if ks = rs then (case kept' of None \<Rightarrow> Empty | Some l \<Rightarrow> Keep_whole l)
        else (case kept' of None \<Rightarrow> Delete_whole | Some l \<Rightarrow> Cut (cursor + length (seg_bytes ks)) l))"
  using assms
proof (induction rs arbitrary: cursor kept)
  case Nil
  show ?case by (subst plan_loop.simps) simp
next
  case (Cons r rs)
  show ?case
    using Cons
    by (subst plan_loop.simps)
      (auto simp: parse_record_span_v2 Let_def add.assoc simp del: to_bytes.simps split: option.split)
qed

lemma plan_segment_truncation_seg:
  assumes "\<forall>r \<in> set rs. v2_ok r"
  shows "plan_segment_truncation (seg_bytes rs) target =
    (let ks = below target rs
     in if rs = [] then Empty
        else if ks = rs then Keep_whole (wal_last_offset (last rs))
        else if ks = [] then Delete_whole
        else Cut (length (seg_bytes ks)) (wal_last_offset (last ks)))"
  using assms by (auto simp: plan_segment_truncation_def plan_loop_seg Let_def end_of_def)

lemma first_record_offset_seg:
  assumes "\<forall>r \<in> set rs. v2_ok r"
  shows "first_record_offset (Some (seg_bytes rs)) = (case rs of [] \<Rightarrow> None | r # _ \<Rightarrow> Some (wal_base_offset r))"
proof (cases rs)
  case Nil
  then show ?thesis by (simp add: first_record_offset_def RECORD_HEADER_LEN_def)
next
  case (Cons r rs')
  then have r: "v2_ok r" using assms by simp
  show ?thesis
    using declared_size_v2 [OF r, of 12 "seg_bytes rs'"] parse_record_span_v2 [OF r, of "[]"] length_v2_bytes [of r]
    by (simp add: Cons first_record_offset_def RECORD_HEADER_LEN_def first_record_range_def del: to_bytes.simps)
qed

lemma below_all: "(\<forall>r \<in> set rs. wal_last_offset r < target) \<Longrightarrow> below target rs = rs"
  by (simp add: below_def)

lemma last_record_offset_seg:
  assumes "log_ok rs"
  shows "last_record_offset (Some (seg_bytes rs)) = end_of rs"
  using assms below_all [of rs i64_max]
  by (auto simp: last_record_offset_def plan_segment_truncation_seg log_ok_def end_of_def Let_def)

section \<open>Directories of segments\<close>

abbreviation seg_log :: "(nat \<times> wal_v2 list) list \<Rightarrow> wal_v2 list" where
  "seg_log segs \<equiv> concat (map snd segs)"

lemma log_ok_append:
  "log_ok (rs @ rs') \<longleftrightarrow> log_ok rs \<and> log_ok rs'
     \<and> (\<forall>a \<in> set rs. \<forall>b \<in> set rs'. wal_last_offset a < wal_base_offset b)"
  by (auto simp: log_ok_def sorted_wrt_append)

lemma log_ok_v2: "log_ok rs \<Longrightarrow> \<forall>r \<in> set rs. v2_ok r"
  by (simp add: log_ok_def)

lemma log_ok_first_least:
  assumes "log_ok (r # rs)" "target \<le> wal_base_offset r" "x \<in> set (r # rs)"
  shows "target \<le> wal_base_offset x"
  using assms by (fastforce simp: log_ok_def)

definition straddles :: "int \<Rightarrow> (nat \<times> wal_v2 list) list \<Rightarrow> nat \<Rightarrow> bool" where
  "straddles target segs k \<longleftrightarrow> (\<exists>pre i r rs post. segs = pre @ (i, r # rs) # post \<and> k = length pre
     \<and> wal_base_offset r < target \<and> (\<forall>r \<in> set (seg_log post). target \<le> wal_base_offset r))"

lemma straddles_Cons: "straddles target segs k \<Longrightarrow> straddles target (s # segs) (Suc k)"
  unfolding straddles_def by (metis append_Cons length_Cons)

lemma find_straddler_segs:
  assumes "log_ok (seg_log segs)"
  shows "(find_straddler (map seg_file segs) target index acc = acc
      \<and> (\<forall>r \<in> set (seg_log segs). target \<le> wal_base_offset r))
    \<or> (\<exists>k. find_straddler (map seg_file segs) target index acc = Some (index + k) \<and> straddles target segs k)"
  using assms
proof (induction segs arbitrary: index acc)
  case Nil
  then show ?case by simp
next
  case (Cons s segs)
  obtain i rs where s: "s = (i, rs)" by force
  have ok: "log_ok rs" "log_ok (seg_log segs)"
    using Cons.prems by (simp_all add: s log_ok_append)
  have first: "find_straddler (map seg_file (s # segs)) target index acc = (case rs of
      [] \<Rightarrow> find_straddler (map seg_file segs) target (Suc index) acc
    | r # _ \<Rightarrow> if wal_base_offset r < target
        then find_straddler (map seg_file segs) target (Suc index) (Some index) else acc)"
    using first_record_offset_seg [OF log_ok_v2 [OF ok(1)]]
    by (simp add: s seg_file_def [of "(i, rs)"] split: list.split)
  consider "rs = []" | r rs' where "rs = r # rs'" "wal_base_offset r < target"
    | r rs' where "rs = r # rs'" "target \<le> wal_base_offset r"
    by (cases rs) (auto simp: not_less [symmetric])
  then show ?case
  proof cases
    case 1
    with first Cons.IH [OF ok(2), of "Suc index" acc] show ?thesis
      by (auto simp: s dest: straddles_Cons [of _ _ _ s])
  next
    case 2
    have "straddles target (s # segs) 0" if "\<forall>r \<in> set (seg_log segs). target \<le> wal_base_offset r"
      using that 2 unfolding straddles_def s by (intro exI [of _ "[]"]) auto
    with 2 first Cons.IH [OF ok(2), of "Suc index" "Some index"] show ?thesis
      by (force dest: straddles_Cons [of _ _ _ s])
  next
    case 3
    then have "\<forall>r \<in> set (seg_log (s # segs)). target \<le> wal_base_offset r"
      using log_ok_first_least [of r "rs' @ seg_log segs" target] Cons.prems by (auto simp: s)
    with 3 first show ?thesis by auto
  qed
qed

lemma delete_loop_files:
  "fst (delete_loop segs index out) = map (\<lambda>(i, f). (i, if file_size f = 0 then f else None)) segs"
  "\<forall>j \<in> set (fst (snd (delete_loop segs index out))). index \<le> j"
  "bytes_discarded (snd (snd (delete_loop segs index out)))
     = bytes_discarded out + sum_list (map (file_size \<circ> snd) segs)"
  by (induction segs index out rule: delete_loop.induct)
    (auto simp: case_prod_unfold Let_def dest: Suc_leD)

lemma scan_survivors_append:
  "scan_survivors (xs @ ys) D = (case scan_survivors xs D of Some l \<Rightarrow> Some l | None \<Rightarrow> scan_survivors ys D)"
  by (induction xs D rule: scan_survivors.induct) (auto split: option.split)

lemma scan_survivors_None:
  "(\<forall>f \<in> set files. last_record_offset (snd f) = None) \<Longrightarrow> scan_survivors (rev (enumerate k files)) D = None"
  by (induction files rule: rev_induct) (auto simp: enumerate_append_eq)

lemma end_of_append: "end_of (rs @ rs') = (if rs' = [] then end_of rs else end_of rs')"
  by (simp add: end_of_def)

lemma scan_survivors_segs:
  assumes "log_ok (seg_log segs)" "\<forall>j \<in> set D. length segs \<le> j"
  shows "scan_survivors (rev (enumerate 0 (map seg_file segs))) D = end_of (seg_log segs)"
  using assms
proof (induction segs rule: rev_induct)
  case Nil
  then show ?case by simp
next
  case (snoc s segs)
  have "last_record_offset (Some (seg_bytes (snd s))) = end_of (snd s)"
    using snoc.prems by (intro last_record_offset_seg) (simp add: log_ok_append)
  moreover have "length segs \<notin> set D" using snoc.prems(2) by force
  moreover have "scan_survivors (rev (enumerate 0 (map seg_file segs))) D = end_of (seg_log segs)"
    using snoc.prems by (intro snoc.IH) (auto simp: log_ok_append dest: Suc_leD)
  ultimately show ?case
    by (simp add: enumerate_append_eq seg_file_def [of s] end_of_append split: option.split)
qed

lemma below_append_all: "(\<forall>r \<in> set rs. wal_last_offset r < target) \<Longrightarrow> below target (rs @ rs') = rs @ below target rs'"
  by (simp add: below_def)

lemma below_append_none: "below target rs' = [] \<Longrightarrow> below target (rs @ rs') = below target rs"
  by (induction rs) auto

lemma below_none: "log_ok rs \<Longrightarrow> (\<forall>r \<in> set rs. target \<le> wal_base_offset r) \<Longrightarrow> below target rs = []"
  by (cases rs) (force simp: log_ok_def)+

lemma below_prefix: "seg_bytes rs = seg_bytes (below target rs) @ seg_bytes (dropWhile (\<lambda>r. wal_last_offset r < target) rs)"
  by (metis below_def seg_bytes_simps(3) takeWhile_dropWhile_id)

definition seg_size :: "(nat \<times> wal_v2 list) list \<Rightarrow> nat" where
  "seg_size segs = length (seg_bytes (seg_log segs))"

lemma file_sizes_segs: "sum_list (map (file_size \<circ> snd) (map seg_file segs)) = seg_size segs"
  by (induction segs) (simp_all add: seg_size_def seg_file_def file_size_def)

lemma purge_segs:
  "filter (\<lambda>f. snd f \<noteq> None) (map (\<lambda>(i, f). (i, if file_size f = 0 then f else None)) (map seg_file segs))
     = map seg_file (filter (\<lambda>s. snd s = []) segs)"
  by (induction segs) (auto simp: seg_file_def file_size_def)

lemma seg_log_empties: "seg_log (filter (\<lambda>s. snd s = []) segs) = []"
  by (induction segs) auto

lemma last_record_offset_empty [simp]:
  "last_record_offset None = None" "last_record_offset (Some []) = None"
  using last_record_offset_seg [of "[]"] by (simp_all add: last_record_offset_def log_ok_def)

lemma last_record_offset_purged:
  "x \<in> set (map (\<lambda>(i, f). (i, if file_size f = 0 then f else None)) segs) \<Longrightarrow> last_record_offset (snd x) = None"
  by (auto simp: file_size_def split: option.splits)

lemma filter_seg_file [simp]: "filter (\<lambda>f. snd f \<noteq> None) (map seg_file segs) = map seg_file segs"
  by (induction segs) (simp_all add: seg_file_def)

lemma cut_straddler_segs:
  assumes "\<forall>r \<in> set rs. v2_ok r" "rs \<noteq> []"
  shows "\<exists>out. cut_straddler (map seg_file (pre @ (i, rs) # post)) target (length pre)
    = (map seg_file pre @ (i, if below target rs = [] then None else Some (seg_bytes (below target rs)))
         # map seg_file post, out, end_of (below target rs))
    \<and> bytes_discarded out + length (seg_bytes (below target rs)) = length (seg_bytes rs)"
proof -
  have "take (length (seg_bytes (below target rs))) (seg_bytes rs) = seg_bytes (below target rs)"
    "length (seg_bytes (below target rs)) \<le> length (seg_bytes rs)"
    using below_prefix [of rs target] by (metis append_eq_conv_conj, metis le_add1 length_append)
  then show ?thesis
    using assms
    by (auto simp: cut_straddler_def seg_file_def [of "(i, rs)"] nth_append plan_segment_truncation_seg
        Let_def end_of_def untouched_def list_update_append)
qed

lemma truncate_no_straddler:
  assumes "sort_key fst files = map seg_file segs"
    and "find_straddler (map seg_file segs) target 0 None = None"
  shows "\<exists>out. truncate_partition_files (Some files) target
      = (Some (map seg_file (filter (\<lambda>s. snd s = []) segs)), out)
    \<and> new_log_end_offset out = None \<and> bytes_discarded out = seg_size segs"
proof -
  obtain segs' D out where d: "delete_loop (map seg_file segs) 0 (untouched None) = (segs', D, out)"
    using prod_cases3 by blast
  then have segs': "segs' = map (\<lambda>(i, f). (i, if file_size f = 0 then f else None)) (map seg_file segs)"
    "bytes_discarded out = seg_size segs"
    using delete_loop_files [of "map seg_file segs" 0 "untouched None"] file_sizes_segs [of segs]
    by (simp_all only: d fst_conv snd_conv untouched_def truncate_outcome.select_convs) 
  moreover have "scan_survivors (rev (enumerate 0 segs')) D = None"
    using last_record_offset_purged unfolding segs' by (intro scan_survivors_None) blast
  moreover have "filter (\<lambda>f. snd f \<noteq> None) segs' = map seg_file (filter (\<lambda>s. snd s = []) segs)"
    unfolding segs' by (rule purge_segs)
  ultimately show ?thesis
    by (simp add: truncate_partition_files_def assms Let_def d)
qed

lemma truncate_straddler:
  assumes "sort_key fst files = map seg_file segs" and ok: "log_ok (seg_log segs)"
    and segs: "segs = pre @ (i, rs) # post" "rs \<noteq> []"
    and "find_straddler (map seg_file segs) target 0 None = Some (length pre)"
  shows "\<exists>out. truncate_partition_files (Some files) target
      = (Some (map seg_file (pre @ (if below target rs = [] then [] else [(i, below target rs)])
          @ filter (\<lambda>s. snd s = []) post)), out)
    \<and> new_log_end_offset out = map_option (\<lambda>l. l + 1) (end_of (seg_log pre @ below target rs))
    \<and> bytes_discarded out + length (seg_bytes (below target rs)) = length (seg_bytes rs) + seg_size post"
proof -
  let ?ks = "below target rs"
  have oks: "log_ok (seg_log pre)" "\<forall>r \<in> set rs. v2_ok r"
    using ok log_ok_v2 [of rs] by (simp_all add: segs log_ok_append)
  define mid where "mid = (i, if ?ks = [] then None else Some (seg_bytes ?ks))"
  obtain out1 where c: "cut_straddler (map seg_file segs) target (length pre)
      = (map seg_file pre @ mid # map seg_file post, out1, end_of ?ks)"
    "bytes_discarded out1 + length (seg_bytes ?ks) = length (seg_bytes rs)"
    using cut_straddler_segs [OF oks(2) segs(2)] unfolding segs(1) mid_def by blast
  obtain tl D out where d: "delete_loop (map seg_file post) (Suc (length pre)) out1 = (tl, D, out)"
    using prod_cases3 by blast
  have tl: "tl = map (\<lambda>(i, f). (i, if file_size f = 0 then f else None)) (map seg_file post)"
    "\<forall>j \<in> set D. Suc (length pre) \<le> j" "bytes_discarded out = bytes_discarded out1 + seg_size post"
    using delete_loop_files [of "map seg_file post" "Suc (length pre)" out1] file_sizes_segs [of post]
    by (simp_all only: d fst_conv snd_conv)
  have "scan_survivors (rev (enumerate 0 (map seg_file pre @ mid # tl))) D = end_of (seg_log pre)"
    if "?ks = []"
  proof -
    have "scan_survivors (rev (enumerate (length pre) (mid # tl))) D = None"
      using last_record_offset_purged [of _ "map seg_file post"] that
      unfolding tl(1) mid_def by (intro scan_survivors_None) (simp del: map_map set_map)
    moreover have "scan_survivors (rev (enumerate 0 (map seg_file pre))) D = end_of (seg_log pre)"
      using oks(1) tl(2) by (intro scan_survivors_segs) auto
    ultimately show ?thesis
      by (simp only: enumerate_append_eq rev_append scan_survivors_append length_map add_0 option.case)
  qed
  moreover have "filter (\<lambda>f. snd f \<noteq> None) (map seg_file pre @ mid # tl)
      = map seg_file (pre @ (if ?ks = [] then [] else [(i, ?ks)]) @ filter (\<lambda>s. snd s = []) post)"
    unfolding tl(1) filter_append filter_seg_file filter.simps purge_segs mid_def by (simp add: seg_file_def)
  moreover have "truncate_partition_files (Some files) target
    = (Some (filter (\<lambda>f. snd f \<noteq> None) (map seg_file pre @ mid # tl)),
       out\<lparr>new_log_end_offset := map_option (\<lambda>l. l + 1) (case end_of ?ks of
          Some l \<Rightarrow> Some l
        | None \<Rightarrow> scan_survivors (rev (enumerate 0 (map seg_file pre @ mid # tl))) D)\<rparr>)"
    by (cases "end_of ?ks") (simp_all add: truncate_partition_files_def Let_def assms(1,5) c d)
  moreover have "bytes_discarded out + length (seg_bytes ?ks) = length (seg_bytes rs) + seg_size post"
    using c(2) tl(3) by simp
  ultimately show ?thesis
    by (cases "?ks = []") (simp_all add: end_of_def)
qed

section \<open>Properties\<close>

lemma truncate_sorted:
  assumes files: "sort_key fst files = map seg_file segs" and ok: "log_ok (seg_log segs)"
  shows "\<exists>segs' out. truncate_partition_files (Some files) target = (Some (map seg_file segs'), out)
    \<and> seg_log segs' = below target (seg_log segs)
    \<and> new_log_end_offset out = map_option (\<lambda>l. l + 1) (end_of (below target (seg_log segs)))
    \<and> bytes_discarded out + seg_size segs' = seg_size segs"
  using find_straddler_segs [OF ok, of target 0 None]
proof (elim disjE exE conjE)
  assume "find_straddler (map seg_file segs) target 0 None = None"
    "\<forall>r \<in> set (seg_log segs). target \<le> wal_base_offset r"
  then have "below target (seg_log segs) = []" by (intro below_none [OF ok])
  moreover obtain out where "truncate_partition_files (Some files) target
      = (Some (map seg_file (filter (\<lambda>s. snd s = []) segs)), out)"
    "new_log_end_offset out = None" "bytes_discarded out = seg_size segs"
    using truncate_no_straddler [OF files] \<open>find_straddler _ _ _ _ = _\<close> by blast
  ultimately show ?thesis
    by (intro exI [of _ "filter (\<lambda>s. snd s = []) segs"] exI [of _ out])
      (simp add: seg_size_def seg_log_empties)
next
  fix k
  assume k: "find_straddler (map seg_file segs) target 0 None = Some (0 + k)" "straddles target segs k"
  then obtain pre i r rs post where segs: "segs = pre @ (i, r # rs) # post" "k = length pre"
    "wal_base_offset r < target" "\<forall>r \<in> set (seg_log post). target \<le> wal_base_offset r"
    unfolding straddles_def by blast
  let ?ks = "below target (r # rs)"
  have oks: "log_ok (seg_log post)" "\<forall>a \<in> set (seg_log pre). wal_last_offset a < wal_base_offset r"
    using ok log_ok_append [of "[r]" "rs @ seg_log post"] by (auto simp: segs log_ok_append)
  have "below target (seg_log segs) = seg_log pre @ below target ((r # rs) @ seg_log post)"
    unfolding segs(1) using below_append_all [of "seg_log pre" target] oks(2) segs(3)
    by (fastforce dest: less_trans)
  also have "\<dots> = seg_log pre @ ?ks"
    using below_none [OF oks(1) segs(4)] by (simp only: below_append_none)
  finally have below: "below target (seg_log segs) = seg_log pre @ ?ks" .
  define segs' where "segs' = pre @ (if ?ks = [] then [] else [(i, ?ks)]) @ filter (\<lambda>s. snd s = []) post"
  have log: "seg_log segs' = seg_log pre @ ?ks"
    by (auto simp: segs'_def seg_log_empties simp del: below_simps)
  obtain out where "truncate_partition_files (Some files) target = (Some (map seg_file segs'), out)"
    "new_log_end_offset out = map_option (\<lambda>l. l + 1) (end_of (seg_log pre @ ?ks))"
    "bytes_discarded out + length (seg_bytes ?ks) = length (seg_bytes (r # rs)) + seg_size post"
    using truncate_straddler [OF files ok segs(1), of target] k(1) segs(2) unfolding segs'_def by auto
  moreover have "seg_size segs' = length (seg_bytes (seg_log pre)) + length (seg_bytes ?ks)"
    unfolding seg_size_def log by simp
  ultimately show ?thesis
    unfolding below by (intro exI [of _ segs'] exI [of _ out]) (simp add: log segs(1) seg_size_def del: below_simps)
qed


definition sample_batch :: "int \<Rightarrow> int \<Rightarrow> wal_v2" where
  "sample_batch b l = \<lparr>wal_magic = WAL_MAGIC, wal_version = WAL_VERSION_V2, wal_flags = 0, wal_length = 33,
     wal_crc32 = 0, wal_topic = ''t'', wal_partition = 0, wal_canonical_data = [1, 2],
     wal_base_offset = b, wal_last_offset = l, wal_record_count = l - b + 1\<rparr>"

lemma sample_log_ok: "log_ok [sample_batch 0 4, sample_batch 5 9, sample_batch 10 11]"
proof -
  have "v2_ok (sample_batch 0 4)" "v2_ok (sample_batch 5 9)" "v2_ok (sample_batch 10 11)"
    by code_simp+
  then show ?thesis by (simp add: log_ok_def) (simp add: sample_batch_def)
qed


end
