(* ===== verification/Tail_Cache.thy ===== *)
theory Tail_Cache
  imports Wal_Record
begin

text \<open>
  The in-memory tail of a partition's log (\<open>TailCache\<close> of
  \<open>chronik-wal/src/group_commit.rs\<close>): records in offset order under a byte budget, with the
  offset from which they run gap-free to the end. Appends may arrive out of offset order.
  Offsets are below \<open>i64::MAX\<close>, so one past a last offset does not wrap.
\<close>

section \<open>Operations\<close>

record tail_cache =
  tc_records :: "wal_record list"
  tc_bytes :: nat
  tc_max_bytes :: nat
  contiguous_from :: "int option"

definition tail_new :: "nat \<Rightarrow> tail_cache" where
  "tail_new max_bytes = \<lparr>tc_records = [], tc_bytes = 0, tc_max_bytes = max_bytes, contiguous_from = None\<rparr>"

fun recompute_loop :: "wal_record list \<Rightarrow> int option \<Rightarrow> int option \<Rightarrow> int option" where
  "recompute_loop [] expected start = start"
| "recompute_loop (r # rs) expected start =
     (case expected of
        Some e \<Rightarrow> if get_last_offset r + 1 \<noteq> e then start
                  else recompute_loop rs (Some (get_base_offset r)) (Some (get_base_offset r))
      | None \<Rightarrow> recompute_loop rs (Some (get_base_offset r)) (Some (get_base_offset r)))"

definition recompute_contiguous_from :: "tail_cache \<Rightarrow> tail_cache" where
  "recompute_contiguous_from c = c\<lparr>contiguous_from := recompute_loop (rev (tc_records c)) None None\<rparr>"

fun evict_loop :: "nat \<Rightarrow> nat \<Rightarrow> wal_record list \<Rightarrow> int option \<Rightarrow> nat \<times> wal_record list \<times> int option" where
  "evict_loop max_bytes bytes (r # r' # rs) c =
     (if max_bytes < bytes
      then evict_loop max_bytes (bytes - heap_size r) (r' # rs)
             (Some (case c of Some c \<Rightarrow> max c (get_base_offset r') | None \<Rightarrow> get_base_offset r'))
      else (bytes, r # r' # rs, c))"
| "evict_loop max_bytes bytes rs c = (bytes, rs, c)"

definition evict :: "tail_cache \<Rightarrow> tail_cache" where
  "evict c =
     (let (bytes, rs, from) = evict_loop (tc_max_bytes c) (tc_bytes c) (tc_records c) (contiguous_from c)
      in c\<lparr>tc_records := rs, tc_bytes := bytes, contiguous_from := from\<rparr>)"

definition partition_point :: "('a \<Rightarrow> bool) \<Rightarrow> 'a list \<Rightarrow> nat" where
  "partition_point P xs = length (takeWhile P xs)"

definition tail_push :: "wal_record \<Rightarrow> nat \<Rightarrow> tail_cache \<Rightarrow> tail_cache" where
  "tail_push r sz c =
     (if tc_max_bytes c = 0 then c
      else
        let base = get_base_offset r; rs = tc_records c
        in if rs = [] \<or> get_last_offset (last rs) + 1 = base
           then evict (c\<lparr>tc_records := rs @ [r], tc_bytes := tc_bytes c + sz,
                         contiguous_from := (if rs = [] then Some base else contiguous_from c)\<rparr>)
           else
             let pos = partition_point (\<lambda>x. get_base_offset x < base) rs
             in if pos < length rs \<and> get_base_offset (rs ! pos) = base then c
                else evict (recompute_contiguous_from
                  (c\<lparr>tc_records := take pos rs @ r # drop pos rs, tc_bytes := tc_bytes c + sz\<rparr>)))"

definition tail_clear :: "tail_cache \<Rightarrow> tail_cache" where
  "tail_clear c = c\<lparr>tc_records := [], tc_bytes := 0, contiguous_from := None\<rparr>"

fun read_loop :: "wal_record list \<Rightarrow> int \<Rightarrow> nat \<Rightarrow> int \<Rightarrow> nat \<Rightarrow> wal_record list" where
  "read_loop [] off max_records durable messages = []"
| "read_loop (r # rs) off max_records durable messages =
     (if get_last_offset r < off then read_loop rs off max_records durable messages
      else if durable < get_last_offset r then []
      else if max_records \<le> messages then []
      else r # read_loop rs off max_records durable (messages + nat (max (get_record_count r) 1)))"

definition tail_read_from :: "tail_cache \<Rightarrow> int \<Rightarrow> nat \<Rightarrow> int \<Rightarrow> wal_record list option" where
  "tail_read_from c off max_records durable =
     (case contiguous_from c of
        None \<Rightarrow> None
      | Some from \<Rightarrow>
          if off < from then None
          else let out = read_loop (tc_records c) off max_records durable 0
               in if out = [] then None else Some out)"

section \<open>Gap-free runs\<close>

definition follows :: "wal_record \<Rightarrow> wal_record \<Rightarrow> bool" where
  "follows a b \<longleftrightarrow> get_last_offset a + 1 = get_base_offset b"

abbreviation gap_free :: "wal_record list \<Rightarrow> bool" where
  "gap_free \<equiv> successively follows"

definition offset_ordered :: "wal_record list \<Rightarrow> bool" where
  "offset_ordered rs \<longleftrightarrow> sorted_wrt (\<lambda>a b. get_last_offset a < get_base_offset b) rs
     \<and> (\<forall>r \<in> set rs. get_base_offset r \<le> get_last_offset r)"

fun run_start :: "wal_record list \<Rightarrow> int option" where
  "run_start [] = None"
| "run_start (r # rs) = (if gap_free (r # rs) then Some (get_base_offset r) else run_start rs)"

lemma gap_free_append:
  "suf \<noteq> [] \<Longrightarrow> gap_free (rs @ suf) \<longleftrightarrow> gap_free rs \<and> gap_free suf \<and> (rs = [] \<or> follows (last rs) (hd suf))"
  by (auto simp: successively_append_iff)

lemma run_start_gap_free: "rs \<noteq> [] \<Longrightarrow> gap_free rs \<Longrightarrow> run_start rs = Some (get_base_offset (hd rs))"
  by (cases rs) auto

lemma run_start_break:
  assumes "suf \<noteq> []" "gap_free suf" "\<not> follows x (hd suf)"
  shows "run_start (rs @ x # suf) = Some (get_base_offset (hd suf))"
proof (induction rs)
  case Nil
  then show ?case
    using assms by (cases suf) (simp_all add: run_start_gap_free)
next
  case (Cons r rs)
  have "\<not> gap_free ((r # rs @ [x]) @ suf)"
    using assms by (subst gap_free_append) auto
  then show ?case using Cons by simp
qed

lemma recompute_loop_run:
  "suf \<noteq> [] \<Longrightarrow> gap_free suf \<Longrightarrow>
    recompute_loop (rev rs) (Some (get_base_offset (hd suf))) (Some (get_base_offset (hd suf)))
      = run_start (rs @ suf)"
proof (induction rs arbitrary: suf rule: rev_induct)
  case Nil
  then show ?case by (simp add: run_start_gap_free)
next
  case (snoc x rs)
  show ?case
  proof (cases "follows x (hd suf)")
    case True
    then have "gap_free (x # suf)" using snoc.prems by (cases suf) auto
    with snoc.IH [of "x # suf"] True show ?thesis by (simp add: follows_def)
  next
    case False
    then show ?thesis
      using snoc.prems by (simp add: run_start_break) (simp add: follows_def)
  qed
qed

lemma recompute_run_start: "recompute_loop (rev rs) None None = run_start rs"
proof (cases rs rule: rev_cases)
  case (snoc ys y)
  then show ?thesis using recompute_loop_run [of "[y]" ys] by simp
qed simp

section \<open>The invariant\<close>

definition tail_inv :: "tail_cache \<Rightarrow> bool" where
  "tail_inv c \<longleftrightarrow> offset_ordered (tc_records c) \<and> contiguous_from c = run_start (tc_records c)
     \<and> tc_bytes c = sum_list (map heap_size (tc_records c))
     \<and> (length (tc_records c) \<le> 1 \<or> tc_bytes c \<le> tc_max_bytes c)"

definition disjoint_from :: "wal_record \<Rightarrow> wal_record list \<Rightarrow> bool" where
  "disjoint_from r rs \<longleftrightarrow> get_base_offset r \<le> get_last_offset r \<and>
     (\<forall>x \<in> set rs. get_base_offset x = get_base_offset r
        \<or> get_last_offset x < get_base_offset r \<or> get_last_offset r < get_base_offset x)"

lemma offset_ordered_Cons:
  "offset_ordered (r # rs) \<longleftrightarrow> get_base_offset r \<le> get_last_offset r
     \<and> (\<forall>x \<in> set rs. get_last_offset r < get_base_offset x) \<and> offset_ordered rs"
  by (auto simp: offset_ordered_def)

lemma offset_ordered_Nil [simp]: "offset_ordered []"
  by (simp add: offset_ordered_def)

lemma offset_ordered_append:
  "offset_ordered (rs @ rs') \<longleftrightarrow> offset_ordered rs \<and> offset_ordered rs'
     \<and> (\<forall>a \<in> set rs. \<forall>b \<in> set rs'. get_last_offset a < get_base_offset b)"
  by (auto simp: offset_ordered_def sorted_wrt_append)

lemma run_start_mem: "run_start rs = Some c \<Longrightarrow> \<exists>x \<in> set rs. get_base_offset x = c"
  by (induction rs) (auto split: if_splits)

lemma run_start_None [simp]: "run_start rs = None \<longleftrightarrow> rs = []"
proof (induction rs)
  case (Cons r rs)
  then show ?case by (cases rs) auto
qed simp

lemma run_start_tail:
  assumes "offset_ordered (r # r' # rs)" "run_start (r # r' # rs) = Some c"
  shows "run_start (r' # rs) = Some (max c (get_base_offset r'))"
proof (cases "gap_free (r # r' # rs)")
  case True
  with assms show ?thesis by (force simp: offset_ordered_Cons)
next
  case False
  with assms(2) have c: "run_start (r' # rs) = Some c"
    by (simp only: run_start.simps(2) [of r "r' # rs"] if_False)
  then obtain x where "x \<in> set (r' # rs)" "get_base_offset x = c" using run_start_mem by blast
  then have "get_base_offset r' \<le> c"
    using assms(1) by (force simp: offset_ordered_Cons)
  with c show ?thesis by simp
qed

lemma evict_loop_inv:
  assumes "offset_ordered rs" "c = run_start rs" "b = sum_list (map heap_size rs)"
    and "evict_loop m b rs c = (b', rs', c')"
  shows "offset_ordered rs' \<and> c' = run_start rs' \<and> b' = sum_list (map heap_size rs')
    \<and> (length rs' \<le> 1 \<or> b' \<le> m)"
  using assms
proof (induction m b rs c rule: evict_loop.induct)
  case (1 m b r r' rs c)
  obtain c0 where c0: "run_start (r # r' # rs) = Some c0"
    by (metis list.distinct(1) not_Some_eq run_start_None)
  show ?case
  proof (cases "m < b")
    case True
    have "Some (case c of Some c \<Rightarrow> max c (get_base_offset r') | None \<Rightarrow> get_base_offset r') = run_start (r' # rs)"
      using run_start_tail [OF "1.prems"(1) c0] "1.prems"(2) c0 by (simp del: run_start.simps)
    with "1.prems" True show ?thesis
      by (intro "1.IH") (simp_all add: offset_ordered_Cons del: run_start.simps)
  next
    case False
    with 1 show ?thesis by auto
  qed
qed auto

lemma evict_inv:
  assumes "offset_ordered (tc_records c)" "contiguous_from c = run_start (tc_records c)"
    and "tc_bytes c = sum_list (map heap_size (tc_records c))"
  shows "tail_inv (evict c)"
  using evict_loop_inv [OF assms] unfolding tail_inv_def evict_def
  by (auto split: prod.split)

lemma run_start_snoc:
  assumes "rs \<noteq> []" "follows (last rs) r"
  shows "run_start (rs @ [r]) = run_start rs"
  using assms
proof (induction rs)
  case (Cons x xs)
  have "gap_free ((x # xs) @ [r]) \<longleftrightarrow> gap_free (x # xs)"
    using Cons.prems(2) by (subst gap_free_append) auto
  moreover have "run_start (xs @ [r]) = run_start xs" if "xs \<noteq> []"
    using that Cons by simp
  ultimately show ?case using Cons.prems(2) by (cases "xs = []") simp_all
qed simp

lemma recompute_fields [simp]:
  "tc_records (recompute_contiguous_from c) = tc_records c"
  "tc_bytes (recompute_contiguous_from c) = tc_bytes c"
  "contiguous_from (recompute_contiguous_from c) = run_start (tc_records c)"
  by (simp_all add: recompute_contiguous_from_def recompute_run_start)

lemma insert_ordered:
  assumes "offset_ordered rs" "disjoint_from r rs"
    and pos: "pos = partition_point (\<lambda>x. get_base_offset x < get_base_offset r) rs"
    and new: "\<not> (pos < length rs \<and> get_base_offset (rs ! pos) = get_base_offset r)"
  shows "offset_ordered (take pos rs @ r # drop pos rs)"
proof -
  let ?P = "\<lambda>x. get_base_offset x < get_base_offset r"
  have parts: "take pos rs = takeWhile ?P rs" "drop pos rs = dropWhile ?P rs"
    unfolding pos partition_point_def by (simp_all only: takeWhile_eq_take [symmetric] dropWhile_eq_drop [symmetric])
  have ord: "offset_ordered (take pos rs)" "offset_ordered (drop pos rs)"
    "\<forall>a \<in> set (take pos rs). \<forall>b \<in> set (drop pos rs). get_last_offset a < get_base_offset b"
    using assms(1) offset_ordered_append [of "take pos rs" "drop pos rs"] by simp_all
  have lo: "get_last_offset x < get_base_offset r" if "x \<in> set (take pos rs)" for x
  proof -
    have "?P x" "x \<in> set rs" using that unfolding parts by (auto dest: set_takeWhileD)
    then show ?thesis using assms(1,2) by (fastforce simp: disjoint_from_def offset_ordered_def)
  qed
  have "get_last_offset r < get_base_offset x" if x: "x \<in> set (drop pos rs)" for x
  proof -
    obtain y ys where y: "drop pos rs = y # ys" using x by (cases "drop pos rs") auto
    then have "\<not> ?P y" using hd_dropWhile [of ?P rs] unfolding parts by (metis list.distinct(1) list.sel(1))
    moreover have "get_base_offset y \<noteq> get_base_offset r"
      using new y by (metis drop_eq_Nil hd_drop_conv_nth leI list.distinct(1) list.sel(1))
    moreover have "y \<in> set rs" using y by (metis in_set_dropD list.set_intros(1))
    ultimately have "get_last_offset r < get_base_offset y"
      using assms(1,2) by (fastforce simp: disjoint_from_def offset_ordered_def)
    moreover have "get_base_offset y \<le> get_base_offset x"
      using ord(2) x unfolding y by (force simp: offset_ordered_Cons)
    ultimately show ?thesis by simp
  qed
  with lo ord assms(2) show ?thesis
    by (auto simp: offset_ordered_append offset_ordered_Cons disjoint_from_def)
qed

lemma tail_inv_push:
  assumes "tail_inv c" "disjoint_from r (tc_records c)"
  shows "tail_inv (tail_push r (heap_size r) c)"
proof -
  let ?rs = "tc_records c" and ?pos = "partition_point (\<lambda>x. get_base_offset x < get_base_offset r) (tc_records c)"
  consider "tc_max_bytes c = 0" | "?rs = [] \<or> follows (last ?rs) r" "tc_max_bytes c \<noteq> 0"
    | "?rs \<noteq> []" "\<not> follows (last ?rs) r" "tc_max_bytes c \<noteq> 0"
    by blast
  then show ?thesis
  proof cases
    case 1
    with assms show ?thesis by (simp add: tail_push_def)
  next
    case 2
    have "get_last_offset x < get_base_offset r" if "x \<in> set ?rs" for x
      using assms(1) that 2(1)
      by (cases ?rs rule: rev_cases)
        (auto simp: tail_inv_def offset_ordered_append offset_ordered_Cons follows_def)
    then have "offset_ordered (?rs @ [r])"
      using assms by (simp add: tail_inv_def offset_ordered_append offset_ordered_Cons disjoint_from_def)
    moreover have "(if ?rs = [] then Some (get_base_offset r) else contiguous_from c) = run_start (?rs @ [r])"
      using 2 assms(1) by (auto simp: tail_inv_def run_start_snoc)
    ultimately have "tail_inv (evict (c\<lparr>tc_records := ?rs @ [r], tc_bytes := tc_bytes c + heap_size r,
        contiguous_from := (if ?rs = [] then Some (get_base_offset r) else contiguous_from c)\<rparr>))"
      using assms(1) by (intro evict_inv) (simp_all add: tail_inv_def)
    with 2 show ?thesis by (auto simp: tail_push_def Let_def follows_def)
  next
    case 3
    show ?thesis
    proof (cases "?pos < length ?rs \<and> get_base_offset (?rs ! ?pos) = get_base_offset r")
      case True
      with 3 assms(1) show ?thesis by (simp add: tail_push_def Let_def follows_def)
    next
      case False
      have "sum_list (map heap_size (take ?pos ?rs @ r # drop ?pos ?rs))
          = sum_list (map heap_size (take ?pos ?rs @ drop ?pos ?rs)) + heap_size r"
        by (simp del: append_take_drop_id)
      then have "tail_inv (evict (recompute_contiguous_from
          (c\<lparr>tc_records := take ?pos ?rs @ r # drop ?pos ?rs, tc_bytes := tc_bytes c + heap_size r\<rparr>)))"
        using assms insert_ordered [of ?rs r ?pos] False
        by (intro evict_inv) (simp_all add: tail_inv_def recompute_fields)
      with 3 False show ?thesis by (auto simp: tail_push_def Let_def follows_def)
    qed
  qed
qed

lemma tail_inv_clear [simp]: "tail_inv (tail_clear c)"
  by (simp add: tail_inv_def tail_clear_def offset_ordered_def)

lemma tail_inv_new [simp]: "tail_inv (tail_new m)"
  by (simp add: tail_inv_def tail_new_def offset_ordered_def)

section \<open>Reads\<close>

lemma run_start_split:
  "run_start rs = Some c \<Longrightarrow> \<exists>pre suf. rs = pre @ suf \<and> suf \<noteq> [] \<and> gap_free suf \<and> get_base_offset (hd suf) = c"
proof (induction rs)
  case (Cons r rs)
  show ?case
  proof (cases "gap_free (r # rs)")
    case True
    with Cons.prems show ?thesis by (intro exI [of _ "[]"] exI [of _ "r # rs"]) simp
  next
    case False
    with Cons.prems have "run_start rs = Some c" by simp
    with Cons.IH show ?thesis by (metis append_Cons)
  qed
qed simp

lemma read_loop_prefix:
  "offset_ordered rs \<Longrightarrow> \<exists>post. dropWhile (\<lambda>r. get_last_offset r < off) rs = read_loop rs off m d n @ post"
proof (induction rs arbitrary: n)
  case (Cons r rs)
  have "dropWhile (\<lambda>r. get_last_offset r < off) rs = rs" if "\<not> get_last_offset r < off"
    using Cons.prems that by (cases rs) (auto simp: offset_ordered_Cons)
  with Cons show ?case by (auto simp: offset_ordered_Cons)
qed simp

lemma read_loop_durable: "r \<in> set (read_loop rs off m d n) \<Longrightarrow> get_last_offset r \<le> d"
  by (induction rs off m d n rule: read_loop.induct) (auto split: if_splits)

lemma gap_free_dropWhile:
  "gap_free rs \<Longrightarrow> rs \<noteq> [] \<Longrightarrow> get_base_offset (hd rs) \<le> off \<Longrightarrow>
    dropWhile (\<lambda>r. get_last_offset r < off) rs = x # xs \<Longrightarrow>
    gap_free (x # xs) \<and> get_base_offset x \<le> off \<and> off \<le> get_last_offset x"
proof (induction rs)
  case (Cons r rs)
  then show ?case
    by (cases rs) (auto simp: follows_def split: if_splits)
qed simp

lemma tail_read_run:
  assumes "tail_inv c" "tail_read_from c off m d = Some out"
  shows "\<exists>pre post. tc_records c = pre @ out @ post \<and> out \<noteq> [] \<and> gap_free out
    \<and> get_base_offset (hd out) \<le> off \<and> off \<le> get_last_offset (hd out) \<and> (\<forall>r \<in> set out. get_last_offset r \<le> d)"
proof -
  let ?skip = "\<lambda>r. get_last_offset r < off"
  obtain b where b: "contiguous_from c = Some b" "b \<le> off"
    and out: "out = read_loop (tc_records c) off m d 0" "out \<noteq> []"
    using assms(2) by (auto simp: tail_read_from_def Let_def split: option.splits if_splits)
  obtain pre suf where rs: "tc_records c = pre @ suf" "suf \<noteq> []" "gap_free suf" "get_base_offset (hd suf) = b"
    using run_start_split assms(1) b(1) unfolding tail_inv_def by metis
  have ord: "offset_ordered (tc_records c)" using assms(1) by (simp add: tail_inv_def)
  then have "\<forall>r \<in> set pre. ?skip r"
    using rs b(2) by (cases suf) (force simp: offset_ordered_append)+
  then have drop: "dropWhile ?skip (tc_records c) = dropWhile ?skip suf" by (simp add: rs(1))
  obtain post where post: "dropWhile ?skip suf = out @ post"
    using read_loop_prefix [OF ord] out(1) drop by metis
  obtain x xs where x: "out = x # xs" using out(2) by (cases out) auto
  have "gap_free (x # xs @ post) \<and> get_base_offset x \<le> off \<and> off \<le> get_last_offset x"
    using gap_free_dropWhile [OF rs(3,2)] rs(4) b(2) post x by simp
  moreover have "tc_records c = takeWhile ?skip (tc_records c) @ out @ post"
    using drop post by (metis takeWhile_dropWhile_id)
  ultimately show ?thesis
    using x read_loop_durable [of _ "tc_records c" off m d 0] out(1)
    by (metis append_Cons list.distinct(1) list.sel(1) successively_append_iff)
qed

lemma offset_ordered_hd_last:
  "offset_ordered rs \<Longrightarrow> rs \<noteq> [] \<Longrightarrow> get_last_offset (hd rs) \<le> get_last_offset (last rs)"
proof (cases rs)
  case (Cons x xs)
  assume "offset_ordered rs"
  then have "get_last_offset x < get_last_offset y" if "y \<in> set xs" for y
    using that Cons by (fastforce simp: offset_ordered_def)
  then show ?thesis using Cons by (cases "xs = []") (simp_all add: less_imp_le)
qed simp

lemma gap_free_covers:
  "gap_free out \<Longrightarrow> out \<noteq> [] \<Longrightarrow> get_base_offset (hd out) \<le> k \<Longrightarrow> k \<le> get_last_offset (last out) \<Longrightarrow>
    \<exists>r \<in> set out. get_base_offset r \<le> k \<and> k \<le> get_last_offset r"
proof (induction out)
  case (Cons r rs)
  show ?case
  proof (cases "k \<le> get_last_offset r")
    case True
    then show ?thesis using Cons.prems by auto
  next
    case False
    then show ?thesis using Cons by (cases rs) (auto simp: follows_def)
  qed
qed simp

section \<open>Properties\<close>

text \<open>
  The batches appended to one partition have disjoint offset ranges; the same batch may be
  pushed twice. They arrive in any order.
\<close>

inductive tail_step :: "tail_cache \<Rightarrow> tail_cache \<Rightarrow> bool" where
  push: "disjoint_from r (tc_records c) \<Longrightarrow> tail_step c (tail_push r (heap_size r) c)"
| clear: "tail_step c (tail_clear c)"

definition tail_init :: "tail_cache \<Rightarrow> bool" where
  "tail_init c \<longleftrightarrow> c = tail_new (tc_max_bytes c)"

interpretation tail_run: invariant_system tail_init tail_step tail_inv
  by unfold_locales (auto simp: tail_init_def elim: tail_step.cases intro: tail_inv_push dest: arg_cong [where f = tail_inv])

text \<open>C17: whatever order batches were appended in and whatever was evicted, a read the cache answers is
  complete: the returned records contain every offset from the requested one to the last returned, and none
  of them reaches past the durable end of the log.\<close>

theorem tail_read_complete:
  assumes "reachable tail_init tail_step c" and "tail_read_from c off max_records durable = Some out"
  shows "off \<le> get_last_offset (last out)
    \<and> (\<forall>k. off \<le> k \<and> k \<le> get_last_offset (last out) \<longrightarrow> (\<exists>r \<in> set out. get_base_offset r \<le> k \<and> k \<le> get_last_offset r))
    \<and> (\<forall>r \<in> set out. r \<in> set (tc_records c) \<and> get_last_offset r \<le> durable)"
proof -
  have inv: "tail_inv c" using assms(1) by (rule tail_run.reachable_inv)
  from tail_read_run [OF this assms(2)] obtain pre post where out: "tc_records c = pre @ out @ post"
    "out \<noteq> []" "gap_free out" "get_base_offset (hd out) \<le> off" "off \<le> get_last_offset (hd out)"
    "\<forall>r \<in> set out. get_last_offset r \<le> durable"
    by blast
  moreover have "get_last_offset (hd out) \<le> get_last_offset (last out)"
    using inv out(1,2) by (intro offset_ordered_hd_last) (simp_all add: tail_inv_def offset_ordered_append)
  ultimately show ?thesis
    using gap_free_covers [OF out(3,2)] by fastforce
qed


lemma tail_one_push:
  assumes "get_base_offset r \<le> get_last_offset r"
  shows "reachable tail_init tail_step (tail_push r (heap_size r) (tail_new m))"
proof (rule reachable.move [OF reachable.start])
  show "tail_init (tail_new m)" by (simp add: tail_init_def tail_new_def)
  show "tail_step (tail_new m) (tail_push r (heap_size r) (tail_new m))"
    using assms by (intro tail_step.push) (simp add: disjoint_from_def tail_new_def)
qed


theorem tail_read_complete_witness:
  "tail_read_from (tail_push (new_v2 (\<lambda>_. 0) ''t'' 0 [1] 3 4 2) 66 (tail_new 1)) 4 10 9
     = Some [new_v2 (\<lambda>_. 0) ''t'' 0 [1] 3 4 2]
   \<and> get_last_offset (new_v2 (\<lambda>_. 0) ''t'' 0 [1] 3 4 2) \<le> 9"
proof -
  let ?r = "new_v2 (\<lambda>_. 0) ''t'' 0 [1] 3 4 2"
  have r: "heap_size ?r = 66" "get_base_offset ?r \<le> get_last_offset ?r" by code_simp+
  have "tail_read_from (tail_push ?r 66 (tail_new 1)) 4 10 9 = Some [?r]" by code_simp
  with tail_read_complete [OF tail_one_push [OF r(2), of 1], of 4 10 9 "[?r]"] show ?thesis
    by (simp add: r(1))
qed

end
