(* ===== verification/Group_Commit.thy ===== *)
theory Group_Commit
  imports Wal_Truncate Tail_Cache
begin

text \<open>
  One partition of the group-commit write-ahead log (\<open>chronik-wal/src/group_commit.rs\<close>): the
  queue of pending writes, the commit worker that drains it and writes a batch with one fsync,
  segment rotation and sealing, and suffix truncation. Each definition is one critical section
  of the code, so that their interleavings are sequences of definitions: \<open>commit_drain\<close> holds
  the queue lock, \<open>commit_write\<close> and \<open>truncate_cut\<close> the writer lock, \<open>truncate_bump\<close> none.
  The directory is the list of the partition's segment files in the order of their ids. I/O
  errors, metrics and the clock are not modelled; the age of a segment is an argument.
\<close>

section \<open>State\<close>

datatype commit_result = Committed | Commit_failed

record pending_write =
  pw_data :: "byte list"
  pw_tx :: "nat option"
  pw_base :: int
  pw_last :: int

datatype segment_state = Active | Sealed | Archived

record sealed_segment_info =
  si_size :: nat
  si_state :: segment_state

record commit_queue =
  q_topic :: topic
  q_pending :: "pending_write list"
  q_total_bytes :: int
  q_dir :: "segment_file list"
  q_segment_id :: nat
  q_segment_size :: nat
  q_epoch :: nat
  q_tail :: tail_cache
  q_committed :: int
  q_responses :: "(nat \<times> commit_result) list"
  q_sealed :: "nat \<rightharpoonup> sealed_segment_info"

record group_commit_config =
  max_batch_size :: nat
  max_batch_bytes :: nat
  max_queue_depth :: nat
  enable_rotation :: bool
  rotation_size_bytes :: nat
  rotation_age_secs :: nat

definition low_resource :: "nat \<Rightarrow> group_commit_config" where
  "low_resource rotation_size = \<lparr>max_batch_size = 500, max_batch_bytes = 5000000, max_queue_depth = 2500,
     enable_rotation = True, rotation_size_bytes = rotation_size, rotation_age_secs = 30 * 60\<rparr>"

definition medium_resource :: "nat \<Rightarrow> group_commit_config" where
  "medium_resource rotation_size = \<lparr>max_batch_size = 2000, max_batch_bytes = 15000000, max_queue_depth = 10000,
     enable_rotation = True, rotation_size_bytes = rotation_size, rotation_age_secs = 30 * 60\<rparr>"

definition high_resource :: "nat \<Rightarrow> group_commit_config" where
  "high_resource rotation_size = \<lparr>max_batch_size = 10000, max_batch_bytes = 50000000, max_queue_depth = 50000,
     enable_rotation = True, rotation_size_bytes = rotation_size, rotation_age_secs = 30 * 60\<rparr>"

definition ultra_resource :: group_commit_config where
  "ultra_resource = \<lparr>max_batch_size = 20000, max_batch_bytes = 100000000, max_queue_depth = 100000,
     enable_rotation = True, rotation_size_bytes = 512 * 1024 * 1024, rotation_age_secs = 30 * 60\<rparr>"

section \<open>Opening a partition\<close>

definition next_segment_id :: "segment_file list \<Rightarrow> nat" where
  "next_segment_id dir = fold (\<lambda>f n. max n (fst f + 1)) dir 0"

definition create_queue :: "topic \<Rightarrow> segment_file list \<Rightarrow> nat \<Rightarrow> commit_queue" where
  "create_queue t dir tail_cache_bytes =
     (let n = next_segment_id dir
      in \<lparr>q_topic = t, q_pending = [], q_total_bytes = 0, q_dir = dir @ [(n, Some [])], q_segment_id = n,
          q_segment_size = 0, q_epoch = 0, q_tail = tail_new tail_cache_bytes, q_committed = i64_min,
          q_responses = [], q_sealed = Map.empty\<rparr>)"

section \<open>Appending\<close>

definition is_raft_topic :: "topic \<Rightarrow> bool" where
  "is_raft_topic t \<longleftrightarrow> take 6 t = ''__raft'' \<or> take 18 t = ''__chronik_metadata''"

definition enqueue :: "pending_write \<Rightarrow> commit_queue \<Rightarrow> commit_queue" where
  "enqueue w q = q\<lparr>q_pending := q_pending q @ [w],
     q_total_bytes := uwrap 64 (q_total_bytes q + int (length (pw_data w)))\<rparr>"

definition enqueue_nowait :: "byte list \<Rightarrow> int \<Rightarrow> int \<Rightarrow> commit_queue \<Rightarrow> commit_queue" where
  "enqueue_nowait data base last_off q =
     enqueue \<lparr>pw_data = data, pw_tx = None, pw_base = base, pw_last = last_off\<rparr> q"

definition enqueue_and_wait ::
  "group_commit_config \<Rightarrow> byte list \<Rightarrow> nat \<Rightarrow> int \<Rightarrow> int \<Rightarrow> commit_queue \<Rightarrow> bool \<times> commit_queue" where
  "enqueue_and_wait cfg data tx base last_off q =
     (if \<not> is_raft_topic (q_topic q) \<and> max_queue_depth cfg \<le> length (q_pending q) then (False, q)
      else (True, enqueue \<lparr>pw_data = data, pw_tx = Some tx, pw_base = base, pw_last = last_off\<rparr> q))"

definition append_record ::
  "group_commit_config \<Rightarrow> wal_record \<Rightarrow> int \<Rightarrow> nat \<Rightarrow> commit_queue \<Rightarrow> bool \<times> commit_queue" where
  "append_record cfg r acks tx q =
     (let data = to_bytes r;
          q1 = q\<lparr>q_tail := tail_push r (heap_size r) (q_tail q)\<rparr>;
          (ok, q2) = (if acks = 0
            then (True, enqueue_nowait data (get_base_offset r) (get_last_offset r) q1)
            else enqueue_and_wait cfg data tx (get_base_offset r) (get_last_offset r) q1)
      in if ok then (True, q2) else (False, q2\<lparr>q_tail := tail_clear (q_tail q2)\<rparr>))"

section \<open>Segments\<close>

definition write_active :: "byte list \<Rightarrow> commit_queue \<Rightarrow> commit_queue" where
  "write_active bs q = q\<lparr>q_dir :=
     map (\<lambda>(i, f). (i, if i = q_segment_id q then map_option (\<lambda>d. d @ bs) f else f)) (q_dir q)\<rparr>"

definition rotate_to_new_segment :: "commit_queue \<Rightarrow> commit_queue" where
  "rotate_to_new_segment q = q\<lparr>q_dir := q_dir q @ [(q_segment_id q + 1, Some [])],
     q_segment_id := q_segment_id q + 1, q_segment_size := 0\<rparr>"

definition active_size :: "commit_queue \<Rightarrow> nat" where
  "active_size q = (case map_of (q_dir q) (q_segment_id q) of None \<Rightarrow> 0 | Some f \<Rightarrow> file_size f)"

definition force_seal_segment :: "bool \<Rightarrow> commit_queue \<Rightarrow> commit_queue" where
  "force_seal_segment rotating q =
     (if active_size q = 0 then q
      else let q1 = q\<lparr>q_sealed := (q_sealed q)(q_segment_id q \<mapsto> \<lparr>si_size = active_size q, si_state = Sealed\<rparr>)\<rparr>
           in if rotating then rotate_to_new_segment q1 else q1)"

definition check_and_seal_segment :: "group_commit_config \<Rightarrow> nat \<Rightarrow> commit_queue \<Rightarrow> commit_queue" where
  "check_and_seal_segment cfg age q =
     (if \<not> enable_rotation cfg then q
      else if \<not> (rotation_size_bytes cfg \<le> q_segment_size q \<or> rotation_age_secs cfg \<le> age) then q
      else rotate_to_new_segment
        (q\<lparr>q_sealed := (q_sealed q)(q_segment_id q \<mapsto> \<lparr>si_size = q_segment_size q, si_state = Sealed\<rparr>)\<rparr>))"

definition mark_segment_archived :: "nat \<Rightarrow> commit_queue \<Rightarrow> commit_queue" where
  "mark_segment_archived sid q =
     q\<lparr>q_sealed := (case q_sealed q sid of None \<Rightarrow> q_sealed q
        | Some info \<Rightarrow> (q_sealed q)(sid \<mapsto> info\<lparr>si_state := Archived\<rparr>))\<rparr>"

definition delete_segment_file :: "nat \<Rightarrow> commit_queue \<Rightarrow> commit_queue" where
  "delete_segment_file sid q =
     q\<lparr>q_sealed := (q_sealed q)(sid := None), q_dir := filter (\<lambda>f. fst f \<noteq> sid) (q_dir q)\<rparr>"

definition remove_segment :: "nat \<Rightarrow> commit_queue \<Rightarrow> commit_queue" where
  "remove_segment sid q =
     (case q_sealed q sid of
        None \<Rightarrow> q
      | Some info \<Rightarrow>
          let q1 = q\<lparr>q_sealed := (q_sealed q)(sid := None)\<rparr>
          in if si_state info = Archived
             then q1\<lparr>q_dir := filter (\<lambda>f. fst f \<noteq> sid) (q_dir q1)\<rparr> else q1)"

section \<open>Committing a batch\<close>

definition notify :: "pending_write list \<Rightarrow> commit_result \<Rightarrow> commit_queue \<Rightarrow> commit_queue" where
  "notify batch res q = q\<lparr>q_responses := q_responses q @ map (\<lambda>tx. (tx, res)) (List.map_filter pw_tx batch)\<rparr>"

definition commit_drain ::
  "group_commit_config \<Rightarrow> commit_queue \<Rightarrow> (pending_write list \<times> byte list \<times> nat \<times> commit_queue) option" where
  "commit_drain cfg q =
     (if q_pending q = [] then None
      else let batch_size = min (length (q_pending q)) (max_batch_size cfg);
               batch = take batch_size (q_pending q)
           in Some (batch, concat (map pw_data batch), q_epoch q,
                    q\<lparr>q_pending := drop batch_size (q_pending q)\<rparr>))"

definition commit_write ::
  "pending_write list \<Rightarrow> byte list \<Rightarrow> nat \<Rightarrow> commit_queue \<Rightarrow> bool \<times> commit_queue" where
  "commit_write batch combined drained_at_epoch q =
     (if q_epoch q \<noteq> drained_at_epoch
      then (False, notify batch Commit_failed
              (q\<lparr>q_total_bytes := uwrap 64 (q_total_bytes q - int (length combined)),
                 q_tail := tail_clear (q_tail q)\<rparr>))
      else (True, write_active combined q))"

definition commit_finish :: "pending_write list \<Rightarrow> byte list \<Rightarrow> commit_queue \<Rightarrow> commit_queue" where
  "commit_finish batch combined q =
     notify batch Committed
       (q\<lparr>q_total_bytes := uwrap 64 (q_total_bytes q - int (length combined)),
          q_committed := (if batch = [] then q_committed q
             else max (q_committed q) (Max (set (map pw_last batch)))),
          q_segment_size := q_segment_size q + length combined\<rparr>)"

definition commit_batch :: "group_commit_config \<Rightarrow> nat \<Rightarrow> commit_queue \<Rightarrow> commit_queue" where
  "commit_batch cfg age q =
     (case commit_drain cfg q of
        None \<Rightarrow> q
      | Some (batch, combined, epoch, q1) \<Rightarrow>
          let (written, q2) = commit_write batch combined epoch q1
          in if written then check_and_seal_segment cfg age (commit_finish batch combined q2) else q2)"

section \<open>Reading and truncating\<close>

definition durable_end_offset :: "commit_queue \<Rightarrow> int option" where
  "durable_end_offset q = (if q_committed q = i64_min then None else Some (q_committed q + 1))"

definition read_tail :: "commit_queue \<Rightarrow> int \<Rightarrow> nat \<Rightarrow> wal_record list option" where
  "read_tail q off max_records = tail_read_from (q_tail q) off max_records (q_committed q)"

definition truncate_bump :: "commit_queue \<Rightarrow> commit_queue" where
  "truncate_bump q = q\<lparr>q_epoch := q_epoch q + 1\<rparr>"

definition truncated_sealed ::
  "segment_file list \<Rightarrow> segment_file list \<Rightarrow> (nat \<rightharpoonup> sealed_segment_info) \<Rightarrow> (nat \<rightharpoonup> sealed_segment_info)" where
  "truncated_sealed old new reg = (\<lambda>i.
     case (map_of old i, map_of new i) of
       (Some f, None) \<Rightarrow> None
     | (Some f, Some f') \<Rightarrow> if f' = f then reg i else map_option (\<lambda>info. info\<lparr>si_size := file_size f'\<rparr>) (reg i)
     | _ \<Rightarrow> reg i)"

definition truncate_cut :: "int \<Rightarrow> commit_queue \<Rightarrow> truncate_outcome \<times> commit_queue" where
  "truncate_cut target q =
     (let dropped = q_pending q;
          (dir, out) = truncate_partition_files (Some (q_dir q)) target;
          dir' = (case dir of Some d \<Rightarrow> d | None \<Rightarrow> []);
          out' = out\<lparr>buffered_writes_dropped := length dropped\<rparr>;
          q1 = q\<lparr>q_pending := [], q_total_bytes := 0, q_tail := tail_clear (q_tail q),
                 q_committed := saturating_sub_i64 target 1, q_dir := dir',
                 q_sealed := truncated_sealed (q_dir q) dir' (q_sealed q)\<rparr>;
          q2 = (if touched_disk out' then rotate_to_new_segment q1 else q1)
      in (out', notify dropped Commit_failed q2))"

definition truncate_to :: "int \<Rightarrow> commit_queue \<Rightarrow> truncate_outcome \<times> commit_queue" where
  "truncate_to target q = truncate_cut target (truncate_bump q)"

section \<open>Commits in any interleaving with appends and rotation\<close>

text \<open>
  The worker between its critical sections, and the writes accepted so far, in the order in which they
  entered the queue.
\<close>

datatype worker =
    W_idle
  | W_drained "pending_write list" "byte list" nat
  | W_written "pending_write list" "byte list"

record commit_state =
  cs_queue :: commit_queue
  cs_worker :: worker
  cs_accepted :: "pending_write list"

inductive commit_step :: "group_commit_config \<Rightarrow> commit_state \<Rightarrow> commit_state \<Rightarrow> bool" for cfg where
  accept: "append_record cfg r acks tx (cs_queue s) = (True, q) \<Longrightarrow>
    commit_step cfg s (s\<lparr>cs_queue := q, cs_accepted := cs_accepted s @ [last (q_pending q)]\<rparr>)"
| refuse: "append_record cfg r acks tx (cs_queue s) = (False, q) \<Longrightarrow> commit_step cfg s (s\<lparr>cs_queue := q\<rparr>)"
| drain: "cs_worker s = W_idle \<Longrightarrow> commit_drain cfg (cs_queue s) = Some (batch, combined, ep, q) \<Longrightarrow>
    commit_step cfg s (s\<lparr>cs_queue := q, cs_worker := W_drained batch combined ep\<rparr>)"
| wrote: "cs_worker s = W_drained batch combined ep \<Longrightarrow>
    commit_write batch combined ep (cs_queue s) = (True, q) \<Longrightarrow>
    commit_step cfg s (s\<lparr>cs_queue := q, cs_worker := W_written batch combined\<rparr>)"
| discard: "cs_worker s = W_drained batch combined ep \<Longrightarrow>
    commit_write batch combined ep (cs_queue s) = (False, q) \<Longrightarrow>
    commit_step cfg s (s\<lparr>cs_queue := q, cs_worker := W_idle\<rparr>)"
| finish: "cs_worker s = W_written batch combined \<Longrightarrow>
    commit_step cfg s (s\<lparr>cs_queue := commit_finish batch combined (cs_queue s), cs_worker := W_idle\<rparr>)"
| seal: "cs_worker s = W_idle \<Longrightarrow>
    commit_step cfg s (s\<lparr>cs_queue := check_and_seal_segment cfg age (cs_queue s)\<rparr>)"
| force_seal: "commit_step cfg s (s\<lparr>cs_queue := force_seal_segment True (cs_queue s)\<rparr>)"

definition commit_init :: "commit_state \<Rightarrow> bool" where
  "commit_init s \<longleftrightarrow> cs_worker s = W_idle \<and> cs_accepted s = []
     \<and> (\<exists>t n. cs_queue s = create_queue t [] n)"

definition dir_bytes :: "segment_file list \<Rightarrow> byte list" where
  "dir_bytes dir = concat (map (\<lambda>f. case snd f of None \<Rightarrow> [] | Some d \<Rightarrow> d) dir)"

definition active_last :: "commit_queue \<Rightarrow> bool" where
  "active_last q \<longleftrightarrow> (\<exists>ds d. q_dir q = ds @ [(q_segment_id q, Some d)] \<and> (\<forall>f \<in> set ds. fst f < q_segment_id q))"

fun in_flight :: "worker \<Rightarrow> pending_write list" where
  "in_flight (W_drained b _ _) = b"
| "in_flight _ = []"

fun worker_ok :: "commit_queue \<Rightarrow> pending_write list \<Rightarrow> worker \<Rightarrow> bool" where
  "worker_ok q wr W_idle \<longleftrightarrow> True"
| "worker_ok q wr (W_drained b c e) \<longleftrightarrow> c = concat (map pw_data b) \<and> e = q_epoch q"
| "worker_ok q wr (W_written b c) \<longleftrightarrow> set b \<subseteq> set wr"

definition commit_inv :: "commit_state \<Rightarrow> bool" where
  "commit_inv s \<longleftrightarrow> active_last (cs_queue s) \<and> (\<exists>wr.
     cs_accepted s = wr @ in_flight (cs_worker s) @ q_pending (cs_queue s)
     \<and> dir_bytes (q_dir (cs_queue s)) = concat (map pw_data wr)
     \<and> worker_ok (cs_queue s) wr (cs_worker s)
     \<and> (\<forall>tx. (tx, Committed) \<in> set (q_responses (cs_queue s)) \<longrightarrow> Some tx \<in> pw_tx ` set wr))"

lemma append_record_queue:
  assumes "append_record cfg r acks tx q = (ok, q')"
  shows "q_dir q' = q_dir q \<and> q_segment_id q' = q_segment_id q \<and> q_epoch q' = q_epoch q
    \<and> q_responses q' = q_responses q
    \<and> (if ok then \<exists>w. q_pending q' = q_pending q @ [w] else q_pending q' = q_pending q)"
  using assms
  by (auto simp: append_record_def Let_def enqueue_nowait_def enqueue_and_wait_def enqueue_def
      split: if_splits)

lemma commit_drain_queue:
  assumes "commit_drain cfg q = Some (batch, combined, ep, q')"
  shows "q_pending q = batch @ q_pending q' \<and> combined = concat (map pw_data batch) \<and> ep = q_epoch q
    \<and> q_dir q' = q_dir q \<and> q_segment_id q' = q_segment_id q \<and> q_epoch q' = q_epoch q
    \<and> q_responses q' = q_responses q"
  using assms by (auto simp: commit_drain_def Let_def split: if_splits)

lemma dir_bytes_simps [simp]:
  "dir_bytes [] = []" "dir_bytes (xs @ ys) = dir_bytes xs @ dir_bytes ys"
  "dir_bytes [(i, Some d)] = d"
  by (simp_all add: dir_bytes_def)

lemma write_active_dir:
  assumes "active_last q"
  shows "dir_bytes (q_dir (write_active bs q)) = dir_bytes (q_dir q) @ bs \<and> active_last (write_active bs q)"
proof -
  obtain ds d where dir: "q_dir q = ds @ [(q_segment_id q, Some d)]" "\<forall>f \<in> set ds. fst f < q_segment_id q"
    using assms by (auto simp: active_last_def)
  have "map (\<lambda>(i, f). (i, if i = q_segment_id q then map_option (\<lambda>d. d @ bs) f else f)) ds = ds"
    using dir(2) by (intro map_idI) auto
  with dir show ?thesis
    by (auto simp: write_active_def active_last_def)
qed

lemma write_active_other [simp]:
  "q_pending (write_active bs q) = q_pending q" "q_epoch (write_active bs q) = q_epoch q"
  "q_responses (write_active bs q) = q_responses q" "q_segment_id (write_active bs q) = q_segment_id q"
  by (simp_all add: write_active_def)

lemma rotate_dir:
  assumes "active_last q"
  shows "active_last (rotate_to_new_segment q)
    \<and> dir_bytes (q_dir (rotate_to_new_segment q)) = dir_bytes (q_dir q)"
  using assms by (auto simp: active_last_def rotate_to_new_segment_def dest: less_SucI)

lemma rotate_other [simp]:
  "q_pending (rotate_to_new_segment q) = q_pending q" "q_epoch (rotate_to_new_segment q) = q_epoch q"
  "q_responses (rotate_to_new_segment q) = q_responses q"
  by (simp_all add: rotate_to_new_segment_def)

definition seal_keeps :: "commit_queue \<Rightarrow> commit_queue \<Rightarrow> bool" where
  "seal_keeps q q' \<longleftrightarrow> active_last q' \<and> dir_bytes (q_dir q') = dir_bytes (q_dir q)
     \<and> q_pending q' = q_pending q \<and> q_epoch q' = q_epoch q \<and> q_responses q' = q_responses q"

lemma active_last_sealed [simp]: "active_last (q\<lparr>q_sealed := m\<rparr>) = active_last q"
  by (simp add: active_last_def)

lemma seal_keeps_seal:
  assumes "active_last q"
  shows "seal_keeps q (check_and_seal_segment cfg age q)" "seal_keeps q (force_seal_segment b q)"
  using assms rotate_dir
  by (auto simp: seal_keeps_def check_and_seal_segment_def force_seal_segment_def Let_def)

lemma commit_inv_seal:
  assumes "commit_inv s" "seal_keeps (cs_queue s) q"
  shows "commit_inv (s\<lparr>cs_queue := q\<rparr>)"
  using assms by (cases "cs_worker s") (auto simp: commit_inv_def seal_keeps_def)

lemma notify_other [simp]:
  "q_dir (notify b r q) = q_dir q" "q_pending (notify b r q) = q_pending q"
  "q_epoch (notify b r q) = q_epoch q" "q_segment_id (notify b r q) = q_segment_id q"
  "q_responses (notify b r q) = q_responses q @ map (\<lambda>tx. (tx, r)) (List.map_filter pw_tx b)"
  by (simp_all add: notify_def)

lemma set_map_filter_tx: "tx \<in> set (List.map_filter pw_tx b) \<longleftrightarrow> Some tx \<in> pw_tx ` set b"
  by (induction b) (auto simp: List.map_filter_simps split: option.split)

lemma commit_inv_step:
  assumes "commit_inv s" "commit_step cfg s t"
  shows "commit_inv t"
  using assms(2,1)
proof (cases rule: commit_step.cases)
  case (accept r acks tx q)
  then show ?thesis
    using assms(1) append_record_queue [OF accept(2)]
    by (cases "cs_worker s") (auto simp: commit_inv_def active_last_def)
next
  case (refuse r acks tx q)
  then show ?thesis
    using assms(1) append_record_queue [OF refuse(2)]
    by (cases "cs_worker s") (auto simp: commit_inv_def active_last_def)
next
  case (drain batch combined ep q)
  then show ?thesis
    using assms(1) commit_drain_queue [OF drain(3)]
    by (auto simp: commit_inv_def active_last_def)
next
  case (wrote batch combined ep q)
  then have q: "q = write_active combined (cs_queue s)"
    by (auto simp: commit_write_def split: if_splits)
  obtain wr where wr: "cs_accepted s = wr @ batch @ q_pending (cs_queue s)"
    "dir_bytes (q_dir (cs_queue s)) = concat (map pw_data wr)" "combined = concat (map pw_data batch)"
    "\<forall>tx. (tx, Committed) \<in> set (q_responses (cs_queue s)) \<longrightarrow> Some tx \<in> pw_tx ` set wr"
    "active_last (cs_queue s)"
    using assms(1) wrote(2) by (auto simp: commit_inv_def)
  then show ?thesis
    using write_active_dir [OF wr(5), of combined] unfolding commit_inv_def wrote(1) q
    by (intro conjI exI [of _ "wr @ batch"]) (simp_all add: image_Un)
next
  case (discard batch combined ep q)
  have "ep = q_epoch (cs_queue s)"
    using assms(1) discard(2) by (auto simp: commit_inv_def)
  with discard(3) show ?thesis by (simp add: commit_write_def)
next
  case (finish batch combined)
  then obtain wr where "cs_accepted s = wr @ q_pending (cs_queue s)"
    "dir_bytes (q_dir (cs_queue s)) = concat (map pw_data wr)" "\<forall>w \<in> set batch. pw_tx w \<in> pw_tx ` set wr"
    "\<forall>tx. (tx, Committed) \<in> set (q_responses (cs_queue s)) \<longrightarrow> Some tx \<in> pw_tx ` set wr"
    "active_last (cs_queue s)"
    using assms(1) by (auto simp: commit_inv_def)
  then show ?thesis
    unfolding commit_inv_def finish(1)
    by (intro conjI exI [of _ wr])
      (auto simp: commit_finish_def active_last_def set_map_filter_tx)
next
  case (seal age)
  have "active_last (cs_queue s)" using assms(1) by (simp add: commit_inv_def)
  with seal show ?thesis
    by (simp add: commit_inv_seal [OF assms(1) seal_keeps_seal(1)])
next
  case force_seal
  have "active_last (cs_queue s)" using assms(1) by (simp add: commit_inv_def)
  with force_seal show ?thesis
    by (simp add: commit_inv_seal [OF assms(1) seal_keeps_seal(2)])
qed

interpretation commit_run: invariant_system commit_init "commit_step cfg" commit_inv for cfg
proof unfold_locales
  fix s assume "commit_init s"
  then show "commit_inv s"
    by (auto simp: commit_init_def commit_inv_def create_queue_def next_segment_id_def active_last_def Let_def)
qed (rule commit_inv_step)

section \<open>Properties\<close>

definition sample_queue :: commit_queue where
  "sample_queue = (create_queue ''t'' [] 1)\<lparr>
     q_dir := [(0, Some (v2_bytes (sample_batch 0 4) @ v2_bytes (sample_batch 5 9)))],
     q_pending := [\<lparr>pw_data = v2_bytes (sample_batch 10 11), pw_tx = Some 1, pw_base = 10, pw_last = 11\<rparr>]\<rparr>"

lemma sample_queue_simps:
  "q_epoch sample_queue = 0" "q_segment_id sample_queue = 0" "active_last sample_queue"
  "q_dir sample_queue = [(0, Some (v2_bytes (sample_batch 0 4) @ v2_bytes (sample_batch 5 9)))]"
  "q_pending sample_queue
    = [\<lparr>pw_data = v2_bytes (sample_batch 10 11), pw_tx = Some 1, pw_base = 10, pw_last = 11\<rparr>]"
  "tc_max_bytes (q_tail sample_queue) = 1"
  by (simp_all add: sample_queue_def create_queue_def next_segment_id_def Let_def active_last_def tail_new_def)

lemma sample_truncated:
  "truncate_partition_files (Some (q_dir sample_queue)) 7 = (Some [(0, Some (v2_bytes (sample_batch 0 4)))],
     \<lparr>new_log_end_offset = Some 5, segments_deleted = 0, bytes_discarded = 45, buffered_writes_dropped = 0\<rparr>)"
  unfolding sample_queue_simps by code_simp



text \<open>A batch the worker drained before a truncation started is never written after it: the worker
  leaves the directory as the truncation left it and tells every waiting producer that its write failed. Its
  bytes are subtracted from a counter the truncation has already reset, which wraps below zero.\<close>

theorem truncation_discards_in_flight:
  assumes "commit_drain cfg q = Some (batch, combined, ep, q1)"
    and "truncate_cut target (truncate_bump q1) = (out, q2)"
  shows "\<exists>q3. commit_write batch combined ep q2 = (False, q3) \<and> q_dir q3 = q_dir q2
    \<and> (\<forall>w \<in> set batch. \<forall>tx. pw_tx w = Some tx \<longrightarrow> (tx, Commit_failed) \<in> set (q_responses q3))
    \<and> q_total_bytes q3 = uwrap 64 (- int (length combined))"
proof -
  have ep: "q_epoch q2 = ep + 1" "q_total_bytes q2 = 0"
    using assms commit_drain_queue [OF assms(1)]
    by (auto simp: truncate_cut_def truncate_bump_def Let_def notify_def rotate_to_new_segment_def
        split: prod.splits if_splits)
  have "(tx, Commit_failed) \<in> (\<lambda>tx. (tx, Commit_failed)) ` set (List.map_filter pw_tx batch)"
    if "w \<in> set batch" "pw_tx w = Some tx" for w tx
    using that set_map_filter_tx [of tx batch] by (metis imageI)
  with ep show ?thesis by (auto simp: commit_write_def notify_def)
qed

theorem truncation_discards_in_flight_witness:
  "\<exists>batch combined ep q1 out q2 q3. commit_drain (low_resource 1000) sample_queue = Some (batch, combined, ep, q1)
     \<and> truncate_cut 7 (truncate_bump q1) = (out, q2) \<and> commit_write batch combined ep q2 = (False, q3)
     \<and> (1, Commit_failed) \<in> set (q_responses q3) \<and> q_total_bytes q3 = 2 ^ 64 - 45"
proof -
  obtain batch combined ep q1 where d: "commit_drain (low_resource 1000) sample_queue = Some (batch, combined, ep, q1)"
    "batch = q_pending sample_queue" "length combined = 45"
    by (simp add: commit_drain_def sample_queue_simps low_resource_def Let_def v2_body_bytes_def)
      (simp add: sample_batch_def)
  obtain out q2 where c: "truncate_cut 7 (truncate_bump q1) = (out, q2)" by (meson surj_pair)
  from truncation_discards_in_flight [OF d(1) c] d c show ?thesis
    by (auto simp: sample_queue_simps uwrap_def)
qed

lemma map_fst_list_update: "map fst (xs[k := (fst (xs ! k), y)]) = map fst xs"
  by (metis fst_conv length_map list_update_beyond list_update_id map_update not_less nth_map)

lemma cut_straddler_ids: "map fst (fst (cut_straddler segs target k)) = map fst segs"
  by (auto simp: cut_straddler_def case_prod_unfold Let_def map_fst_list_update split: segment_verdict.split)

lemma delete_loop_ids: "fst ` set (fst (delete_loop segs k out)) = fst ` set segs"
  unfolding delete_loop_files by (force simp: image_iff)

lemma truncate_partition_files_ids:
  assumes "truncate_partition_files (Some files) target = (Some dir, out)"
  shows "fst ` set dir \<subseteq> fst ` set files"
proof -
  let ?k = "find_straddler (sort_key fst files) target 0 None"
  define r where "r = (case ?k of None \<Rightarrow> (sort_key fst files, untouched None, None)
    | Some index \<Rightarrow> cut_straddler (sort_key fst files) target index)"
  define d where "d = (case ?k of None \<Rightarrow> 0 | Some index \<Rightarrow> index + 1)"
  have "map fst (fst r) = map fst (sort_key fst files)"
    using cut_straddler_ids by (auto simp: r_def split: option.split)
  then have "fst ` set (fst r) = fst ` set files" by (metis set_map set_sort)
  moreover have "dir = filter (\<lambda>f. snd f \<noteq> None)
      (take d (fst r) @ fst (delete_loop (drop d (fst r)) d (fst (snd r))))"
    using assms by (simp add: truncate_partition_files_def r_def d_def case_prod_unfold Let_def)
  then have "fst ` set dir \<subseteq> fst ` set (take d (fst r)) \<union> fst ` set (drop d (fst r))"
    using delete_loop_ids [of "drop d (fst r)" d "fst (snd r)"] by auto
  then have "fst ` set dir \<subseteq> fst ` set (fst r)"
    using set_take_subset [of d "fst r"] set_drop_subset [of d "fst r"] by blast
  ultimately show ?thesis by simp
qed

lemma truncate_cut_active:
  assumes "truncate_cut target q = (out, q')" "active_last q" "touched_disk out"
  shows "active_last q'"
proof -
  obtain dir o1 where t: "truncate_partition_files (Some (q_dir q)) target = (Some dir, o1)"
    by (auto simp: truncate_partition_files_def case_prod_unfold Let_def)
  have "fst f \<le> q_segment_id q" if "f \<in> set dir" for f
    using truncate_partition_files_ids [OF t] that assms(2) by (force simp: active_last_def)
  with t assms(1,3) show ?thesis
    by (auto simp: truncate_cut_def Let_def active_last_def rotate_to_new_segment_def le_imp_less_Suc
        split: if_splits)
qed

lemma truncate_cut_fields:
  assumes "truncate_cut target q = (out, q')"
  shows "q_epoch q' = q_epoch q" "q_pending q' = []" "q_total_bytes q' = 0"
    "q_tail q' = tail_clear (q_tail q)" "q_committed q' = saturating_sub_i64 target 1"
  using assms
  by (auto simp: truncate_cut_def Let_def notify_def rotate_to_new_segment_def split: prod.splits if_splits)

text \<open>The truncation counter is bumped before the queue is locked, so a batch drained in between
  carries the new count: the worker appends it to the log after the truncation has cut it, whatever offsets
  its records have.\<close>

theorem truncation_race:
  assumes "active_last q" and "commit_drain cfg (truncate_bump q) = Some (batch, combined, ep, q1)"
    and "truncate_cut target q1 = (out, q2)" and "touched_disk out"
  shows "\<exists>q3. commit_write batch combined ep q2 = (True, q3)
    \<and> dir_bytes (q_dir q3) = dir_bytes (q_dir q2) @ combined"
proof -
  have "active_last q1" "ep = q_epoch q1"
    using assms(1) commit_drain_queue [OF assms(2)] by (auto simp: active_last_def truncate_bump_def)
  then have "active_last q2" "ep = q_epoch q2"
    using truncate_cut_active [OF assms(3)] truncate_cut_fields [OF assms(3)] assms(4) by auto
  with write_active_dir [of q2 combined] show ?thesis by (simp add: commit_write_def)
qed

theorem truncation_race_witness:
  "\<exists>batch combined ep q1 out q2 q3.
     commit_drain (low_resource 1000) (truncate_bump sample_queue) = Some (batch, combined, ep, q1)
     \<and> truncate_cut 7 q1 = (out, q2) \<and> new_log_end_offset out = Some 5
     \<and> commit_write batch combined ep q2 = (True, q3)
     \<and> dir_bytes (q_dir q3) = v2_bytes (sample_batch 0 4) @ v2_bytes (sample_batch 10 11)"
proof -
  let ?q1 = "(truncate_bump sample_queue)\<lparr>q_pending := []\<rparr>"
  have d: "commit_drain (low_resource 1000) (truncate_bump sample_queue)
      = Some (q_pending sample_queue, v2_bytes (sample_batch 10 11), 1, ?q1)"
    by (simp add: commit_drain_def sample_queue_simps low_resource_def truncate_bump_def Let_def del: to_bytes.simps)
  obtain out q2 where c: "truncate_cut 7 ?q1 = (out, q2)" by (meson surj_pair)
  then have out: "touched_disk out" "new_log_end_offset out = Some 5"
      "dir_bytes (q_dir q2) = v2_bytes (sample_batch 0 4)"
    by (auto simp: truncate_cut_def truncate_bump_def sample_truncated touched_disk_def rotate_to_new_segment_def
        dir_bytes_def simp del: to_bytes.simps)
  from truncation_race [OF sample_queue_simps(3) d c out(1)] d c out(2,3) show ?thesis by auto
qed

text \<open>After a truncation the durable mark stands one below the requested target even where the log was
  cut lower, so a record appended below the target is served to readers while it is only queued and nothing
  of it is on disk.\<close>

theorem truncation_serves_uncommitted:
  assumes "truncate_to target q = (out, q1)" and "in_signed 64 target" "i64_min + 1 < target"
    and "tc_max_bytes (q_tail q) \<noteq> 0"
    and "append_record cfg r 0 tx q1 = (True, q2)"
    and "get_base_offset r \<le> get_last_offset r" "get_last_offset r < target"
  shows "durable_end_offset q1 = Some target \<and> read_tail q2 (get_base_offset r) 1 = Some [r]
    \<and> q_dir q2 = q_dir q1"
proof -
  have q1: "q_tail q1 = tail_clear (q_tail q)" "q_committed q1 = target - 1"
    using truncate_cut_fields [OF assms(1) [unfolded truncate_to_def]] assms(2,3)
    by (auto simp: truncate_bump_def saturating_sub_i64_def in_signed_def)
  have q2: "q_tail q2 = tail_push r (heap_size r) (q_tail q1)" "q_committed q2 = q_committed q1" "q_dir q2 = q_dir q1"
    using assms(5) by (auto simp: append_record_def Let_def enqueue_nowait_def enqueue_def)
  have "tail_push r (heap_size r) (tail_clear (q_tail q))
      = (q_tail q)\<lparr>tc_records := [r], tc_bytes := heap_size r, contiguous_from := Some (get_base_offset r)\<rparr>"
    using assms(4) by (simp add: tail_push_def tail_clear_def evict_def)
  with q1 q2 assms(3,6,7) show ?thesis
    by (simp add: durable_end_offset_def read_tail_def tail_read_from_def)
qed

theorem truncation_serves_uncommitted_witness:
  "\<exists>out q1 q2. truncate_to 7 sample_queue = (out, q1) \<and> new_log_end_offset out = Some 5
     \<and> append_record (low_resource 1000) (V2 (sample_batch 5 6)) 0 2 q1 = (True, q2)
     \<and> durable_end_offset q1 = Some 7 \<and> read_tail q2 5 1 = Some [V2 (sample_batch 5 6)]"
proof -
  obtain out q1 where c: "truncate_to 7 sample_queue = (out, q1)" by (meson surj_pair)
  then have out: "new_log_end_offset out = Some 5"
    by (auto simp: truncate_to_def truncate_cut_def truncate_bump_def sample_truncated Let_def simp del: to_bytes.simps)
  obtain q2 where a: "append_record (low_resource 1000) (V2 (sample_batch 5 6)) 0 2 q1 = (True, q2)"
    by (simp add: append_record_def Let_def)
  from truncation_serves_uncommitted [OF c _ _ _ a] out a c show ?thesis
    by (auto simp: sample_queue_simps) (simp_all add: sample_batch_def)
qed

end
