(* ===== verification/Transaction_Index.thy ===== *)
theory Transaction_Index
  imports Chronik_Prelude
begin

text \<open>
  The transaction index behind \<open>read_committed\<close> fetches
  (\<open>chronik-server/src/transaction_index.rs\<close>): per partition, the producers with an open
  transaction and the aborted transactions, derived from the batches of the log in order. A
  hash map is an association list with distinct keys; nothing depends on its order.
\<close>

section \<open>Operations\<close>

record aborted_txn =
  at_producer_id :: int
  at_first_offset :: int

record partition_txn_state =
  ongoing :: "(int \<times> int) list"
  aborted :: "aborted_txn list"

type_synonym transaction_index = "partition_key \<rightharpoonup> partition_txn_state"

definition empty_txn_state :: partition_txn_state where
  "empty_txn_state = \<lparr>ongoing = [], aborted = []\<rparr>"

definition on_transactional_produce :: "topic \<Rightarrow> int \<Rightarrow> int \<Rightarrow> int \<Rightarrow> transaction_index \<Rightarrow> transaction_index" where
  "on_transactional_produce t p pid base ix =
     or_default_update empty_txn_state (\<lambda>s. s\<lparr>ongoing := or_insert pid base (ongoing s)\<rparr>) (t, p) ix"

definition on_commit :: "topic \<Rightarrow> int \<Rightarrow> int \<Rightarrow> transaction_index \<Rightarrow> transaction_index" where
  "on_commit t p pid ix = update_existing (\<lambda>s. s\<lparr>ongoing := remove_key pid (ongoing s)\<rparr>) (t, p) ix"

definition abort_state :: "int \<Rightarrow> partition_txn_state \<Rightarrow> partition_txn_state" where
  "abort_state pid s =
     (case map_of (ongoing s) pid of
        None \<Rightarrow> s
      | Some first \<Rightarrow> s\<lparr>ongoing := remove_key pid (ongoing s),
          aborted := aborted s @ [\<lparr>at_producer_id = pid, at_first_offset = first\<rparr>]\<rparr>)"

definition on_abort :: "topic \<Rightarrow> int \<Rightarrow> int \<Rightarrow> transaction_index \<Rightarrow> transaction_index" where
  "on_abort t p pid ix = update_existing (abort_state pid) (t, p) ix"

definition marker_type :: "byte list option \<Rightarrow> int option" where
  "marker_type key = (case key of
      None \<Rightarrow> None
    | Some k \<Rightarrow> if 4 \<le> length k then Some (be_sint [k ! 2, k ! 3]) else None)"

definition apply_log_batch ::
  "topic \<Rightarrow> int \<Rightarrow> int \<Rightarrow> bool \<Rightarrow> bool \<Rightarrow> byte list option \<Rightarrow> int \<Rightarrow> transaction_index \<Rightarrow> transaction_index" where
  "apply_log_batch t p pid is_transactional is_control first_key base ix =
     (if pid < 0 then ix
      else if is_control then
        (if marker_type first_key = Some 1 then on_commit t p pid ix
         else if marker_type first_key = Some 0 then on_abort t p pid ix
         else ix)
      else if is_transactional then on_transactional_produce t p pid base ix
      else ix)"

definition last_stable_offset :: "transaction_index \<Rightarrow> topic \<Rightarrow> int \<Rightarrow> int \<Rightarrow> int" where
  "last_stable_offset ix t p high_watermark =
     (case ix (t, p) of
        Some s \<Rightarrow> if ongoing s = [] then high_watermark else Min (set (map snd (ongoing s)))
      | None \<Rightarrow> high_watermark)"

definition aborted_below :: "transaction_index \<Rightarrow> topic \<Rightarrow> int \<Rightarrow> int \<Rightarrow> aborted_txn list" where
  "aborted_below ix t p upper =
     (case ix (t, p) of
        Some s \<Rightarrow> filter (\<lambda>a. at_first_offset a < upper) (aborted s)
      | None \<Rightarrow> [])"

section \<open>The index of a log\<close>

text \<open>
  Specification side: a log is the list of its batches, each with what the index reads of it.
  A batch is a marker, a transactional data batch, or neither.
\<close>

record log_batch =
  lb_pid :: int
  lb_transactional :: bool
  lb_control :: bool
  lb_key :: "byte list option"
  lb_base :: int

definition apply_batch :: "topic \<Rightarrow> int \<Rightarrow> log_batch \<Rightarrow> transaction_index \<Rightarrow> transaction_index" where
  "apply_batch t p b ix =
     apply_log_batch t p (lb_pid b) (lb_transactional b) (lb_control b) (lb_key b) (lb_base b) ix"

definition index_of :: "topic \<Rightarrow> int \<Rightarrow> log_batch list \<Rightarrow> transaction_index" where
  "index_of t p bs = fold (apply_batch t p) bs Map.empty"

definition is_data :: "int \<Rightarrow> log_batch \<Rightarrow> bool" where
  "is_data pid b \<longleftrightarrow> lb_pid b = pid \<and> 0 \<le> pid \<and> lb_transactional b \<and> \<not> lb_control b"

definition is_commit :: "int \<Rightarrow> log_batch \<Rightarrow> bool" where
  "is_commit pid b \<longleftrightarrow> lb_pid b = pid \<and> 0 \<le> pid \<and> lb_control b \<and> marker_type (lb_key b) = Some 1"

definition is_abort :: "int \<Rightarrow> log_batch \<Rightarrow> bool" where
  "is_abort pid b \<longleftrightarrow> lb_pid b = pid \<and> 0 \<le> pid \<and> lb_control b \<and> marker_type (lb_key b) = Some 0"

abbreviation is_marker :: "int \<Rightarrow> log_batch \<Rightarrow> bool" where
  "is_marker pid b \<equiv> is_commit pid b \<or> is_abort pid b"

text \<open>The first offset of the transaction a producer has open at the end of a log.\<close>

fun open_first :: "int \<Rightarrow> log_batch list \<Rightarrow> int option" where
  "open_first pid [] = None"
| "open_first pid (b # bs) =
     (if \<exists>m \<in> set bs. is_marker pid m then open_first pid bs
      else if is_data pid b then Some (lb_base b)
      else open_first pid bs)"

definition state_of :: "transaction_index \<Rightarrow> partition_key \<Rightarrow> partition_txn_state" where
  "state_of ix k = (case ix k of None \<Rightarrow> empty_txn_state | Some s \<Rightarrow> s)"

definition apply_state :: "log_batch \<Rightarrow> partition_txn_state \<Rightarrow> partition_txn_state" where
  "apply_state b s =
     (if is_commit (lb_pid b) b then s\<lparr>ongoing := remove_key (lb_pid b) (ongoing s)\<rparr>
      else if is_abort (lb_pid b) b then abort_state (lb_pid b) s
      else if is_data (lb_pid b) b then s\<lparr>ongoing := or_insert (lb_pid b) (lb_base b) (ongoing s)\<rparr>
      else s)"

lemma state_of_or_default:
  "state_of (or_default_update empty_txn_state f k ix) k = f (state_of ix k)"
  by (simp add: state_of_def or_default_update_def)

lemma state_of_existing:
  "f empty_txn_state = empty_txn_state \<Longrightarrow> state_of (update_existing f k ix) k = f (state_of ix k)"
  by (simp add: state_of_def update_existing_def split: option.split)

lemma empty_txn_state_fixed [simp]:
  "empty_txn_state\<lparr>ongoing := remove_key pid (ongoing empty_txn_state)\<rparr> = empty_txn_state"
  "abort_state pid empty_txn_state = empty_txn_state"
  by (simp_all add: empty_txn_state_def remove_key_def abort_state_def)

lemma state_of_apply: "state_of (apply_batch t p b ix) (t, p) = apply_state b (state_of ix (t, p))"
  by (auto simp: apply_batch_def apply_log_batch_def apply_state_def is_commit_def is_abort_def is_data_def
      on_commit_def on_abort_def on_transactional_produce_def state_of_or_default state_of_existing)

lemma state_of_index: "state_of (index_of t p bs) (t, p) = fold apply_state bs empty_txn_state"
proof -
  have "state_of (fold (apply_batch t p) bs ix) (t, p) = fold apply_state bs (state_of ix (t, p))" for ix
    by (induction bs arbitrary: ix) (simp_all add: state_of_apply)
  then show ?thesis by (simp add: index_of_def state_of_def)
qed

lemma open_first_snoc:
  "open_first pid (bs @ [b]) =
    (if is_marker pid b then (if is_data pid b then Some (lb_base b) else None)
     else case open_first pid bs of
        Some f \<Rightarrow> Some f
      | None \<Rightarrow> if is_data pid b then Some (lb_base b) else None)"
  by (induction bs) (auto split: option.splits)

lemma data_not_marker: "is_data pid b \<Longrightarrow> \<not> is_marker pid b"
  by (auto simp: is_data_def is_commit_def is_abort_def)

lemma map_of_or_insert:
  "map_of (or_insert k v m) k' = (if k' = k then Some (case map_of m k of Some x \<Rightarrow> x | None \<Rightarrow> v) else map_of m k')"
  by (auto simp: or_insert_def map_add_def split: option.split)

lemma ongoing_index: "map_of (ongoing (fold apply_state bs empty_txn_state)) pid = open_first pid bs"
proof (induction bs rule: rev_induct)
  case Nil
  then show ?case by (simp add: empty_txn_state_def)
next
  case (snoc b bs)
  have other: "\<not> is_marker pid b \<and> \<not> is_data pid b" if "lb_pid b \<noteq> pid"
    using that by (auto simp: is_commit_def is_abort_def is_data_def)
  show ?case
    using snoc other data_not_marker [of pid b]
    by (auto simp: apply_state_def open_first_snoc abort_state_def get_remove map_of_or_insert
        split: option.split)
qed

lemma aborted_index:
  "\<lparr>at_producer_id = pid, at_first_offset = f\<rparr> \<in> set (aborted (fold apply_state bs empty_txn_state)) \<longleftrightarrow>
    (\<exists>j < length bs. is_abort pid (bs ! j) \<and> open_first pid (take j bs) = Some f)"
proof (induction bs rule: rev_induct)
  case Nil
  then show ?case by (simp add: empty_txn_state_def)
next
  case (snoc b bs)
  have new: "\<lparr>at_producer_id = pid, at_first_offset = f\<rparr> \<in> set (aborted (apply_state b s)) \<longleftrightarrow>
      \<lparr>at_producer_id = pid, at_first_offset = f\<rparr> \<in> set (aborted s)
      \<or> is_abort pid b \<and> map_of (ongoing s) pid = Some f" for s
    by (auto simp: apply_state_def abort_state_def is_abort_def is_commit_def split: option.splits)
  have "(\<exists>j < length (bs @ [b]). is_abort pid ((bs @ [b]) ! j) \<and> open_first pid (take j (bs @ [b])) = Some f)
      \<longleftrightarrow> (\<exists>j < length bs. is_abort pid (bs ! j) \<and> open_first pid (take j bs) = Some f)
        \<or> is_abort pid b \<and> open_first pid bs = Some f"
    by (simp add: Ex_less_Suc nth_append disj_commute cong: conj_cong)
  moreover have "fold apply_state (bs @ [b]) empty_txn_state = apply_state b (fold apply_state bs empty_txn_state)"
    by simp
  ultimately show ?case by (simp only: new snoc.IH ongoing_index)
qed

lemma open_first_le:
  assumes "sorted (map lb_base bs)" "i < length bs" "is_data pid (bs ! i)"
    and "\<forall>j. i < j \<and> j < length bs \<longrightarrow> \<not> is_marker pid (bs ! j)"
  shows "\<exists>f. open_first pid bs = Some f \<and> f \<le> lb_base (bs ! i)"
  using assms
proof (induction bs arbitrary: i)
  case (Cons b bs)
  show ?case
  proof (cases i)
    case 0
    have "\<not> is_marker pid m" if m: "m \<in> set bs" for m
    proof -
      obtain k where "k < length bs" "bs ! k = m" using m by (auto simp: in_set_conv_nth)
      then show ?thesis using Cons.prems(4) [rule_format, of "Suc k"] 0 by simp
    qed
    with 0 Cons.prems(3) show ?thesis by simp
  next
    case (Suc k)
    have "\<exists>f. open_first pid bs = Some f \<and> f \<le> lb_base (bs ! k)"
    proof (rule Cons.IH)
      show "\<forall>j. k < j \<and> j < length bs \<longrightarrow> \<not> is_marker pid (bs ! j)"
      proof (intro allI impI)
        fix j assume "k < j \<and> j < length bs"
        then show "\<not> is_marker pid (bs ! j)" using Cons.prems(4) [rule_format, of "Suc j"] Suc by simp
      qed
    qed (use Cons.prems Suc in simp_all)
    moreover have "lb_base b \<le> lb_base (bs ! k)" using Cons.prems(1,2) Suc by simp
    ultimately show ?thesis using Suc by simp
  qed
qed simp

section \<open>Properties\<close>

text \<open>C18: below the last stable offset every transaction is decided: a transactional batch of the log that
  lies below it is followed by a commit or abort marker of its producer.\<close>

theorem lso_decided:
  assumes "sorted (map lb_base bs)" and "i < length bs" and "is_data pid (bs ! i)"
    and "lb_base (bs ! i) < last_stable_offset (index_of t p bs) t p high_watermark"
  shows "\<exists>j. i < j \<and> j < length bs \<and> is_marker pid (bs ! j)"
proof (rule ccontr)
  assume "\<not> ?thesis"
  then obtain f where f: "open_first pid bs = Some f" "f \<le> lb_base (bs ! i)"
    using open_first_le [OF assms(1-3)] by blast
  let ?s = "fold apply_state bs empty_txn_state"
  have mem: "(pid, f) \<in> set (ongoing ?s)" using f(1) ongoing_index map_of_SomeD by metis
  then have "Min (set (map snd (ongoing ?s))) \<le> f" by (intro Min_le) force+
  moreover have "index_of t p bs (t, p) = Some ?s"
    using state_of_index [of t p bs] mem by (auto simp: state_of_def empty_txn_state_def split: option.splits)
  ultimately show False using assms(4) f(2) mem by (auto simp: last_stable_offset_def split: if_splits)
qed

text \<open>The batches of a small log: producer 7 writes at offset 0 and aborts at 1, producer 9 is still open.\<close>

definition sample_txn_log :: "log_batch list" where
  "sample_txn_log =
     [\<lparr>lb_pid = 7, lb_transactional = True, lb_control = False, lb_key = None, lb_base = 0\<rparr>,
      \<lparr>lb_pid = 7, lb_transactional = True, lb_control = True, lb_key = Some [0, 0, 0, 0], lb_base = 1\<rparr>,
      \<lparr>lb_pid = 9, lb_transactional = True, lb_control = False, lb_key = None, lb_base = 2\<rparr>]"

theorem lso_decided_witness:
  "last_stable_offset (index_of ''t'' 0 sample_txn_log) ''t'' 0 3 = 2
   \<and> (\<exists>j. 0 < j \<and> j < length sample_txn_log \<and> is_marker 7 (sample_txn_log ! j))"
proof -
  have lso: "last_stable_offset (index_of ''t'' 0 sample_txn_log) ''t'' 0 3 = 2" by code_simp
  moreover have "\<exists>j. 0 < j \<and> j < length sample_txn_log \<and> is_marker 7 (sample_txn_log ! j)"
    using lso by (intro lso_decided [of _ 0 7 "''t''" 0 3]) (simp_all add: sample_txn_log_def is_data_def)
  ultimately show ?thesis ..
qed

text \<open>C19: the aborted transactions reported to a fetch are exactly the transactions closed by an abort
  marker of the log and started below the fetch's upper bound, each with the offset of its first batch.\<close>

theorem aborted_exact:
  "\<lparr>at_producer_id = pid, at_first_offset = f\<rparr> \<in> set (aborted_below (index_of t p bs) t p upper) \<longleftrightarrow>
    f < upper \<and> (\<exists>j < length bs. is_abort pid (bs ! j) \<and> open_first pid (take j bs) = Some f)"
proof -
  have "set (aborted_below (index_of t p bs) t p upper)
      = {a \<in> set (aborted (fold apply_state bs empty_txn_state)). at_first_offset a < upper}"
    using state_of_index [of t p bs]
    by (auto simp: aborted_below_def state_of_def empty_txn_state_def split: option.splits)
  then show ?thesis using aborted_index [of pid f bs] by auto
qed

end
