(* ===== verification/Metadata_State.thy ===== *)
theory Metadata_State
  imports Chronik_Prelude
begin

text \<open>
  The event-sourced metadata of a node: the records and events of
  \<open>chronik-common/src/metadata/{traits,events,transaction}.rs\<close> and the state machine
  \<open>MetadataState::apply_event\<close> of \<open>wal_metadata_store.rs\<close>. Every arm of the match is one
  definition; the arms never fail, so they are functions on the state. A timestamp is the
  number of nanoseconds since the epoch, an event id an integer.
\<close>

section \<open>Records\<close>

type_synonym timestamp = int
type_synonym uuid = int

record topic_config =
  partition_count :: int
  replication_factor :: int
  retention_ms :: "int option"
  segment_bytes :: int
  tc_config :: "(string \<times> string) list"

definition default_topic_config :: topic_config where
  "default_topic_config =
     \<lparr>partition_count = 3, replication_factor = 1, retention_ms = Some (7 * 24 * 60 * 60 * 1000),
      segment_bytes = 1024 * 1024 * 1024, tc_config = []\<rparr>"

record topic_metadata =
  tm_id :: uuid
  tm_name :: string
  tm_config :: topic_config
  tm_created_at :: timestamp
  tm_updated_at :: timestamp
  auto_created :: bool

record segment_metadata =
  sg_segment_id :: string
  sg_topic :: topic
  sg_partition :: int
  sg_start_offset :: int
  sg_end_offset :: int
  sg_size :: int
  sg_record_count :: int
  sg_path :: string
  sg_created_at :: timestamp

record parquet_segment_metadata =
  pq_segment_id :: string
  pq_topic :: topic
  pq_partition :: int
  pq_min_offset :: int
  pq_max_offset :: int
  pq_record_count :: int
  pq_row_group_count :: int
  pq_min_timestamp :: int
  pq_max_timestamp :: int
  object_store_path :: string
  pq_size_bytes :: int
  pq_created_at :: int
  pq_compression :: string
  time_partition_key :: "string option"
  schema_fingerprint :: "string option"

datatype broker_status = Online | Offline | Maintenance

record broker_metadata =
  bm_broker_id :: int
  bm_host :: string
  bm_port :: int
  bm_rack :: "string option"
  bm_status :: broker_status
  bm_created_at :: timestamp
  bm_updated_at :: timestamp

record partition_assignment =
  pa_topic :: topic
  pa_partition :: int
  pa_broker_id :: int
  pa_is_leader :: bool
  pa_replicas :: "node_id list"
  pa_leader_id :: node_id
  pa_leader_epoch :: int
  pa_isr :: "node_id list"

record group_member_metadata =
  gm_member_id :: string
  gm_client_id :: string
  gm_client_host :: string
  gm_metadata :: "byte list"
  gm_assignment :: "byte list"

record consumer_group_metadata =
  cg_group_id :: string
  cg_state :: string
  cg_protocol :: string
  cg_protocol_type :: string
  cg_generation_id :: int
  cg_leader_id :: "string option"
  cg_leader :: string
  cg_members :: "group_member_metadata list"
  cg_created_at :: timestamp
  cg_updated_at :: timestamp

record consumer_offset =
  co_group_id :: string
  co_topic :: topic
  co_partition :: int
  co_offset :: int
  co_metadata :: "string option"
  co_commit_timestamp :: timestamp

record acl_binding_record =
  ab_resource_type :: int
  ab_resource_name :: string
  ab_pattern_type :: int
  ab_principal :: string
  ab_host :: string
  ab_operation :: int
  ab_permission_type :: int

record scram_credential_record =
  sc_username :: string
  sc_mechanism :: int
  sc_iterations :: int
  sc_salt :: "byte list"
  sc_stored_key :: "byte list"
  sc_server_key :: "byte list"

section \<open>The transaction coordinator's record\<close>

datatype transaction_state =
  TxnEmpty | Ongoing | PrepareCommitState | PrepareAbortState | CompleteCommit | CompleteAbort

definition accepts_enrollment :: "transaction_state \<Rightarrow> bool" where
  "accepts_enrollment s \<longleftrightarrow> s = TxnEmpty \<or> s = Ongoing \<or> s = CompleteCommit \<or> s = CompleteAbort"

definition is_completing :: "transaction_state \<Rightarrow> bool" where
  "is_completing s \<longleftrightarrow> s = PrepareCommitState \<or> s = PrepareAbortState"

text \<open>The two hash sets are lists without duplicates.\<close>

record transaction_metadata =
  tx_transactional_id :: string
  tx_producer_id :: int
  tx_producer_epoch :: int
  tx_state :: transaction_state
  tx_timeout_ms :: int
  tx_partitions :: "partition_key list"
  tx_groups :: "string list"
  tx_last_updated_ms :: int

definition new_transaction :: "string \<Rightarrow> int \<Rightarrow> int \<Rightarrow> int \<Rightarrow> int \<Rightarrow> transaction_metadata" where
  "new_transaction tid pid epoch timeout now_ms =
     \<lparr>tx_transactional_id = tid, tx_producer_id = pid, tx_producer_epoch = epoch,
      tx_state = TxnEmpty, tx_timeout_ms = timeout, tx_partitions = [], tx_groups = [],
      tx_last_updated_ms = now_ms\<rparr>"

definition is_fenced :: "int \<Rightarrow> int \<Rightarrow> transaction_metadata \<Rightarrow> bool" where
  "is_fenced pid epoch t \<longleftrightarrow> pid \<noteq> tx_producer_id t \<or> epoch < tx_producer_epoch t"

section \<open>Events\<close>

record transactional_offset =
  to_topic :: topic
  to_partition :: int
  to_offset :: int
  to_metadata :: "string option"

datatype config_scope = ScopeCluster | ScopeTopic string | ScopeBroker int

record snapshot_metadata =
  sn_path :: string
  sn_size :: int
  sn_event_count :: int
  sn_compression :: string
  sn_checksum :: string

text \<open>A \<open>TransactionPartition\<close> is a topic with a partition.\<close>

datatype (plugins only: code) metadata_payload =
    TopicCreated string topic_config bool
  | TopicUpdated string topic_config
  | TopicDeleted string
  | CatalogSnapshot "string list"
  | AclCreated acl_binding_record
  | AclDeleted acl_binding_record
  | ScramCredentialUpserted scram_credential_record
  | ScramCredentialDeleted string int
  | SegmentCreated segment_metadata
  | SegmentDeleted topic int string
  | ParquetSegmentCreated parquet_segment_metadata
  | ParquetSegmentDeleted topic int string
  | BrokerRegistered broker_metadata
  | BrokerStatusChanged int broker_status
  | BrokerRemoved int
  | PartitionAssigned partition_assignment
  | PartitionReassigned topic int int int
  | ConsumerGroupCreated consumer_group_metadata
  | ConsumerGroupUpdated consumer_group_metadata
  | ConsumerGroupDeleted string
  | OffsetCommitted consumer_offset
  | OffsetsReset string topic int int
  | ConsumerOffsetDeleted string topic int
  | HighWatermarkUpdated topic int int
  | LogStartOffsetUpdated topic int int
  | TransactionalOffsetCommit string int int string "transactional_offset list"
  | BeginTransaction string int int int
  | AddPartitionsToTransaction string int int "partition_key list"
  | AddOffsetsToTransaction string int int string
  | PrepareCommit string int int
  | PrepareAbort string int int
  | CommitTransaction string int int "partition_key list" "transactional_offset list"
  | AbortTransaction string int int "partition_key list"
  | ProducerFenced string int int int int
  | ConfigUpdated config_scope string string
  | ConfigDeleted config_scope string
  | SnapshotCreated string int snapshot_metadata
  | SnapshotDeleted string
  | MigrationStarted string string
  | MigrationCompleted string string bool

record metadata_event =
  event_id :: uuid
  ev_timestamp :: timestamp
  ev_version :: int
  created_by_node :: node_id
  payload :: metadata_payload

definition METADATA_EVENT_VERSION :: int where
  "METADATA_EVENT_VERSION = 1"

definition new_with_node :: "uuid \<times> timestamp \<Rightarrow> metadata_payload \<Rightarrow> node_id \<Rightarrow> metadata_event" where
  "new_with_node stamp p n =
     \<lparr>event_id = fst stamp, ev_timestamp = snd stamp, ev_version = METADATA_EVENT_VERSION,
      created_by_node = n, payload = p\<rparr>"

definition replicate_to_followers :: "metadata_payload \<Rightarrow> bool" where
  "replicate_to_followers p =
     (case p of SegmentCreated _ \<Rightarrow> False | SegmentDeleted _ _ _ \<Rightarrow> False
      | ParquetSegmentCreated _ \<Rightarrow> False | ParquetSegmentDeleted _ _ _ \<Rightarrow> False
      | _ \<Rightarrow> True)"

section \<open>The state\<close>

record metadata_state =
  topics :: "(string \<times> topic_metadata) list"
  brokers :: "(int \<times> broker_metadata) list"
  consumer_groups :: "(string \<times> consumer_group_metadata) list"
  consumer_offsets :: "((string \<times> topic \<times> int) \<times> consumer_offset) list"
  partition_assignments :: "(partition_key \<times> partition_assignment) list"
  ms_segments :: "((topic \<times> string) \<times> segment_metadata) list"
  partition_offsets :: "(partition_key \<times> int \<times> int) list"
  parquet_segments :: "((topic \<times> int \<times> string) \<times> parquet_segment_metadata) list"
  transactions :: "(string \<times> transaction_metadata) list"
  next_producer_id :: int
  acls :: "acl_binding_record list"
  scram_credentials :: "((string \<times> int) \<times> scram_credential_record) list"
  last_catalog_snapshot :: "timestamp option"
  last_snapshot_size :: "nat option"

text \<open>\<open>((node_id as i64) << 40) | 1\<close>: the low bit of the shifted value is clear.\<close>

definition producer_id_base :: "node_id \<Rightarrow> int" where
  "producer_id_base n = swrap 64 (n * 2 ^ 40) + 1"

definition new_metadata_state :: "node_id \<Rightarrow> metadata_state" where
  "new_metadata_state n =
     \<lparr>topics = [], brokers = [], consumer_groups = [], consumer_offsets = [],
      partition_assignments = [], ms_segments = [], partition_offsets = [], parquet_segments = [],
      transactions = [], next_producer_id = producer_id_base n, acls = [], scram_credentials = [],
      last_catalog_snapshot = None, last_snapshot_size = None\<rparr>"

definition observe_producer_id :: "int \<Rightarrow> metadata_state \<Rightarrow> metadata_state" where
  "observe_producer_id pid s =
     s\<lparr>next_producer_id := max (next_producer_id s) (swrap 64 (pid + 1))\<rparr>"

section \<open>Applying an event\<close>

subsection \<open>Topics\<close>

text \<open>
  The loops over a range of partitions and over the keys of a config are folds;
  \<open>init_offsets\<close> is the loop with \<open>or_insert((0, 0))\<close>, \<open>reset_offsets\<close> the one with
  \<open>insert\<close>.
\<close>

definition init_offsets ::
  "string \<Rightarrow> int \<Rightarrow> int \<Rightarrow> (partition_key \<times> int \<times> int) list \<Rightarrow> (partition_key \<times> int \<times> int) list" where
  "init_offsets name lo hi offs = fold (\<lambda>p. or_insert (name, p) (0, 0)) [lo..hi - 1] offs"

definition reset_offsets ::
  "string \<Rightarrow> int \<Rightarrow> (partition_key \<times> int \<times> int) list \<Rightarrow> (partition_key \<times> int \<times> int) list" where
  "reset_offsets name count offs = fold (\<lambda>p. AList.update (name, p) (0, 0)) [0..count - 1] offs"

definition merge_config ::
  "(string \<times> string) list \<Rightarrow> (string \<times> string) list \<Rightarrow> (string \<times> string) list" where
  "merge_config incoming existing = fold (\<lambda>(k, v). or_insert k v) incoming existing"

definition merges :: "(string \<times> string) list \<Rightarrow> (string \<times> string) list \<Rightarrow> bool" where
  "merges incoming existing \<longleftrightarrow> (\<exists>kv\<in>set incoming. map_of existing (fst kv) = None)"

definition merge_topic :: "timestamp \<Rightarrow> topic_config \<Rightarrow> topic_metadata \<Rightarrow> topic_metadata" where
  "merge_topic ts cfg t =
     t\<lparr>tm_config := (tm_config t)\<lparr>tc_config := merge_config (tc_config cfg) (tc_config (tm_config t))\<rparr>,
       tm_updated_at := (if merges (tc_config cfg) (tc_config (tm_config t)) then ts else tm_updated_at t)\<rparr>"

definition topic_created_again ::
  "timestamp \<Rightarrow> string \<Rightarrow> topic_config \<Rightarrow> bool \<Rightarrow> topic_metadata \<Rightarrow> metadata_state \<Rightarrow> metadata_state" where
  "topic_created_again ts name cfg auto existing s =
     (if auto \<and> \<not> auto_created existing then
        s\<lparr>topics := AList.update name (merge_topic ts cfg existing) (topics s)\<rparr>
      else if \<not> auto \<and> auto_created existing then
        s\<lparr>topics := AList.update name
             (existing\<lparr>tm_config := cfg, auto_created := False, tm_updated_at := ts\<rparr>) (topics s),
          partition_offsets := init_offsets name 0 (partition_count cfg) (partition_offsets s)\<rparr>
      else if partition_count (tm_config existing) < partition_count cfg then
        s\<lparr>topics := AList.update name (existing\<lparr>tm_config := cfg, tm_updated_at := ts\<rparr>) (topics s),
          partition_offsets :=
            init_offsets name (partition_count (tm_config existing)) (partition_count cfg) (partition_offsets s)\<rparr>
      else
        s\<lparr>topics := AList.update name (merge_topic ts cfg existing) (topics s)\<rparr>)"

definition apply_topic_created ::
  "uuid \<Rightarrow> timestamp \<Rightarrow> string \<Rightarrow> topic_config \<Rightarrow> bool \<Rightarrow> metadata_state \<Rightarrow> metadata_state" where
  "apply_topic_created eid ts name cfg auto s =
     (case map_of (topics s) name of
        Some existing \<Rightarrow> topic_created_again ts name cfg auto existing s
      | None \<Rightarrow>
        s\<lparr>topics := AList.update name
             \<lparr>tm_id = eid, tm_name = name, tm_config = cfg, tm_created_at = ts, tm_updated_at = ts,
              auto_created = auto\<rparr> (topics s),
          partition_offsets := reset_offsets name (partition_count cfg) (partition_offsets s)\<rparr>)"

definition apply_topic_updated :: "timestamp \<Rightarrow> string \<Rightarrow> topic_config \<Rightarrow> metadata_state \<Rightarrow> metadata_state" where
  "apply_topic_updated ts name cfg s =
     (case map_of (topics s) name of
        None \<Rightarrow> s
      | Some t \<Rightarrow> s\<lparr>topics := AList.update name (t\<lparr>tm_config := cfg, tm_updated_at := ts\<rparr>) (topics s)\<rparr>)"

definition apply_topic_deleted :: "string \<Rightarrow> metadata_state \<Rightarrow> metadata_state" where
  "apply_topic_deleted name s =
     s\<lparr>topics := remove_key name (topics s),
       partition_assignments := retain (\<lambda>k. fst k \<noteq> name) (partition_assignments s),
       partition_offsets := retain (\<lambda>k. fst k \<noteq> name) (partition_offsets s),
       consumer_offsets := retain (\<lambda>k. fst (snd k) \<noteq> name) (consumer_offsets s),
       ms_segments := retain (\<lambda>k. fst k \<noteq> name) (ms_segments s),
       parquet_segments := retain (\<lambda>k. fst k \<noteq> name) (parquet_segments s)\<rparr>"

subsection \<open>Credentials and rules\<close>

definition apply_acl_created :: "acl_binding_record \<Rightarrow> metadata_state \<Rightarrow> metadata_state" where
  "apply_acl_created b s = (if b \<in> set (acls s) then s else s\<lparr>acls := acls s @ [b]\<rparr>)"

definition apply_acl_deleted :: "acl_binding_record \<Rightarrow> metadata_state \<Rightarrow> metadata_state" where
  "apply_acl_deleted b s = s\<lparr>acls := filter (\<lambda>e. e \<noteq> b) (acls s)\<rparr>"

definition apply_scram_upserted :: "scram_credential_record \<Rightarrow> metadata_state \<Rightarrow> metadata_state" where
  "apply_scram_upserted c s =
     s\<lparr>scram_credentials := AList.update (sc_username c, sc_mechanism c) c (scram_credentials s)\<rparr>"

definition apply_scram_deleted :: "string \<Rightarrow> int \<Rightarrow> metadata_state \<Rightarrow> metadata_state" where
  "apply_scram_deleted u m s = s\<lparr>scram_credentials := remove_key (u, m) (scram_credentials s)\<rparr>"

subsection \<open>Partition offsets\<close>

definition apply_high_watermark_updated :: "topic \<Rightarrow> int \<Rightarrow> int \<Rightarrow> metadata_state \<Rightarrow> metadata_state" where
  "apply_high_watermark_updated t p hw s =
     (let key = (t, uwrap 32 p) in
      case map_of (partition_offsets s) key of
        Some (_, lso) \<Rightarrow> s\<lparr>partition_offsets := AList.update key (hw, lso) (partition_offsets s)\<rparr>
      | None \<Rightarrow> s\<lparr>partition_offsets := AList.update key (hw, 0) (partition_offsets s)\<rparr>)"

definition apply_log_start_offset_updated :: "topic \<Rightarrow> int \<Rightarrow> int \<Rightarrow> metadata_state \<Rightarrow> metadata_state" where
  "apply_log_start_offset_updated t p new s =
     (let key = (t, uwrap 32 p) in
      case map_of (partition_offsets s) key of
        Some (hw, lso) \<Rightarrow>
          (if lso < new then s\<lparr>partition_offsets := AList.update key (hw, new) (partition_offsets s)\<rparr> else s)
      | None \<Rightarrow> s\<lparr>partition_offsets := AList.update key (0, new) (partition_offsets s)\<rparr>)"

subsection \<open>Brokers, groups, offsets and segments\<close>

definition apply_broker_registered :: "broker_metadata \<Rightarrow> metadata_state \<Rightarrow> metadata_state" where
  "apply_broker_registered b s = s\<lparr>brokers := AList.update (bm_broker_id b) b (brokers s)\<rparr>"

definition apply_broker_status_changed ::
  "timestamp \<Rightarrow> int \<Rightarrow> broker_status \<Rightarrow> metadata_state \<Rightarrow> metadata_state" where
  "apply_broker_status_changed ts b status s =
     (case map_of (brokers s) b of
        None \<Rightarrow> s
      | Some m \<Rightarrow> s\<lparr>brokers := AList.update b (m\<lparr>bm_status := status, bm_updated_at := ts\<rparr>) (brokers s)\<rparr>)"

definition apply_broker_removed :: "int \<Rightarrow> metadata_state \<Rightarrow> metadata_state" where
  "apply_broker_removed b s = s\<lparr>brokers := remove_key b (brokers s)\<rparr>"

definition apply_offset_committed :: "consumer_offset \<Rightarrow> metadata_state \<Rightarrow> metadata_state" where
  "apply_offset_committed c s =
     s\<lparr>consumer_offsets :=
         AList.update (co_group_id c, co_topic c, co_partition c) c (consumer_offsets s)\<rparr>"

definition apply_consumer_offset_deleted :: "string \<Rightarrow> topic \<Rightarrow> int \<Rightarrow> metadata_state \<Rightarrow> metadata_state" where
  "apply_consumer_offset_deleted g t p s =
     s\<lparr>consumer_offsets := remove_key (g, t, p) (consumer_offsets s)\<rparr>"

definition apply_group_upserted :: "consumer_group_metadata \<Rightarrow> metadata_state \<Rightarrow> metadata_state" where
  "apply_group_upserted g s = s\<lparr>consumer_groups := AList.update (cg_group_id g) g (consumer_groups s)\<rparr>"

definition apply_group_deleted :: "string \<Rightarrow> metadata_state \<Rightarrow> metadata_state" where
  "apply_group_deleted g s =
     s\<lparr>consumer_groups := remove_key g (consumer_groups s),
       consumer_offsets := retain (\<lambda>k. fst k \<noteq> g) (consumer_offsets s)\<rparr>"

definition apply_segment_created :: "segment_metadata \<Rightarrow> metadata_state \<Rightarrow> metadata_state" where
  "apply_segment_created m s =
     s\<lparr>ms_segments := AList.update (sg_topic m, sg_segment_id m) m (ms_segments s)\<rparr>"

definition apply_segment_deleted :: "topic \<Rightarrow> string \<Rightarrow> metadata_state \<Rightarrow> metadata_state" where
  "apply_segment_deleted t i s = s\<lparr>ms_segments := remove_key (t, i) (ms_segments s)\<rparr>"

definition apply_parquet_created :: "parquet_segment_metadata \<Rightarrow> metadata_state \<Rightarrow> metadata_state" where
  "apply_parquet_created m s =
     s\<lparr>parquet_segments := AList.update (pq_topic m, pq_partition m, pq_segment_id m) m (parquet_segments s)\<rparr>"

definition apply_parquet_deleted :: "topic \<Rightarrow> int \<Rightarrow> string \<Rightarrow> metadata_state \<Rightarrow> metadata_state" where
  "apply_parquet_deleted t p i s =
     s\<lparr>parquet_segments := remove_key (t, p, i) (parquet_segments s)\<rparr>"

subsection \<open>Partition assignments\<close>

definition superseded :: "partition_assignment \<Rightarrow> metadata_state \<Rightarrow> bool" where
  "superseded a s =
     (case map_of (partition_assignments s) (pa_topic a, pa_partition a) of
        None \<Rightarrow> False
      | Some existing \<Rightarrow> pa_leader_epoch a < pa_leader_epoch existing)"

definition apply_partition_assigned :: "partition_assignment \<Rightarrow> metadata_state \<Rightarrow> metadata_state" where
  "apply_partition_assigned a s =
     (if superseded a s then s
      else s\<lparr>partition_assignments :=
               AList.update (pa_topic a, pa_partition a) a (partition_assignments s)\<rparr>)"

subsection \<open>Transactions\<close>

definition timestamp_millis :: "timestamp \<Rightarrow> int" where
  "timestamp_millis ts = ts div 1000000"

text \<open>\<open>get_mut\<close> on the transaction, followed by the mutation and the new time stamp.\<close>

definition update_transaction ::
  "timestamp \<Rightarrow> string \<Rightarrow> (transaction_metadata \<Rightarrow> transaction_metadata) \<Rightarrow> metadata_state \<Rightarrow> metadata_state" where
  "update_transaction ts tid f s =
     (case map_of (transactions s) tid of
        None \<Rightarrow> s
      | Some t \<Rightarrow>
        s\<lparr>transactions :=
            AList.update tid ((f t)\<lparr>tx_last_updated_ms := timestamp_millis ts\<rparr>) (transactions s)\<rparr>)"

definition apply_begin_transaction ::
  "timestamp \<Rightarrow> string \<Rightarrow> int \<Rightarrow> int \<Rightarrow> int \<Rightarrow> metadata_state \<Rightarrow> metadata_state" where
  "apply_begin_transaction ts tid pid epoch timeout s =
     (let now_ms = timestamp_millis ts;
          s1 = observe_producer_id pid s;
          txn = (case map_of (transactions s1) tid of
                   Some t \<Rightarrow> t
                 | None \<Rightarrow> new_transaction tid pid epoch timeout now_ms)
      in s1\<lparr>transactions := AList.update tid
              (txn\<lparr>tx_producer_id := pid, tx_producer_epoch := epoch, tx_timeout_ms := timeout,
                   tx_state := TxnEmpty, tx_partitions := [], tx_groups := [],
                   tx_last_updated_ms := now_ms\<rparr>) (transactions s1)\<rparr>)"

definition open_transaction :: "transaction_state \<Rightarrow> transaction_state" where
  "open_transaction st =
     (if st = TxnEmpty \<or> st = CompleteCommit \<or> st = CompleteAbort then Ongoing else st)"

definition apply_add_partitions ::
  "timestamp \<Rightarrow> string \<Rightarrow> int \<Rightarrow> partition_key list \<Rightarrow> metadata_state \<Rightarrow> metadata_state" where
  "apply_add_partitions ts tid pid ps s =
     update_transaction ts tid
       (\<lambda>t. t\<lparr>tx_partitions := fold List.insert ps (tx_partitions t),
              tx_state := open_transaction (tx_state t)\<rparr>)
       (observe_producer_id pid s)"

definition apply_add_offsets ::
  "timestamp \<Rightarrow> string \<Rightarrow> int \<Rightarrow> string \<Rightarrow> metadata_state \<Rightarrow> metadata_state" where
  "apply_add_offsets ts tid pid g s =
     update_transaction ts tid
       (\<lambda>t. t\<lparr>tx_groups := List.insert g (tx_groups t), tx_state := open_transaction (tx_state t)\<rparr>)
       (observe_producer_id pid s)"

definition apply_prepare_commit :: "timestamp \<Rightarrow> string \<Rightarrow> int \<Rightarrow> metadata_state \<Rightarrow> metadata_state" where
  "apply_prepare_commit ts tid pid s =
     update_transaction ts tid (\<lambda>t. t\<lparr>tx_state := PrepareCommitState\<rparr>) (observe_producer_id pid s)"

definition apply_prepare_abort :: "timestamp \<Rightarrow> string \<Rightarrow> int \<Rightarrow> metadata_state \<Rightarrow> metadata_state" where
  "apply_prepare_abort ts tid pid s =
     update_transaction ts tid (\<lambda>t. t\<lparr>tx_state := PrepareAbortState\<rparr>) (observe_producer_id pid s)"

definition apply_commit_transaction :: "timestamp \<Rightarrow> string \<Rightarrow> int \<Rightarrow> metadata_state \<Rightarrow> metadata_state" where
  "apply_commit_transaction ts tid pid s =
     update_transaction ts tid
       (\<lambda>t. t\<lparr>tx_state := CompleteCommit, tx_partitions := [], tx_groups := []\<rparr>)
       (observe_producer_id pid s)"

definition apply_abort_transaction :: "timestamp \<Rightarrow> string \<Rightarrow> int \<Rightarrow> metadata_state \<Rightarrow> metadata_state" where
  "apply_abort_transaction ts tid pid s =
     update_transaction ts tid
       (\<lambda>t. t\<lparr>tx_state := CompleteAbort, tx_partitions := [], tx_groups := []\<rparr>)
       (observe_producer_id pid s)"

definition apply_producer_fenced ::
  "timestamp \<Rightarrow> string \<Rightarrow> int \<Rightarrow> int \<Rightarrow> metadata_state \<Rightarrow> metadata_state" where
  "apply_producer_fenced ts tid pid epoch s =
     update_transaction ts tid
       (\<lambda>t. t\<lparr>tx_producer_id := pid, tx_producer_epoch := epoch\<rparr>)
       (observe_producer_id pid s)"

subsection \<open>The match\<close>

definition apply_event :: "metadata_event \<Rightarrow> metadata_state \<Rightarrow> metadata_state" where
  "apply_event e s =
     (let ts = ev_timestamp e in
      case payload e of
        TopicCreated name cfg auto \<Rightarrow> apply_topic_created (event_id e) ts name cfg auto s
      | ScramCredentialUpserted c \<Rightarrow> apply_scram_upserted c s
      | ScramCredentialDeleted u m \<Rightarrow> apply_scram_deleted u m s
      | AclCreated b \<Rightarrow> apply_acl_created b s
      | AclDeleted b \<Rightarrow> apply_acl_deleted b s
      | TopicUpdated name cfg \<Rightarrow> apply_topic_updated ts name cfg s
      | CatalogSnapshot _ \<Rightarrow> s
      | TopicDeleted name \<Rightarrow> apply_topic_deleted name s
      | HighWatermarkUpdated t p hw \<Rightarrow> apply_high_watermark_updated t p hw s
      | LogStartOffsetUpdated t p new \<Rightarrow> apply_log_start_offset_updated t p new s
      | ConsumerOffsetDeleted g t p \<Rightarrow> apply_consumer_offset_deleted g t p s
      | BrokerRegistered b \<Rightarrow> apply_broker_registered b s
      | BrokerStatusChanged b st \<Rightarrow> apply_broker_status_changed ts b st s
      | BrokerRemoved b \<Rightarrow> apply_broker_removed b s
      | OffsetCommitted c \<Rightarrow> apply_offset_committed c s
      | ConsumerGroupCreated g \<Rightarrow> apply_group_upserted g s
      | ConsumerGroupUpdated g \<Rightarrow> apply_group_upserted g s
      | ConsumerGroupDeleted g \<Rightarrow> apply_group_deleted g s
      | SegmentCreated m \<Rightarrow> apply_segment_created m s
      | SegmentDeleted t _ i \<Rightarrow> apply_segment_deleted t i s
      | ParquetSegmentCreated m \<Rightarrow> apply_parquet_created m s
      | ParquetSegmentDeleted t p i \<Rightarrow> apply_parquet_deleted t p i s
      | PartitionAssigned a \<Rightarrow> apply_partition_assigned a s
      | BeginTransaction tid pid epoch timeout \<Rightarrow> apply_begin_transaction ts tid pid epoch timeout s
      | AddPartitionsToTransaction tid pid _ ps \<Rightarrow> apply_add_partitions ts tid pid ps s
      | AddOffsetsToTransaction tid pid _ g \<Rightarrow> apply_add_offsets ts tid pid g s
      | PrepareCommit tid pid _ \<Rightarrow> apply_prepare_commit ts tid pid s
      | PrepareAbort tid pid _ \<Rightarrow> apply_prepare_abort ts tid pid s
      | CommitTransaction tid pid _ _ _ \<Rightarrow> apply_commit_transaction ts tid pid s
      | AbortTransaction tid pid _ _ \<Rightarrow> apply_abort_transaction ts tid pid s
      | ProducerFenced tid _ _ pid epoch \<Rightarrow> apply_producer_fenced ts tid pid epoch s
      | _ \<Rightarrow> s)"


section \<open>Well-formed metadata\<close>

text \<open>
  A keyed map holds each key once, under the key that its value names. A transaction outside
  the open and completing states has nothing enrolled.
\<close>

definition keyed :: "('v \<Rightarrow> 'k) \<Rightarrow> ('k \<times> 'v) list \<Rightarrow> bool" where
  "keyed f m \<longleftrightarrow> distinct (map fst m) \<and> (\<forall>e\<in>set m. f (snd e) = fst e)"

definition txn_settled :: "transaction_metadata \<Rightarrow> bool" where
  "txn_settled t \<longleftrightarrow>
     (tx_state t \<in> {TxnEmpty, CompleteCommit, CompleteAbort} \<longrightarrow> tx_partitions t = [] \<and> tx_groups t = []) \<and>
     distinct (tx_partitions t) \<and> distinct (tx_groups t)"

definition metadata_wf :: "metadata_state \<Rightarrow> bool" where
  "metadata_wf s \<longleftrightarrow>
     keyed tm_name (topics s) \<and>
     keyed bm_broker_id (brokers s) \<and>
     keyed cg_group_id (consumer_groups s) \<and>
     keyed (\<lambda>c. (co_group_id c, co_topic c, co_partition c)) (consumer_offsets s) \<and>
     keyed (\<lambda>a. (pa_topic a, pa_partition a)) (partition_assignments s) \<and>
     keyed (\<lambda>m. (sg_topic m, sg_segment_id m)) (ms_segments s) \<and>
     distinct (map fst (partition_offsets s)) \<and>
     keyed (\<lambda>m. (pq_topic m, pq_partition m, pq_segment_id m)) (parquet_segments s) \<and>
     keyed tx_transactional_id (transactions s) \<and>
     (\<forall>e\<in>set (transactions s). txn_settled (snd e)) \<and>
     distinct (acls s) \<and>
     keyed (\<lambda>c. (sc_username c, sc_mechanism c)) (scram_credentials s)"

lemma set_update_sub: "set (AList.update k v m) \<subseteq> insert (k, v) (set m)"
  by (induction m) auto

lemma keyed_nil [simp]: "keyed f []"
  by (simp add: keyed_def)

lemma keyed_update: "keyed f m \<Longrightarrow> f v = k \<Longrightarrow> keyed f (AList.update k v m)"
  using set_update_sub [of k v m] by (auto simp: keyed_def distinct_update)

lemma keyed_retain [simp]: "keyed f m \<Longrightarrow> keyed f (retain P m)"
  by (auto simp: keyed_def distinct_retain) (auto simp: retain_def)

lemma remove_key_retain: "remove_key k m = retain (\<lambda>j. j \<noteq> k) m"
  by (simp add: remove_key_def retain_def)

lemma keyed_remove [simp]: "keyed f m \<Longrightarrow> keyed f (remove_key k m)"
  by (simp add: remove_key_retain)

lemma keyed_get: "keyed f m \<Longrightarrow> map_of m k = Some v \<Longrightarrow> f v = k"
  by (auto simp: keyed_def dest!: map_of_SomeD)

lemma distinct_init_offsets: "distinct (map fst m) \<Longrightarrow> distinct (map fst (init_offsets t lo hi m))"
  unfolding init_offsets_def
  by (rule fold_invariant [where Q = "\<lambda>_. True"]) (auto intro: distinct_or_insert)

lemma distinct_reset_offsets: "distinct (map fst m) \<Longrightarrow> distinct (map fst (reset_offsets t n m))"
  unfolding reset_offsets_def
  by (rule fold_invariant [where Q = "\<lambda>_. True"]) (auto intro: distinct_insert)

lemma merge_topic_name [simp]: "tm_name (merge_topic ts cfg t) = tm_name t"
  by (simp add: merge_topic_def)

lemma wf_topics:
  assumes "metadata_wf s"
  shows "keyed tm_name ts \<Longrightarrow> metadata_wf (s\<lparr>topics := ts\<rparr>)"
    "keyed tm_name ts \<Longrightarrow> distinct (map fst po) \<Longrightarrow> metadata_wf (s\<lparr>topics := ts, partition_offsets := po\<rparr>)"
  using assms by (simp_all add: metadata_wf_def)

lemma wf_parts:
  assumes "metadata_wf s"
  shows "keyed tm_name (topics s)" "distinct (map fst (partition_offsets s))"
    "keyed tx_transactional_id (transactions s)"
    "keyed (\<lambda>a. (pa_topic a, pa_partition a)) (partition_assignments s)"
  using assms by (simp_all add: metadata_wf_def)

lemma topic_created_wf:
  assumes "metadata_wf s"
  shows "metadata_wf (apply_topic_created eid ts name cfg auto s)"
proof (cases "map_of (topics s) name")
  case None
  then show ?thesis
    using assms by (simp add: apply_topic_created_def wf_topics wf_parts keyed_update distinct_reset_offsets)
next
  case (Some t)
  then have "tm_name t = name" using assms keyed_get wf_parts(1) by metis
  then show ?thesis
    using assms Some
    by (simp add: apply_topic_created_def topic_created_again_def wf_topics wf_parts keyed_update
        distinct_init_offsets)
qed

lemma wf_transactions:
  assumes "metadata_wf s" and "txn_settled t" and "tx_transactional_id t = tid"
  shows "metadata_wf (s\<lparr>transactions := AList.update tid t (transactions s)\<rparr>)"
proof -
  have "txn_settled (snd e)" if "e \<in> set (AList.update tid t (transactions s))" for e
    using that set_update_sub [of tid t "transactions s"] assms(1,2)
    by (auto simp: metadata_wf_def)
  then show ?thesis
    using assms by (simp add: metadata_wf_def keyed_update)
qed

lemma wf_get_transaction:
  assumes "metadata_wf s" and "map_of (transactions s) tid = Some t"
  shows "txn_settled t" "tx_transactional_id t = tid"
proof -
  have "(tid, t) \<in> set (transactions s)" using assms(2) by (rule map_of_SomeD)
  then show "txn_settled t" using assms(1) by (fastforce simp: metadata_wf_def)
  show "tx_transactional_id t = tid" using keyed_get [OF wf_parts(3) [OF assms(1)] assms(2)] .
qed

lemma update_transaction_wf:
  assumes "metadata_wf s"
    and "\<And>t. txn_settled t \<Longrightarrow> txn_settled (f t)"
    and "\<And>t. tx_transactional_id (f t) = tx_transactional_id t"
  shows "metadata_wf (update_transaction ts tid f s)"
proof (cases "map_of (transactions s) tid")
  case (Some t)
  note t = wf_get_transaction [OF assms(1) Some]
  have "txn_settled ((f t)\<lparr>tx_last_updated_ms := timestamp_millis ts\<rparr>)"
    using assms(2) [OF t(1)] by (simp add: txn_settled_def)
  then show ?thesis
    using assms t Some by (simp add: update_transaction_def wf_transactions)
qed (simp add: assms(1) update_transaction_def)

lemma observe_wf [simp]: "metadata_wf (observe_producer_id pid s) = metadata_wf s"
  by (simp add: observe_producer_id_def metadata_wf_def)

lemma distinct_fold_insert: "distinct ys \<Longrightarrow> distinct (fold List.insert xs ys)"
  by (induction xs arbitrary: ys) (auto simp: distinct_insert)

lemma open_transaction_open [simp]:
  "open_transaction st \<notin> {TxnEmpty, CompleteCommit, CompleteAbort}"
  by (auto simp: open_transaction_def)

lemma begin_transaction_wf:
  assumes "metadata_wf s"
  shows "metadata_wf (apply_begin_transaction ts tid pid epoch timeout s)"
proof -
  let ?t = "(case map_of (transactions s) tid of
      Some t \<Rightarrow> t | None \<Rightarrow> new_transaction tid pid epoch timeout (timestamp_millis ts))
        \<lparr>tx_producer_id := pid, tx_producer_epoch := epoch, tx_timeout_ms := timeout,
         tx_state := TxnEmpty, tx_partitions := [], tx_groups := [],
         tx_last_updated_ms := timestamp_millis ts\<rparr>"
  have "tx_transactional_id ?t = tid" "txn_settled ?t"
    using wf_get_transaction [OF assms, of tid]
    by (simp_all add: new_transaction_def txn_settled_def split: option.split)
  moreover have "metadata_wf (observe_producer_id pid s)" using assms by simp
  ultimately show ?thesis
    using wf_transactions [of "observe_producer_id pid s" ?t tid]
    by (simp add: apply_begin_transaction_def Let_def observe_producer_id_def)
qed

lemma txn_events_wf:
  assumes "metadata_wf s"
  shows "metadata_wf (apply_add_partitions ts tid pid ps s)"
    "metadata_wf (apply_add_offsets ts tid pid g s)"
    "metadata_wf (apply_prepare_commit ts tid pid s)"
    "metadata_wf (apply_prepare_abort ts tid pid s)"
    "metadata_wf (apply_commit_transaction ts tid pid s)"
    "metadata_wf (apply_abort_transaction ts tid pid s)"
    "metadata_wf (apply_producer_fenced ts tid pid epoch s)"
  using assms open_transaction_open
  unfolding apply_add_partitions_def apply_add_offsets_def apply_prepare_commit_def
    apply_prepare_abort_def apply_commit_transaction_def apply_abort_transaction_def
    apply_producer_fenced_def
  by (auto intro!: update_transaction_wf simp: txn_settled_def distinct_fold_insert)

lemma wf_get:
  assumes "metadata_wf s"
  shows "map_of (topics s) k = Some v \<Longrightarrow> tm_name v = k"
    "map_of (brokers s) j = Some w \<Longrightarrow> bm_broker_id w = j"
  using assms keyed_get [of tm_name "topics s" k v] keyed_get [of bm_broker_id "brokers s" j w]
  by (simp_all add: metadata_wf_def)

lemmas wf_update_simps = metadata_wf_def keyed_update distinct_retain distinct_insert

lemma catalog_events_wf:
  assumes "metadata_wf s"
  shows "metadata_wf (apply_topic_deleted name s)"
    "metadata_wf (apply_acl_created b s)"
    "metadata_wf (apply_acl_deleted b s)"
    "metadata_wf (apply_scram_upserted c s)"
    "metadata_wf (apply_scram_deleted u m s)"
    "metadata_wf (apply_partition_assigned a s)"
  using assms
  by (simp_all add: wf_update_simps apply_topic_deleted_def
      apply_acl_created_def apply_acl_deleted_def apply_scram_upserted_def apply_scram_deleted_def
      apply_partition_assigned_def)

lemma offset_events_wf:
  assumes "metadata_wf s"
  shows "metadata_wf (apply_high_watermark_updated t p hw s)"
    "metadata_wf (apply_log_start_offset_updated t p hw s)"
  using assms
  by (simp_all add: wf_update_simps apply_high_watermark_updated_def
      apply_log_start_offset_updated_def Let_def split: option.split)

lemma existing_entity_wf:
  assumes "metadata_wf s"
  shows "metadata_wf (apply_topic_updated ts name cfg s)"
    "metadata_wf (apply_broker_status_changed ts bid st s)"
  using assms wf_get [OF assms]
  by (auto simp: wf_topics wf_parts keyed_update apply_topic_updated_def split: option.split)
    (simp add: wf_update_simps apply_broker_status_changed_def split: option.split)

lemma entity_events_wf:
  assumes "metadata_wf s"
  shows "metadata_wf (apply_broker_registered b s)"
    "metadata_wf (apply_broker_removed bid s)"
    "metadata_wf (apply_offset_committed c s)"
    "metadata_wf (apply_consumer_offset_deleted g t p s)"
    "metadata_wf (apply_group_upserted cg s)"
    "metadata_wf (apply_group_deleted g s)"
    "metadata_wf (apply_segment_created sg s)"
    "metadata_wf (apply_segment_deleted t i s)"
    "metadata_wf (apply_parquet_created pq s)"
    "metadata_wf (apply_parquet_deleted t p i s)"
  using assms
  by (simp_all add: wf_update_simps apply_broker_registered_def
      apply_broker_removed_def apply_offset_committed_def apply_consumer_offset_deleted_def
      apply_group_upserted_def apply_group_deleted_def apply_segment_created_def
      apply_segment_deleted_def apply_parquet_created_def apply_parquet_deleted_def)

lemma apply_event_wf: "metadata_wf s \<Longrightarrow> metadata_wf (apply_event e s)"
  by (cases "payload e")
    (simp_all add: apply_event_def Let_def topic_created_wf begin_transaction_wf txn_events_wf
      catalog_events_wf offset_events_wf existing_entity_wf entity_events_wf)

lemma new_state_wf: "metadata_wf (new_metadata_state n)"
  by (simp add: metadata_wf_def new_metadata_state_def)

lemma fold_apply_wf: "metadata_wf s \<Longrightarrow> metadata_wf (fold apply_event es s)"
  by (induction es arbitrary: s) (simp_all add: apply_event_wf)


section \<open>Repeated events\<close>

lemma update_present: "map_of m k = Some v \<Longrightarrow> AList.update k v m = m"
  by (induction m) (auto split: if_splits)

lemma merge_config_keys: "map_of (merge_config c e) k \<noteq> None \<longleftrightarrow> map_of c k \<noteq> None \<or> map_of e k \<noteq> None"
  by (induction c arbitrary: e) (auto simp: merge_config_def hash_simps split: if_splits)

lemma merge_config_covered: "(\<And>kv. kv \<in> set c \<Longrightarrow> map_of e (fst kv) \<noteq> None) \<Longrightarrow> merge_config c e = e"
proof (induction c)
  case (Cons kv c)
  moreover from Cons.prems [of kv] have "or_insert (fst kv) (snd kv) e = e"
    by (auto simp: or_insert_def)
  ultimately show ?case by (simp add: merge_config_def split_beta)
qed (simp add: merge_config_def)

lemma covered_by_merge: "kv \<in> set c \<Longrightarrow> map_of (merge_config c e) (fst kv) \<noteq> None"
  unfolding merge_config_keys by (metis map_of_eq_None_iff image_eqI)

lemma merge_config_again: "merge_config c (merge_config c e) = merge_config c e"
  by (rule merge_config_covered) (rule covered_by_merge)

lemma merge_config_self: "merge_config c c = c"
  by (rule merge_config_covered) (metis map_of_eq_None_iff image_eqI)

lemma not_merges: "\<not> merges c (merge_config c e)" "\<not> merges c c"
  using covered_by_merge [of _ c e] by (auto simp: merges_def map_of_eq_None_iff)

lemma merge_topic_again: "merge_topic ts cfg (merge_topic ts cfg t) = merge_topic ts cfg t"
  by (simp add: merge_topic_def merge_config_again not_merges)

lemma merge_topic_self: "tm_config t = cfg \<Longrightarrow> merge_topic ts cfg t = t"
  by (simp add: merge_topic_def merge_config_self not_merges)

lemma merge_topic_fields [simp]:
  "auto_created (merge_topic ts cfg t) = auto_created t"
  "partition_count (tm_config (merge_topic ts cfg t)) = partition_count (tm_config t)"
  by (simp_all add: merge_topic_def)

lemma topic_created_twice:
  "apply_topic_created eid' ts name cfg auto (apply_topic_created eid ts name cfg auto s) =
   apply_topic_created eid ts name cfg auto s"
proof (cases "map_of (topics s) name")
  case None
  then show ?thesis
    by (simp add: apply_topic_created_def topic_created_again_def hash_simps merge_topic_self update_present)
next
  case (Some t)
  then show ?thesis
    by (simp add: apply_topic_created_def topic_created_again_def hash_simps merge_topic_self
        merge_topic_again update_present)
qed

lemma partition_assigned_twice:
  "apply_partition_assigned a (apply_partition_assigned a s) = apply_partition_assigned a s"
  by (simp add: apply_partition_assigned_def superseded_def hash_simps update_present split: option.split)

section \<open>Leader epochs\<close>

abbreviation assignment_of :: "metadata_state \<Rightarrow> partition_key \<Rightarrow> partition_assignment option" where
  "assignment_of s k \<equiv> map_of (partition_assignments s) k"

abbreviation assignment_key :: "partition_assignment \<Rightarrow> partition_key" where
  "assignment_key a \<equiv> (pa_topic a, pa_partition a)"

lemma assigned_get:
  "assignment_of (apply_partition_assigned a s) k =
     (if k = assignment_key a \<and> \<not> superseded a s then Some a else assignment_of s k)"
  by (simp add: apply_partition_assigned_def hash_simps)

lemma update_transaction_assignments [simp]:
  "partition_assignments (update_transaction ts tid f s) = partition_assignments s"
  by (simp add: update_transaction_def split: option.split)

lemma observe_assignments [simp]:
  "partition_assignments (observe_producer_id pid s) = partition_assignments s"
  by (simp add: observe_producer_id_def)

lemma topic_created_assignments [simp]:
  "partition_assignments (apply_topic_created eid ts name cfg auto s) = partition_assignments s"
  by (simp add: apply_topic_created_def topic_created_again_def split: option.split)

lemma transaction_assignments [simp]:
  "partition_assignments (apply_begin_transaction ts tid pid epoch timeout s) = partition_assignments s"
  "partition_assignments (apply_add_partitions ts tid pid ps s) = partition_assignments s"
  "partition_assignments (apply_add_offsets ts tid pid g s) = partition_assignments s"
  "partition_assignments (apply_prepare_commit ts tid pid s) = partition_assignments s"
  "partition_assignments (apply_prepare_abort ts tid pid s) = partition_assignments s"
  "partition_assignments (apply_commit_transaction ts tid pid s) = partition_assignments s"
  "partition_assignments (apply_abort_transaction ts tid pid s) = partition_assignments s"
  "partition_assignments (apply_producer_fenced ts tid pid epoch s) = partition_assignments s"
  by (simp_all add: apply_begin_transaction_def Let_def apply_add_partitions_def apply_add_offsets_def
      apply_prepare_commit_def apply_prepare_abort_def apply_commit_transaction_def
      apply_abort_transaction_def apply_producer_fenced_def)

lemma entity_assignments [simp]:
  "partition_assignments (apply_topic_updated ts name cfg s) = partition_assignments s"
  "partition_assignments (apply_acl_created b s) = partition_assignments s"
  "partition_assignments (apply_acl_deleted b s) = partition_assignments s"
  "partition_assignments (apply_scram_upserted c s) = partition_assignments s"
  "partition_assignments (apply_scram_deleted u m s) = partition_assignments s"
  "partition_assignments (apply_high_watermark_updated t p hw s) = partition_assignments s"
  "partition_assignments (apply_log_start_offset_updated t p hw s) = partition_assignments s"
  by (simp_all add: apply_topic_updated_def apply_acl_created_def apply_acl_deleted_def
      apply_scram_upserted_def apply_scram_deleted_def apply_high_watermark_updated_def
      apply_log_start_offset_updated_def Let_def split: option.split)

lemma other_assignments [simp]:
  "partition_assignments (apply_broker_registered br s) = partition_assignments s"
  "partition_assignments (apply_broker_status_changed ts bid st s) = partition_assignments s"
  "partition_assignments (apply_broker_removed bid s) = partition_assignments s"
  "partition_assignments (apply_offset_committed co s) = partition_assignments s"
  "partition_assignments (apply_consumer_offset_deleted g t p s) = partition_assignments s"
  "partition_assignments (apply_group_upserted cg s) = partition_assignments s"
  "partition_assignments (apply_group_deleted g s) = partition_assignments s"
  "partition_assignments (apply_segment_created sg s) = partition_assignments s"
  "partition_assignments (apply_segment_deleted t i s) = partition_assignments s"
  "partition_assignments (apply_parquet_created pq s) = partition_assignments s"
  "partition_assignments (apply_parquet_deleted t p i s) = partition_assignments s"
  by (simp_all add: apply_broker_registered_def apply_broker_status_changed_def
      apply_broker_removed_def apply_offset_committed_def apply_consumer_offset_deleted_def
      apply_group_upserted_def apply_group_deleted_def apply_segment_created_def
      apply_segment_deleted_def apply_parquet_created_def apply_parquet_deleted_def split: option.split)

text \<open>Only an assignment and a topic deletion touch the assignments.\<close>

lemma apply_event_assignments:
  "partition_assignments (apply_event e s) =
     (case payload e of
        PartitionAssigned a \<Rightarrow> partition_assignments (apply_partition_assigned a s)
      | TopicDeleted name \<Rightarrow> retain (\<lambda>k. fst k \<noteq> name) (partition_assignments s)
      | _ \<Rightarrow> partition_assignments s)"
  by (cases "payload e") (simp_all add: apply_event_def Let_def apply_topic_deleted_def)


definition delivered :: "metadata_event list \<Rightarrow> partition_key \<Rightarrow> partition_assignment list" where
  "delivered es k =
     concat (map (\<lambda>e. case payload e of
        PartitionAssigned a \<Rightarrow> if assignment_key a = k then [a] else [] | _ \<Rightarrow> []) es)"

definition deletes :: "string \<Rightarrow> metadata_event \<Rightarrow> bool" where
  "deletes t e \<longleftrightarrow> payload e = TopicDeleted t"

definition newest :: "partition_assignment set \<Rightarrow> partition_assignment option \<Rightarrow> bool" where
  "newest A b \<longleftrightarrow> (case b of None \<Rightarrow> A = {}
     | Some b \<Rightarrow> b \<in> A \<and> (\<forall>a\<in>A. pa_leader_epoch a \<le> pa_leader_epoch b))"

lemma delivered_simps [simp]:
  "delivered [] k = []"
  "delivered (es @ fs) k = delivered es k @ delivered fs k"
  by (simp_all add: delivered_def)

lemma newest_step:
  assumes "newest A (assignment_of s k)" and "\<not> deletes (fst k) e"
  shows "newest (A \<union> set (delivered [e] k)) (assignment_of (apply_event e s) k)"
proof (cases "\<exists>a. payload e = PartitionAssigned a \<and> assignment_key a = k")
  case True
  then obtain a where a: "payload e = PartitionAssigned a" "assignment_key a = k" by auto
  then have "apply_event e s = apply_partition_assigned a s" "set (delivered [e] k) = {a}"
    by (simp_all add: apply_event_def delivered_def)
  then show ?thesis
    using assms(1) a(2) by (auto simp: assigned_get superseded_def newest_def split: option.splits if_splits)
next
  case False
  have "assignment_of (apply_event e s) k = assignment_of s k"
    using False assms(2)
    by (cases "payload e") (auto simp: apply_event_assignments hash_simps assigned_get deletes_def)
  moreover have "delivered [e] k = []"
    using False by (auto simp: delivered_def split: metadata_payload.split)
  ultimately show ?thesis using assms(1) by simp
qed

lemma newest_fold:
  assumes "newest A (assignment_of s k)" and "\<And>e. e \<in> set es \<Longrightarrow> \<not> deletes (fst k) e"
  shows "newest (A \<union> set (delivered es k)) (assignment_of (fold apply_event es s) k)"
  using assms(2)
proof (induction es rule: rev_induct)
  case (snoc e es)
  then show ?case
    using newest_step [of "A \<union> set (delivered es k)" "fold apply_event es s" k e] by (simp add: Un_assoc)
qed (simp add: assms(1))

lemma newest_unique:
  assumes "newest A b" "newest A c" "inj_on pa_leader_epoch A"
  shows "b = c"
  using assms by (auto simp: newest_def inj_on_def split: option.splits) (meson order_antisym)


section \<open>Provenance of a topic\<close>

abbreviation topic_of :: "metadata_state \<Rightarrow> string \<Rightarrow> topic_metadata option" where
  "topic_of s name \<equiv> map_of (topics s) name"

definition auto_create :: "string \<Rightarrow> metadata_event \<Rightarrow> bool" where
  "auto_create name e \<longleftrightarrow> (\<exists>cfg. payload e = TopicCreated name cfg True)"

definition guessed :: "string \<Rightarrow> metadata_state \<Rightarrow> bool" where
  "guessed name s \<longleftrightarrow> (\<forall>t. topic_of s name = Some t \<longrightarrow> auto_created t)"

definition asked_for :: "string \<Rightarrow> topic_config \<Rightarrow> metadata_state \<Rightarrow> bool" where
  "asked_for name cfg s \<longleftrightarrow> (\<exists>t. topic_of s name = Some t \<and> \<not> auto_created t \<and>
     partition_count (tm_config t) = partition_count cfg \<and>
     (\<forall>k v. map_of (tc_config cfg) k = Some v \<longrightarrow> map_of (tc_config (tm_config t)) k = Some v))"

lemma merge_config_keeps: "map_of e k = Some v \<Longrightarrow> map_of (merge_config c e) k = Some v"
proof (induction c arbitrary: e)
  case (Cons kv c)
  then have "map_of (or_insert (fst kv) (snd kv) e) k = Some v" by (auto simp: hash_simps)
  with Cons.IH show ?case by (simp add: merge_config_def split_beta)
qed (simp add: merge_config_def)

lemma created_event: "payload e = TopicCreated name cfg auto \<Longrightarrow>
  apply_event e s = apply_topic_created (event_id e) (ev_timestamp e) name cfg auto s"
  by (simp add: apply_event_def)

lemma auto_create_guessed: "guessed name s \<Longrightarrow> auto_create name e \<Longrightarrow> guessed name (apply_event e s)"
  by (auto simp: guessed_def auto_create_def created_event apply_topic_created_def
      topic_created_again_def hash_simps split: option.splits if_splits)

lemma explicit_asked_for:
  assumes "guessed name s" and "payload e = TopicCreated name cfg False"
  shows "asked_for name cfg (apply_event e s)"
  unfolding created_event [OF assms(2)] using assms(1)
  by (cases "topic_of s name")
    (simp_all add: guessed_def asked_for_def apply_topic_created_def topic_created_again_def hash_simps)

lemma auto_create_asked_for:
  assumes "asked_for name cfg s" and "auto_create name e"
  shows "asked_for name cfg (apply_event e s)"
proof -
  obtain t where t: "topic_of s name = Some t" "\<not> auto_created t"
    "partition_count (tm_config t) = partition_count cfg"
    "\<And>k v. map_of (tc_config cfg) k = Some v \<Longrightarrow> map_of (tc_config (tm_config t)) k = Some v"
    using assms(1) by (auto simp: asked_for_def)
  obtain c where "payload e = TopicCreated name c True" using assms(2) by (auto simp: auto_create_def)
  then have "topic_of (apply_event e s) name = Some (merge_topic (ev_timestamp e) c t)"
    using t by (simp add: created_event apply_topic_created_def topic_created_again_def hash_simps)
  then show ?thesis
    using t by (simp add: asked_for_def) (simp add: merge_topic_def merge_config_keeps)
qed

text \<open>C35: Every event replayed into a fresh state leaves well-formed metadata: each map holds
  each key once and under the key its record names, no ACL rule is stored twice, and a
  transaction that is empty, committed or aborted has no partition or group enrolled.
\<close>

theorem replayed_metadata_wf: "metadata_wf (fold apply_event es (new_metadata_state n))"
  by (rule fold_apply_wf [OF new_state_wf])


definition sample_assignment :: "int \<Rightarrow> int \<Rightarrow> metadata_event" where
  "sample_assignment leader epoch =
     new_with_node (0, 0) (PartitionAssigned
       \<lparr>pa_topic = ''t'', pa_partition = 0, pa_broker_id = -1, pa_is_leader = False,
        pa_replicas = [1, 2], pa_leader_id = leader, pa_leader_epoch = epoch, pa_isr = [1, 2]\<rparr>) 1"

lemma sample_assignment_simps:
  "\<not> deletes t (sample_assignment l ep)"
  "delivered [sample_assignment l ep] (''t'', 0) =
     [\<lparr>pa_topic = ''t'', pa_partition = 0, pa_broker_id = -1, pa_is_leader = False,
       pa_replicas = [1, 2], pa_leader_id = l, pa_leader_epoch = ep, pa_isr = [1, 2]\<rparr>]"
  by (simp_all add: sample_assignment_def new_with_node_def deletes_def delivered_def)


text \<open>A topic created on request keeps the number of partitions that was asked for: among
  any automatic creations of the same topic before and after it, with any configs, the one
  explicit creation decides the partition count and every config key it set.
\<close>

theorem explicit_create_decides:
  assumes "guessed name s"
    and "\<And>e. e \<in> set before \<union> set after \<Longrightarrow> auto_create name e"
    and "payload x = TopicCreated name cfg False"
  shows "asked_for name cfg (fold apply_event (before @ x # after) s)"
proof -
  have "guessed name (fold apply_event before s)"
    using assms(1,2) by (induction before arbitrary: s) (auto intro: auto_create_guessed)
  then have "asked_for name cfg (apply_event x (fold apply_event before s))"
    using assms(3) by (rule explicit_asked_for)
  then have "asked_for name cfg (fold apply_event after (apply_event x (fold apply_event before s)))"
    if "\<And>e. e \<in> set after \<Longrightarrow> auto_create name e"
    using that by (induction after rule: rev_induct) (auto intro: auto_create_asked_for)
  then show ?thesis using assms(2) by simp
qed

definition sample_created :: "int \<Rightarrow> bool \<Rightarrow> metadata_event" where
  "sample_created n auto =
     new_with_node (7, 0) (TopicCreated ''t'' (default_topic_config\<lparr>partition_count := n\<rparr>) auto) 1"

theorem explicit_create_decides_witness:
  "asked_for ''t'' (default_topic_config\<lparr>partition_count := 1\<rparr>)
     (fold apply_event ([sample_created 3 True] @ sample_created 1 False # [sample_created 5 True])
        (new_metadata_state 1))"
  by (rule explicit_create_decides)
    (auto simp: guessed_def new_metadata_state_def auto_create_def sample_created_def new_with_node_def)

end
