(* ===== verification/Metadata_Store.thy ===== *)
theory Metadata_Store
  imports Metadata_State
begin

text \<open>
  The metadata store of a node (\<open>chronik-common/src/metadata/wal_metadata_store.rs\<close>):
  every change is an event that is appended to the metadata WAL, applied to the state and
  published to the other nodes. The JSON codec and the WAL append are given to the store
  by its environment, as are the event ids, the clock and the two environment variables
  that govern pruning; they are parameters of the model. An append that fails leaves the
  WAL as it was.
\<close>

section \<open>The store and its environment\<close>

datatype metadata_error = NotFound string | AlreadyExists string | StorageError string

record 'b store_env =
  json_to_vec :: "metadata_event \<Rightarrow> 'b option"
  json_from_slice :: "'b \<Rightarrow> metadata_event option"
  bincode_deserialize :: "'b \<Rightarrow> metadata_event option"
  append_ok :: "nat \<Rightarrow> bool"
  stamp :: "nat \<Rightarrow> uuid \<times> timestamp"
  prune_off :: bool
  exceeds_max_fraction :: "nat \<Rightarrow> nat \<Rightarrow> bool"

record 'b store =
  st_node_id :: node_id
  st_state :: metadata_state
  wal :: "'b list"
  appends :: nat
  clock :: nat
  bus_wired :: bool
  published :: "metadata_event list"
  warned :: "metadata_event list"

type_synonym ('b, 'a) store_op = "'b store \<Rightarrow> (metadata_error + 'a) \<times> 'b store"

definition op_return :: "'a \<Rightarrow> ('b, 'a) store_op" where
  "op_return x st = (Inr x, st)"

definition op_fail :: "metadata_error \<Rightarrow> ('b, 'a) store_op" where
  "op_fail e st = (Inl e, st)"

definition op_bind :: "('b, 'a) store_op \<Rightarrow> ('a \<Rightarrow> ('b, 'c) store_op) \<Rightarrow> ('b, 'c) store_op" where
  "op_bind m f st = (case m st of (Inl e, st') \<Rightarrow> (Inl e, st') | (Inr x, st') \<Rightarrow> f x st')"

fun op_each :: "('x \<Rightarrow> ('b, unit) store_op) \<Rightarrow> 'x list \<Rightarrow> ('b, unit) store_op" where
  "op_each f [] = op_return ()"
| "op_each f (x # xs) = op_bind (f x) (\<lambda>_. op_each f xs)"

definition event_to_bytes :: "'b store_env \<Rightarrow> metadata_event \<Rightarrow> 'b option" where
  "event_to_bytes env e = json_to_vec env e"

definition from_bytes_event :: "'b store_env \<Rightarrow> 'b \<Rightarrow> metadata_event option" where
  "from_bytes_event env b =
     (case json_from_slice env b of Some e \<Rightarrow> Some e | None \<Rightarrow> bincode_deserialize env b)"

definition new_store :: "node_id \<Rightarrow> bool \<Rightarrow> 'b store" where
  "new_store n wired =
     \<lparr>st_node_id = n, st_state = new_metadata_state n, wal = [], appends = 0, clock = 0,
      bus_wired = wired, published = [], warned = []\<rparr>"

section \<open>Writing an event\<close>

definition wal_append :: "'b store_env \<Rightarrow> 'b \<Rightarrow> ('b, unit) store_op" where
  "wal_append env b st =
     (if append_ok env (appends st)
      then (Inr (), st\<lparr>wal := wal st @ [b], appends := Suc (appends st)\<rparr>)
      else (Inl (StorageError ''WAL write failed''), st\<lparr>appends := Suc (appends st)\<rparr>))"

definition apply_local :: "metadata_event \<Rightarrow> ('b, unit) store_op" where
  "apply_local e st = (Inr (), st\<lparr>st_state := apply_event e (st_state st)\<rparr>)"

definition publish :: "metadata_event \<Rightarrow> 'b store \<Rightarrow> 'b store" where
  "publish e st = (if bus_wired st then st\<lparr>published := published st @ [e]\<rparr> else st)"

definition write_and_apply :: "'b store_env \<Rightarrow> metadata_event \<Rightarrow> ('b, unit) store_op" where
  "write_and_apply env e st =
     (case event_to_bytes env e of
        None \<Rightarrow> (Inl (StorageError ''Failed to serialize event''), st)
      | Some b \<Rightarrow>
        op_bind (wal_append env b)
          (\<lambda>_. op_bind (apply_local e)
            (\<lambda>_ st'. (Inr (), if replicate_to_followers (payload e) then publish e st' else st'))) st)"

definition emit_as :: "'b store_env \<Rightarrow> node_id \<Rightarrow> metadata_payload \<Rightarrow> ('b, unit) store_op" where
  "emit_as env n p st =
     write_and_apply env (new_with_node (stamp env (clock st)) p n) (st\<lparr>clock := Suc (clock st)\<rparr>)"

text \<open>\<open>MetadataEvent::new_with_node\<close> with the node's id, and \<open>MetadataEvent::new\<close>.\<close>

definition emit :: "'b store_env \<Rightarrow> metadata_payload \<Rightarrow> ('b, unit) store_op" where
  "emit env p st = emit_as env (st_node_id st) p st"

definition emit_anonymous :: "'b store_env \<Rightarrow> metadata_payload \<Rightarrow> ('b, unit) store_op" where
  "emit_anonymous env p = emit_as env 0 p"

section \<open>Reconciliation and replication\<close>

definition internal :: "string \<Rightarrow> bool" where
  "internal name \<longleftrightarrow> take 2 name = ''__''"

definition public_topics :: "metadata_state \<Rightarrow> string list" where
  "public_topics s = filter (\<lambda>name. \<not> internal name) (map fst (topics s))"

definition stale_topics :: "string list \<Rightarrow> metadata_state \<Rightarrow> string list" where
  "stale_topics keep s = filter (\<lambda>name. \<not> internal name \<and> name \<notin> set keep) (map fst (topics s))"

definition prune_topic :: "'b store_env \<Rightarrow> string \<Rightarrow> 'b store \<Rightarrow> 'b store" where
  "prune_topic env name st = snd (emit env (TopicDeleted name) st)"

definition reconcile_catalog :: "'b store_env \<Rightarrow> string list \<Rightarrow> timestamp \<Rightarrow> 'b store \<Rightarrow> 'b store" where
  "reconcile_catalog env authoritative at st =
     (if prune_off env then st
      else if authoritative = [] then st
      else if (case last_catalog_snapshot (st_state st) of Some prev \<Rightarrow> at \<le> prev | None \<Rightarrow> False) then st
      else
        let st1 = st\<lparr>st_state := (st_state st)\<lparr>last_catalog_snapshot := Some at\<rparr>\<rparr>;
            stale = stale_topics authoritative (st_state st1);
            local_total = length (public_topics (st_state st1))
        in if stale = [] then st1
           else if 0 < local_total \<and> exceeds_max_fraction env (length stale) local_total then st1
           else fold (prune_topic env) stale st1)"

definition apply_replicated_event :: "'b store_env \<Rightarrow> metadata_event \<Rightarrow> ('b, unit) store_op" where
  "apply_replicated_event env e st =
     (case payload e of
        CatalogSnapshot names \<Rightarrow> (Inr (), reconcile_catalog env names (ev_timestamp e) st)
      | _ \<Rightarrow>
        (case event_to_bytes env e of
           None \<Rightarrow> (Inl (StorageError ''Failed to serialize replicated event''), st)
         | Some b \<Rightarrow>
           (case wal_append env b st of
              (Inl _, st') \<Rightarrow> apply_local e (st'\<lparr>warned := warned st' @ [e]\<rparr>)
            | (Inr _, st') \<Rightarrow> apply_local e st')))"

definition replay_events :: "metadata_event list \<Rightarrow> 'b store \<Rightarrow> 'b store" where
  "replay_events es st = st\<lparr>st_state := fold apply_event es (st_state st)\<rparr>"

definition recovered_events :: "'b store_env \<Rightarrow> 'b list \<Rightarrow> metadata_event list" where
  "recovered_events env w = List.map_filter (from_bytes_event env) w"

definition broadcast_catalog_snapshot :: "'b store_env \<Rightarrow> 'b store \<Rightarrow> nat \<times> 'b store" where
  "broadcast_catalog_snapshot env st =
     (if \<not> bus_wired st then (0, st)
      else
        let names = public_topics (st_state st);
            settled = (last_snapshot_size (st_state st) = Some (length names));
            st1 = st\<lparr>st_state := (st_state st)\<lparr>last_snapshot_size := Some (length names)\<rparr>\<rparr>
        in if names = [] then (0, st)
           else if \<not> settled then (0, st1)
           else (length names,
             publish (new_with_node (stamp env (clock st1)) (CatalogSnapshot names) (st_node_id st1))
               (st1\<lparr>clock := Suc (clock st1)\<rparr>)))"

definition publish_fresh :: "'b store_env \<Rightarrow> metadata_payload \<Rightarrow> 'b store \<Rightarrow> 'b store" where
  "publish_fresh env p st =
     publish (new_with_node (stamp env (clock st)) p (st_node_id st)) (st\<lparr>clock := Suc (clock st)\<rparr>)"

definition broadcast_all_topics :: "'b store_env \<Rightarrow> 'b store \<Rightarrow> nat \<times> 'b store" where
  "broadcast_all_topics env st =
     (if \<not> bus_wired st then (0, st)
      else
        let ts = filter (\<lambda>e. \<not> internal (fst e)) (topics (st_state st));
            pas = filter (\<lambda>e. \<not> internal (pa_topic (snd e))) (partition_assignments (st_state st));
            st1 = fold (\<lambda>e. publish_fresh env (TopicCreated (fst e) (tm_config (snd e)) (auto_created (snd e)))) ts st;
            st2 = fold (\<lambda>e. publish_fresh env (PartitionAssigned (snd e))) pas st1
        in (length ts, st2))"

section \<open>Topics, segments and brokers\<close>

definition create_topic_inner ::
  "'b store_env \<Rightarrow> string \<Rightarrow> topic_config \<Rightarrow> bool \<Rightarrow> ('b, topic_metadata) store_op" where
  "create_topic_inner env name cfg auto st =
     (if topic_of (st_state st) name \<noteq> None then (Inl (AlreadyExists name), st)
      else op_bind (emit env (TopicCreated name cfg auto))
        (\<lambda>_ st'. case topic_of (st_state st') name of
            None \<Rightarrow> (Inl (NotFound name), st') | Some t \<Rightarrow> (Inr t, st')) st)"

definition create_topic :: "'b store_env \<Rightarrow> string \<Rightarrow> topic_config \<Rightarrow> ('b, topic_metadata) store_op" where
  "create_topic env name cfg = create_topic_inner env name cfg False"

definition auto_create_topic :: "'b store_env \<Rightarrow> string \<Rightarrow> topic_config \<Rightarrow> ('b, topic_metadata) store_op" where
  "auto_create_topic env name cfg = create_topic_inner env name cfg True"

definition get_topic :: "string \<Rightarrow> 'b store \<Rightarrow> topic_metadata option" where
  "get_topic name st = map_of (topics (st_state st)) name"

definition list_topics :: "'b store \<Rightarrow> topic_metadata list" where
  "list_topics st = map snd (topics (st_state st))"

definition update_topic :: "'b store_env \<Rightarrow> string \<Rightarrow> topic_config \<Rightarrow> ('b, topic_metadata) store_op" where
  "update_topic env name cfg =
     op_bind (emit env (TopicUpdated name cfg))
       (\<lambda>_ st'. case topic_of (st_state st') name of
           None \<Rightarrow> (Inl (NotFound name), st') | Some t \<Rightarrow> (Inr t, st'))"

definition delete_topic :: "'b store_env \<Rightarrow> string \<Rightarrow> ('b, unit) store_op" where
  "delete_topic env name = emit env (TopicDeleted name)"

definition create_acl :: "'b store_env \<Rightarrow> acl_binding_record \<Rightarrow> ('b, unit) store_op" where
  "create_acl env b = emit env (AclCreated b)"

definition delete_acl :: "'b store_env \<Rightarrow> acl_binding_record \<Rightarrow> ('b, unit) store_op" where
  "delete_acl env b = emit env (AclDeleted b)"

definition list_acls :: "'b store \<Rightarrow> acl_binding_record list" where
  "list_acls st = acls (st_state st)"

definition upsert_scram_credential :: "'b store_env \<Rightarrow> scram_credential_record \<Rightarrow> ('b, unit) store_op" where
  "upsert_scram_credential env c = emit env (ScramCredentialUpserted c)"

definition delete_scram_credential :: "'b store_env \<Rightarrow> string \<Rightarrow> int \<Rightarrow> ('b, unit) store_op" where
  "delete_scram_credential env u m = emit env (ScramCredentialDeleted u m)"

definition list_scram_credentials :: "'b store \<Rightarrow> scram_credential_record list" where
  "list_scram_credentials st = map snd (scram_credentials (st_state st))"

definition persist_segment_metadata :: "'b store_env \<Rightarrow> segment_metadata \<Rightarrow> ('b, unit) store_op" where
  "persist_segment_metadata env m = emit env (SegmentCreated m)"

definition get_segment_metadata :: "topic \<Rightarrow> string \<Rightarrow> 'b store \<Rightarrow> segment_metadata option" where
  "get_segment_metadata t i st = map_of (ms_segments (st_state st)) (t, i)"

definition list_segments :: "topic \<Rightarrow> int option \<Rightarrow> 'b store \<Rightarrow> segment_metadata list" where
  "list_segments t p st =
     filter (\<lambda>m. sg_topic m = t \<and> (p = None \<or> p = Some (sg_partition m))) (map snd (ms_segments (st_state st)))"

definition delete_segment :: "'b store_env \<Rightarrow> topic \<Rightarrow> string \<Rightarrow> ('b, unit) store_op" where
  "delete_segment env t i = emit env (SegmentDeleted t 0 i)"

definition persist_parquet_segment :: "'b store_env \<Rightarrow> parquet_segment_metadata \<Rightarrow> ('b, unit) store_op" where
  "persist_parquet_segment env m = emit env (ParquetSegmentCreated m)"

definition get_parquet_segment :: "topic \<Rightarrow> int \<Rightarrow> string \<Rightarrow> 'b store \<Rightarrow> parquet_segment_metadata option" where
  "get_parquet_segment t p i st = map_of (parquet_segments (st_state st)) (t, p, i)"

definition list_parquet_segments :: "topic \<Rightarrow> int option \<Rightarrow> 'b store \<Rightarrow> parquet_segment_metadata list" where
  "list_parquet_segments t p st =
     filter (\<lambda>m. pq_topic m = t \<and> (p = None \<or> p = Some (pq_partition m))) (map snd (parquet_segments (st_state st)))"

definition get_parquet_paths :: "topic \<Rightarrow> 'b store \<Rightarrow> string list" where
  "get_parquet_paths t st =
     sort (map object_store_path (filter (\<lambda>m. pq_topic m = t) (map snd (parquet_segments (st_state st)))))"

definition delete_parquet_segment :: "'b store_env \<Rightarrow> topic \<Rightarrow> int \<Rightarrow> string \<Rightarrow> ('b, unit) store_op" where
  "delete_parquet_segment env t p i = emit env (ParquetSegmentDeleted t p i)"

definition register_broker :: "'b store_env \<Rightarrow> broker_metadata \<Rightarrow> ('b, unit) store_op" where
  "register_broker env b = emit env (BrokerRegistered b)"

definition get_broker :: "int \<Rightarrow> 'b store \<Rightarrow> broker_metadata option" where
  "get_broker b st = map_of (brokers (st_state st)) b"

definition list_brokers :: "'b store \<Rightarrow> broker_metadata list" where
  "list_brokers st = map snd (brokers (st_state st))"

definition update_broker_status :: "'b store_env \<Rightarrow> int \<Rightarrow> broker_status \<Rightarrow> ('b, unit) store_op" where
  "update_broker_status env b s = emit env (BrokerStatusChanged b s)"

section \<open>Partitions\<close>

definition inherit_isr :: "partition_assignment option \<Rightarrow> partition_assignment \<Rightarrow> partition_assignment" where
  "inherit_isr previous a =
     (if pa_isr a = [] then (case previous of Some p \<Rightarrow> a\<lparr>pa_isr := pa_isr p\<rparr> | None \<Rightarrow> a) else a)"

definition next_leader_epoch :: "partition_assignment option \<Rightarrow> node_id \<Rightarrow> int" where
  "next_leader_epoch previous leader =
     (case previous of
        Some p \<Rightarrow> if pa_leader_id p = leader then pa_leader_epoch p
                 else min (2 ^ 31 - 1) (pa_leader_epoch p + 1)
      | None \<Rightarrow> 0)"

definition assign_partition :: "'b store_env \<Rightarrow> partition_assignment \<Rightarrow> ('b, unit) store_op" where
  "assign_partition env a st =
     (let previous = assignment_of (st_state st) (pa_topic a, pa_partition a);
          a' = inherit_isr previous a
      in emit env (PartitionAssigned (a'\<lparr>pa_leader_epoch := next_leader_epoch previous (pa_leader_id a')\<rparr>)) st)"

definition get_partition_assignments :: "topic \<Rightarrow> 'b store \<Rightarrow> partition_assignment list" where
  "get_partition_assignments t st =
     map snd (filter (\<lambda>e. fst (fst e) = t) (partition_assignments (st_state st)))"

definition get_partition_leader :: "topic \<Rightarrow> int \<Rightarrow> 'b store \<Rightarrow> int option" where
  "get_partition_leader t p st = map_option (\<lambda>a. swrap 32 (pa_leader_id a)) (assignment_of (st_state st) (t, p))"

definition get_partition_leader_epoch :: "topic \<Rightarrow> int \<Rightarrow> 'b store \<Rightarrow> int option" where
  "get_partition_leader_epoch t p st = map_option pa_leader_epoch (assignment_of (st_state st) (t, p))"

definition get_partition_replicas :: "topic \<Rightarrow> int \<Rightarrow> 'b store \<Rightarrow> int list option" where
  "get_partition_replicas t p st =
     map_option (\<lambda>a. map (swrap 32) (pa_replicas a)) (assignment_of (st_state st) (t, p))"

definition get_partition_offset :: "topic \<Rightarrow> int \<Rightarrow> 'b store \<Rightarrow> (int \<times> int) option" where
  "get_partition_offset t p st = map_of (partition_offsets (st_state st)) (t, p)"

definition raise_log_start :: "partition_key \<Rightarrow> int \<Rightarrow> int \<Rightarrow> 'b store \<Rightarrow> 'b store" where
  "raise_log_start key hw lso st =
     (let offs = partition_offsets (st_state st) in
      case map_of offs key of
        Some (h, cur) \<Rightarrow>
          (if cur < lso then st\<lparr>st_state := (st_state st)\<lparr>partition_offsets := AList.update key (h, lso) offs\<rparr>\<rparr>
           else st)
      | None \<Rightarrow> st\<lparr>st_state := (st_state st)\<lparr>partition_offsets := AList.update key (hw, lso) offs\<rparr>\<rparr>)"

definition update_partition_offset ::
  "'b store_env \<Rightarrow> topic \<Rightarrow> int \<Rightarrow> int \<Rightarrow> int \<Rightarrow> ('b, unit) store_op" where
  "update_partition_offset env t p hw lso st =
     (let watermark_changed =
            (case map_of (partition_offsets (st_state st)) (t, p) of
               Some (current, _) \<Rightarrow> current \<noteq> hw | None \<Rightarrow> True)
      in op_bind (if watermark_changed then emit env (HighWatermarkUpdated t (swrap 32 p) hw) else op_return ())
           (\<lambda>_ st'. (Inr (), raise_log_start (t, p) hw lso st')) st)"

definition update_log_start_offset :: "'b store_env \<Rightarrow> topic \<Rightarrow> int \<Rightarrow> int \<Rightarrow> ('b, int) store_op" where
  "update_log_start_offset env t p lso st =
     (let (should_write, effective) =
            (case map_of (partition_offsets (st_state st)) (t, p) of
               Some (_, current) \<Rightarrow> if current < lso then (True, lso) else (False, current)
             | None \<Rightarrow> (True, lso))
      in op_bind (if should_write then emit env (LogStartOffsetUpdated t (swrap 32 p) lso) else op_return ())
           (\<lambda>_. op_return effective) st)"

definition with_assignments_inner ::
  "'b store_env \<Rightarrow> string \<Rightarrow> topic_config \<Rightarrow> partition_assignment list \<Rightarrow> (int \<times> int \<times> int) list \<Rightarrow> bool
    \<Rightarrow> ('b, topic_metadata) store_op" where
  "with_assignments_inner env name cfg as offs auto =
     op_bind (create_topic_inner env name cfg auto) (\<lambda>t.
     op_bind (op_each (assign_partition env) as) (\<lambda>_.
     op_bind (op_each (\<lambda>(p, hw, lso).
        if hw \<noteq> 0 \<or> lso \<noteq> 0 then update_partition_offset env name p hw lso else op_return ()) offs) (\<lambda>_.
     op_return t)))"

definition create_topic_with_assignments ::
  "'b store_env \<Rightarrow> string \<Rightarrow> topic_config \<Rightarrow> partition_assignment list \<Rightarrow> (int \<times> int \<times> int) list
    \<Rightarrow> ('b, topic_metadata) store_op" where
  "create_topic_with_assignments env name cfg as offs = with_assignments_inner env name cfg as offs False"

definition auto_create_topic_with_assignments ::
  "'b store_env \<Rightarrow> string \<Rightarrow> topic_config \<Rightarrow> partition_assignment list \<Rightarrow> (int \<times> int \<times> int) list
    \<Rightarrow> ('b, topic_metadata) store_op" where
  "auto_create_topic_with_assignments env name cfg as offs = with_assignments_inner env name cfg as offs True"

section \<open>Groups and offsets\<close>

definition create_consumer_group :: "'b store_env \<Rightarrow> consumer_group_metadata \<Rightarrow> ('b, unit) store_op" where
  "create_consumer_group env g = emit env (ConsumerGroupCreated g)"

definition get_consumer_group :: "string \<Rightarrow> 'b store \<Rightarrow> consumer_group_metadata option" where
  "get_consumer_group g st = map_of (consumer_groups (st_state st)) g"

definition list_consumer_groups :: "'b store \<Rightarrow> consumer_group_metadata list" where
  "list_consumer_groups st = map snd (consumer_groups (st_state st))"

definition update_consumer_group :: "'b store_env \<Rightarrow> consumer_group_metadata \<Rightarrow> ('b, unit) store_op" where
  "update_consumer_group env g = emit env (ConsumerGroupUpdated g)"

definition delete_consumer_group :: "'b store_env \<Rightarrow> string \<Rightarrow> ('b, unit) store_op" where
  "delete_consumer_group env g = emit env (ConsumerGroupDeleted g)"

definition commit_offset :: "'b store_env \<Rightarrow> consumer_offset \<Rightarrow> ('b, unit) store_op" where
  "commit_offset env c = emit env (OffsetCommitted c)"

definition get_consumer_offset :: "string \<Rightarrow> topic \<Rightarrow> int \<Rightarrow> 'b store \<Rightarrow> consumer_offset option" where
  "get_consumer_offset g t p st = map_of (consumer_offsets (st_state st)) (g, t, p)"

definition delete_consumer_offsets :: "'b store_env \<Rightarrow> string \<Rightarrow> partition_key list \<Rightarrow> ('b, unit) store_op" where
  "delete_consumer_offsets env g tps st =
     (let targets = (if tps = []
            then map snd (filter (\<lambda>k. fst k = g) (map fst (consumer_offsets (st_state st)))) else tps)
      in op_each (\<lambda>(t, p). emit env (ConsumerOffsetDeleted g t p)) targets st)"

definition commit_transactional_offsets ::
  "'b store_env \<Rightarrow> timestamp \<Rightarrow> string \<Rightarrow> (topic \<times> int \<times> int \<times> string option) list \<Rightarrow> ('b, unit) store_op" where
  "commit_transactional_offsets env now g offs =
     op_each (\<lambda>(t, p, off, meta). commit_offset env
        \<lparr>co_group_id = g, co_topic = t, co_partition = p, co_offset = off, co_metadata = meta,
         co_commit_timestamp = now\<rparr>) offs"

section \<open>Transactions\<close>

definition allocate_producer_id :: "('b, int) store_op" where
  "allocate_producer_id st =
     (let n = next_producer_id (st_state st)
      in (Inr n, st\<lparr>st_state := (st_state st)\<lparr>next_producer_id := swrap 64 (n + 1)\<rparr>\<rparr>))"

definition get_transaction :: "string \<Rightarrow> 'b store \<Rightarrow> transaction_metadata option" where
  "get_transaction tid st = map_of (transactions (st_state st)) tid"

definition begin_transaction :: "'b store_env \<Rightarrow> string \<Rightarrow> int \<Rightarrow> int \<Rightarrow> int \<Rightarrow> ('b, unit) store_op" where
  "begin_transaction env tid pid epoch timeout = emit_anonymous env (BeginTransaction tid pid epoch timeout)"

definition add_partitions_to_transaction ::
  "'b store_env \<Rightarrow> string \<Rightarrow> int \<Rightarrow> int \<Rightarrow> partition_key list \<Rightarrow> ('b, unit) store_op" where
  "add_partitions_to_transaction env tid pid epoch ps =
     emit_anonymous env (AddPartitionsToTransaction tid pid epoch ps)"

definition add_offsets_to_transaction :: "'b store_env \<Rightarrow> string \<Rightarrow> int \<Rightarrow> int \<Rightarrow> string \<Rightarrow> ('b, unit) store_op" where
  "add_offsets_to_transaction env tid pid epoch g = emit_anonymous env (AddOffsetsToTransaction tid pid epoch g)"

definition prepare_commit_transaction :: "'b store_env \<Rightarrow> string \<Rightarrow> int \<Rightarrow> int \<Rightarrow> ('b, unit) store_op" where
  "prepare_commit_transaction env tid pid epoch = emit_anonymous env (PrepareCommit tid pid epoch)"

definition enrolled :: "string \<Rightarrow> 'b store \<Rightarrow> partition_key list" where
  "enrolled tid st = (case get_transaction tid st of None \<Rightarrow> [] | Some t \<Rightarrow> tx_partitions t)"

definition commit_transaction :: "'b store_env \<Rightarrow> string \<Rightarrow> int \<Rightarrow> int \<Rightarrow> ('b, unit) store_op" where
  "commit_transaction env tid pid epoch st =
     emit_anonymous env (CommitTransaction tid pid epoch (enrolled tid st) []) st"

definition abort_transaction :: "'b store_env \<Rightarrow> string \<Rightarrow> int \<Rightarrow> int \<Rightarrow> ('b, unit) store_op" where
  "abort_transaction env tid pid epoch st =
     emit_anonymous env (AbortTransaction tid pid epoch (enrolled tid st)) st"

definition fence_producer :: "'b store_env \<Rightarrow> string \<Rightarrow> int \<Rightarrow> int \<Rightarrow> int \<Rightarrow> int \<Rightarrow> ('b, unit) store_op" where
  "fence_producer env tid old_pid old_epoch new_pid new_epoch =
     emit_anonymous env (ProducerFenced tid old_pid old_epoch new_pid new_epoch)"


section \<open>Recovery\<close>

text \<open>
  \<open>recovers r l\<close>: the recovered state \<open>r\<close> agrees with the live state \<open>l\<close> on every map,
  except that its log start offsets may be smaller. The allocator of producer ids and the
  bookkeeping of catalog snapshots are not compared.
\<close>

definition offsets_below :: "(partition_key \<times> int \<times> int) list \<Rightarrow> (partition_key \<times> int \<times> int) list \<Rightarrow> bool" where
  "offsets_below r l = list_all2 (\<lambda>(k, h, s) (k', h', s'). k = k' \<and> h = h' \<and> s \<le> s') r l"

definition recovers :: "metadata_state \<Rightarrow> metadata_state \<Rightarrow> bool" where
  "recovers r l \<longleftrightarrow>
     topics r = topics l \<and> brokers r = brokers l \<and> consumer_groups r = consumer_groups l \<and>
     consumer_offsets r = consumer_offsets l \<and> partition_assignments r = partition_assignments l \<and>
     ms_segments r = ms_segments l \<and> offsets_below (partition_offsets r) (partition_offsets l) \<and>
     parquet_segments r = parquet_segments l \<and> transactions r = transactions l \<and>
     acls r = acls l \<and>
     scram_credentials r = scram_credentials l"

lemma offsets_below_refl [simp]: "offsets_below m m"
  unfolding offsets_below_def by (rule list.rel_refl) auto

lemma offsets_below_get:
  "offsets_below r l \<Longrightarrow>
     (map_of r k = None \<and> map_of l k = None) \<or>
     (\<exists>h s s'. map_of r k = Some (h, s) \<and> map_of l k = Some (h, s') \<and> s \<le> s')"
  unfolding offsets_below_def by (induction rule: list_all2_induct) auto

lemma offsets_below_update:
  "offsets_below r l \<Longrightarrow> s \<le> s' \<Longrightarrow> offsets_below (AList.update k (h, s) r) (AList.update k (h, s') l)"
  unfolding offsets_below_def by (induction rule: list_all2_induct) auto

lemma offsets_below_retain: "offsets_below r l \<Longrightarrow> offsets_below (retain P r) (retain P l)"
  unfolding offsets_below_def retain_def by (induction rule: list_all2_induct) auto

lemma offsets_below_or_insert:
  assumes "offsets_below r l"
  shows "offsets_below (or_insert k v r) (or_insert k v l)"
  using assms offsets_below_get [OF assms, of k]
  by (auto simp: or_insert_def offsets_below_def intro!: list_all2_appendI)

lemma offsets_below_fold:
  assumes "\<And>x r l. offsets_below r l \<Longrightarrow> offsets_below (f x r) (f x l)"
  shows "offsets_below r l \<Longrightarrow> offsets_below (fold f xs r) (fold f xs l)"
  by (induction xs arbitrary: r l) (simp_all add: assms)

lemma offsets_below_topics:
  "offsets_below r l \<Longrightarrow> offsets_below (init_offsets t lo hi r) (init_offsets t lo hi l)"
  "offsets_below r l \<Longrightarrow> offsets_below (reset_offsets t n r) (reset_offsets t n l)"
  unfolding init_offsets_def reset_offsets_def
  by (rule offsets_below_fold; simp add: offsets_below_or_insert offsets_below_update)+

text \<open>An entry that only one side raises.\<close>

lemma offsets_below_raise_left:
  assumes "offsets_below r l" and "map_of l k = Some (h, s')" and "s \<le> s'"
  shows "offsets_below (AList.update k (h, s) r) l"
  using offsets_below_update [OF assms(1,3), of k h] assms(2) by (simp add: update_present)

lemma offsets_below_raise_right:
  assumes "offsets_below r l" and "map_of l k = Some (h, s)" and "s \<le> s'"
  shows "offsets_below r (AList.update k (h, s') l)"
proof -
  obtain s0 where "map_of r k = Some (h, s0)" "s0 \<le> s"
    using offsets_below_get [OF assms(1), of k] assms(2) by auto
  then show ?thesis
    using offsets_below_update [OF assms(1), of s0 s' k h] assms(3) by (simp add: update_present)
qed

lemma recovers_topic_created:
  "recovers r l \<Longrightarrow> recovers (apply_topic_created eid ts name cfg auto r) (apply_topic_created eid ts name cfg auto l)"
  by (cases "topic_of l name")
    (simp_all add: recovers_def apply_topic_created_def topic_created_again_def offsets_below_topics)

lemma recovers_high_watermark:
  assumes "recovers r l"
  shows "recovers (apply_high_watermark_updated t p hw r) (apply_high_watermark_updated t p hw l)"
proof -
  have below: "offsets_below (partition_offsets r) (partition_offsets l)" using assms by (simp add: recovers_def)
  from offsets_below_get [OF this, of "(t, uwrap 32 p)"]
  show ?thesis
    using assms below
    by (elim disjE exE conjE)
      (simp_all add: recovers_def apply_high_watermark_updated_def Let_def offsets_below_update)
qed

lemma recovers_log_start:
  assumes "recovers r l"
  shows "recovers (apply_log_start_offset_updated t p new r) (apply_log_start_offset_updated t p new l)"
proof -
  have below: "offsets_below (partition_offsets r) (partition_offsets l)" using assms by (simp add: recovers_def)
  from offsets_below_get [OF this, of "(t, uwrap 32 p)"]
  show ?thesis
    using assms below
    by (elim disjE exE conjE)
      (simp_all add: recovers_def apply_log_start_offset_updated_def Let_def offsets_below_update
        offsets_below_raise_left)
qed

lemma recovers_observe: "recovers r l \<Longrightarrow> recovers (observe_producer_id pid r) (observe_producer_id pid l)"
  by (auto simp: recovers_def observe_producer_id_def)

lemma recovers_update_transaction:
  "recovers r l \<Longrightarrow> recovers (update_transaction ts tid f r) (update_transaction ts tid f l)"
  by (cases "map_of (transactions l) tid") (simp_all add: recovers_def update_transaction_def)

lemma recovers_begin:
  assumes "recovers r l"
  shows "recovers (apply_begin_transaction ts tid pid epoch timeout r) (apply_begin_transaction ts tid pid epoch timeout l)"
  using recovers_observe [OF assms, of pid] by (simp add: recovers_def apply_begin_transaction_def Let_def)

lemma recovers_transactions:
  assumes "recovers r l"
  shows "recovers (apply_add_partitions ts tid pid ps r) (apply_add_partitions ts tid pid ps l)"
    "recovers (apply_add_offsets ts tid pid g r) (apply_add_offsets ts tid pid g l)"
    "recovers (apply_prepare_commit ts tid pid r) (apply_prepare_commit ts tid pid l)"
    "recovers (apply_prepare_abort ts tid pid r) (apply_prepare_abort ts tid pid l)"
    "recovers (apply_commit_transaction ts tid pid r) (apply_commit_transaction ts tid pid l)"
    "recovers (apply_abort_transaction ts tid pid r) (apply_abort_transaction ts tid pid l)"
    "recovers (apply_producer_fenced ts tid pid epoch r) (apply_producer_fenced ts tid pid epoch l)"
  unfolding apply_add_partitions_def apply_add_offsets_def apply_prepare_commit_def
    apply_prepare_abort_def apply_commit_transaction_def apply_abort_transaction_def
    apply_producer_fenced_def
  by (intro recovers_update_transaction recovers_observe assms)+

lemma recovers_catalog:
  assumes "recovers r l"
  shows "recovers (apply_topic_deleted name r) (apply_topic_deleted name l)"
    "recovers (apply_topic_updated ts name cfg r) (apply_topic_updated ts name cfg l)"
    "recovers (apply_acl_created b r) (apply_acl_created b l)"
    "recovers (apply_acl_deleted b r) (apply_acl_deleted b l)"
    "recovers (apply_scram_upserted c r) (apply_scram_upserted c l)"
    "recovers (apply_scram_deleted u m r) (apply_scram_deleted u m l)"
    "recovers (apply_partition_assigned a r) (apply_partition_assigned a l)"
    "recovers (apply_broker_status_changed ts bid st r) (apply_broker_status_changed ts bid st l)"
  using assms
  by (simp_all add: recovers_def apply_topic_deleted_def apply_topic_updated_def
      apply_acl_created_def apply_acl_deleted_def apply_scram_upserted_def apply_scram_deleted_def
      apply_partition_assigned_def apply_broker_status_changed_def superseded_def
      offsets_below_retain split: option.split)

lemma recovers_entities:
  assumes "recovers r l"
  shows "recovers (apply_broker_registered br r) (apply_broker_registered br l)"
    "recovers (apply_broker_removed bid r) (apply_broker_removed bid l)"
    "recovers (apply_offset_committed co r) (apply_offset_committed co l)"
    "recovers (apply_consumer_offset_deleted g t p r) (apply_consumer_offset_deleted g t p l)"
    "recovers (apply_group_upserted cg r) (apply_group_upserted cg l)"
    "recovers (apply_group_deleted g r) (apply_group_deleted g l)"
    "recovers (apply_segment_created sg r) (apply_segment_created sg l)"
    "recovers (apply_segment_deleted t i r) (apply_segment_deleted t i l)"
    "recovers (apply_parquet_created pq r) (apply_parquet_created pq l)"
    "recovers (apply_parquet_deleted t p i r) (apply_parquet_deleted t p i l)"
  using assms
  by (simp_all add: recovers_def apply_broker_registered_def apply_broker_removed_def
      apply_offset_committed_def apply_consumer_offset_deleted_def apply_group_upserted_def
      apply_group_deleted_def apply_segment_created_def apply_segment_deleted_def
      apply_parquet_created_def apply_parquet_deleted_def)

lemma recovers_apply_event: "recovers r l \<Longrightarrow> recovers (apply_event e r) (apply_event e l)"
  by (cases "payload e")
    (simp_all add: apply_event_def Let_def recovers_topic_created recovers_high_watermark
      recovers_log_start recovers_begin recovers_transactions recovers_catalog recovers_entities)


lemma recovers_refl [simp]: "recovers s s"
  by (simp add: recovers_def)

interpretation metadata_log: event_sourced apply_event recovers "new_metadata_state n" for n
  by unfold_locales (simp_all add: recovers_apply_event)

definition recoverable :: "'b store_env \<Rightarrow> 'b store \<Rightarrow> bool" where
  "recoverable env st \<longleftrightarrow>
     (warned st = [] \<longrightarrow>
      recovers (fold apply_event (recovered_events env (wal st)) (new_metadata_state (st_node_id st))) (st_state st))"

text \<open>The documented behaviour of \<open>serde_json\<close>: what it wrote it reads back.\<close>

definition faithful_json :: "'b store_env \<Rightarrow> bool" where
  "faithful_json env \<longleftrightarrow> (\<forall>e b. json_to_vec env e = Some b \<longrightarrow> json_from_slice env b = Some e)"

definition keeps :: "('s \<Rightarrow> bool) \<Rightarrow> ('s \<Rightarrow> 'r \<times> 's) \<Rightarrow> bool" where
  "keeps I m \<longleftrightarrow> (\<forall>st. I st \<longrightarrow> I (snd (m st)))"

lemma keepsD: "keeps I m \<Longrightarrow> I st \<Longrightarrow> I (snd (m st))"
  by (simp add: keeps_def)

lemma keeps_return: "keeps I (op_return x)"
  by (simp add: keeps_def op_return_def)

lemma keeps_bind: "keeps I m \<Longrightarrow> (\<And>x. keeps I (f x)) \<Longrightarrow> keeps I (op_bind m f)"
  by (force simp: keeps_def op_bind_def split: prod.split sum.split)

lemma keeps_each: "(\<And>x. keeps I (f x)) \<Longrightarrow> keeps I (op_each f xs)"
  by (induction xs) (auto intro: keeps_return keeps_bind)

lemma recovered_snoc:
  assumes "faithful_json env" and "event_to_bytes env e = Some b"
  shows "recovered_events env (w @ [b]) = recovered_events env w @ [e]"
  using assms by (simp add: recovered_events_def map_filter_def faithful_json_def event_to_bytes_def from_bytes_event_def)

lemma recoverable_published [simp]: "recoverable env (st\<lparr>published := es\<rparr>) = recoverable env st"
  and recoverable_clock [simp]: "recoverable env (st\<lparr>clock := c\<rparr>) = recoverable env st"
  and recoverable_appends [simp]: "recoverable env (st\<lparr>appends := n\<rparr>) = recoverable env st"
  by (simp_all add: recoverable_def)

lemma recoverable_publish [simp]: "recoverable env (publish e st) = recoverable env st"
  by (simp add: publish_def)

lemma keeps_write_and_apply:
  assumes "faithful_json env"
  shows "keeps (recoverable env) (write_and_apply env e)"
proof -
  have "recoverable env (snd (write_and_apply env e st))" if "recoverable env st" for st
  proof (cases "event_to_bytes env e")
    case (Some b)
    have "recoverable env (st\<lparr>wal := wal st @ [b], appends := n, st_state := apply_event e (st_state st)\<rparr>)" for n
      using that recovered_snoc [OF assms Some] recovers_apply_event by (simp add: recoverable_def)
    then show ?thesis
      using that Some by (simp add: write_and_apply_def op_bind_def wal_append_def apply_local_def)
  qed (simp add: that write_and_apply_def)
  then show ?thesis by (simp add: keeps_def)
qed

lemma keeps_emit_as: "faithful_json env \<Longrightarrow> keeps (recoverable env) (emit_as env n p)"
  unfolding keeps_def emit_as_def by (simp add: keepsD [OF keeps_write_and_apply])

lemma keeps_emit: "faithful_json env \<Longrightarrow> keeps (recoverable env) (emit env p)"
  unfolding keeps_def emit_def by (simp add: keepsD [OF keeps_emit_as])

lemma keeps_emit_anonymous: "faithful_json env \<Longrightarrow> keeps (recoverable env) (emit_anonymous env p)"
  unfolding emit_anonymous_def by (rule keeps_emit_as)

lemma recoverable_offsets:
  assumes "recoverable env st"
    and "\<And>r. recovers r (st_state st) \<Longrightarrow> recovers r s'"
  shows "recoverable env (st\<lparr>st_state := s'\<rparr>)"
  using assms by (simp add: recoverable_def)

lemma recovers_bookkeeping [simp]:
  "recovers r (l\<lparr>last_catalog_snapshot := x\<rparr>) = recovers r l"
  "recovers r (l\<lparr>last_snapshot_size := y\<rparr>) = recovers r l"
  by (simp_all add: recovers_def)

lemma keeps_reconcile:
  assumes "faithful_json env" and "recoverable env st"
  shows "recoverable env (reconcile_catalog env names at st)"
proof -
  have prune: "recoverable env (fold (prune_topic env) ns st')" if "recoverable env st'" for ns st'
    using that
    by (induction ns arbitrary: st') (simp_all add: prune_topic_def keepsD [OF keeps_emit [OF assms(1)]])
  have "recoverable env (st\<lparr>st_state := (st_state st)\<lparr>last_catalog_snapshot := Some at\<rparr>\<rparr>)"
    using assms(2) by (rule recoverable_offsets) simp
  then show ?thesis
    using assms(2) prune by (simp add: reconcile_catalog_def Let_def)
qed

lemma keeps_replicated:
  assumes "faithful_json env"
  shows "keeps (recoverable env) (apply_replicated_event env e)"
proof -
  have "recoverable env (snd (apply_replicated_event env e st))" if "recoverable env st" for st
  proof (cases "\<exists>names. payload e = CatalogSnapshot names")
    case True
    then show ?thesis using keeps_reconcile [OF assms that] by (auto simp: apply_replicated_event_def)
  next
    case False
    let ?rest = "case event_to_bytes env e of
        None \<Rightarrow> (Inl (StorageError ''Failed to serialize replicated event''), st)
      | Some b \<Rightarrow> (case wal_append env b st of
          (Inl _, st') \<Rightarrow> apply_local e (st'\<lparr>warned := warned st' @ [e]\<rparr>)
        | (Inr _, st') \<Rightarrow> apply_local e st')"
    have "apply_replicated_event env e st = ?rest"
      unfolding apply_replicated_event_def using False by (cases "payload e") simp_all
    moreover have "recoverable env (snd ?rest)"
      using that recovered_snoc [OF assms, of e] recovers_apply_event
      by (auto simp: wal_append_def apply_local_def recoverable_def split: option.split)
    ultimately show ?thesis by simp
  qed
  then show ?thesis by (simp add: keeps_def)
qed


lemma recovers_raise:
  assumes "recovers r l" and "map_of (partition_offsets l) key = Some (h, s)" and "s \<le> s'"
  shows "recovers r (l\<lparr>partition_offsets := AList.update key (h, s') (partition_offsets l)\<rparr>)"
  using assms by (simp add: recovers_def offsets_below_raise_right)

lemma raise_log_start_recoverable:
  assumes "recoverable env st" and "map_of (partition_offsets (st_state st)) key \<noteq> None"
  shows "recoverable env (raise_log_start key hw lso st)"
proof -
  obtain h s where hs: "map_of (partition_offsets (st_state st)) key = Some (h, s)"
    using assms(2) by auto
  have "recoverable env (st\<lparr>st_state := (st_state st)\<lparr>partition_offsets :=
      AList.update key (h, lso) (partition_offsets (st_state st))\<rparr>\<rparr>)" if "s < lso"
    using assms(1) by (rule recoverable_offsets) (use that hs in \<open>simp add: recovers_raise\<close>)
  then show ?thesis
    using assms(1) hs by (simp add: raise_log_start_def)
qed

lemma uwrap_swrap_32: "in_unsigned 32 p \<Longrightarrow> uwrap 32 (swrap 32 p) = p"
  by (auto simp: uwrap_def swrap_def in_unsigned_def mod_simps)

text \<open>A watermark event leaves an entry behind, so the branch that initialises a missing one is never taken.\<close>

lemma high_watermark_present:
  "in_unsigned 32 p \<Longrightarrow>
     map_of (partition_offsets (apply_high_watermark_updated t (swrap 32 p) hw s)) (t, p) \<noteq> None"
  by (simp add: apply_high_watermark_updated_def Let_def uwrap_swrap_32 hash_simps split: option.split)

lemma emit_ok_state:
  assumes "emit env p st = (Inr (), st')"
  shows "st_state st' = apply_event (new_with_node (stamp env (clock st)) p (st_node_id st)) (st_state st)"
  using assms
  by (auto simp: emit_def emit_as_def write_and_apply_def op_bind_def wal_append_def apply_local_def
      publish_def split: option.splits if_splits)

lemma keeps_update_partition_offset:
  assumes "faithful_json env" and "in_unsigned 32 p" and "recoverable env st"
  shows "recoverable env (snd (update_partition_offset env t p hw lso st))"
proof (cases "\<exists>s. map_of (partition_offsets (st_state st)) (t, p) = Some (hw, s)")
  case True
  then show ?thesis
    using assms(3) raise_log_start_recoverable [of env st "(t, p)" hw lso]
    by (auto simp: update_partition_offset_def Let_def op_bind_def op_return_def)
next
  case False
  let ?m = "emit env (HighWatermarkUpdated t (swrap 32 p) hw)"
  have upd: "update_partition_offset env t p hw lso st =
      op_bind ?m (\<lambda>_ st'. (Inr (), raise_log_start (t, p) hw lso st')) st"
    using False
    by (cases "map_of (partition_offsets (st_state st)) (t, p)")
      (auto simp: update_partition_offset_def Let_def)
  obtain r st' where run: "?m st = (r, st')" by (cases "?m st")
  then have keep: "recoverable env st'"
    using keepsD [OF keeps_emit [OF assms(1)] assms(3), of "HighWatermarkUpdated t (swrap 32 p) hw"] by simp
  show ?thesis
  proof (cases r)
    case (Inr u)
    then have "map_of (partition_offsets (st_state st')) (t, p) \<noteq> None"
      using emit_ok_state [of env "HighWatermarkUpdated t (swrap 32 p) hw" st st'] run
        high_watermark_present [OF assms(2)] by (simp add: apply_event_def new_with_node_def)
    then show ?thesis
      unfolding upd using raise_log_start_recoverable [OF keep] run Inr by (simp add: op_bind_def)
  next
    case (Inl e)
    then show ?thesis unfolding upd using keep run by (simp add: op_bind_def)
  qed
qed

lemma keeps_create_topic_inner:
  assumes "faithful_json env"
  shows "keeps (recoverable env) (create_topic_inner env name cfg auto)"
proof -
  have "keeps (recoverable env) (op_bind (emit env (TopicCreated name cfg auto))
      (\<lambda>_ st'. case topic_of (st_state st') name of None \<Rightarrow> (Inl (NotFound name), st') | Some t \<Rightarrow> (Inr t, st')))"
    by (rule keeps_bind [OF keeps_emit [OF assms]]) (simp add: keeps_def split: option.split)
  then show ?thesis by (simp add: keeps_def create_topic_inner_def)
qed

lemma keeps_update_topic:
  assumes "faithful_json env"
  shows "keeps (recoverable env) (update_topic env name cfg)"
  unfolding update_topic_def
  by (rule keeps_bind [OF keeps_emit [OF assms]]) (simp add: keeps_def split: option.split)

lemma keeps_assign_partition: "faithful_json env \<Longrightarrow> keeps (recoverable env) (assign_partition env a)"
  unfolding keeps_def assign_partition_def by (simp add: Let_def keepsD [OF keeps_emit])

lemma keeps_with_assignments:
  assumes "faithful_json env" and "\<And>p hw lso. (p, hw, lso) \<in> set offs \<Longrightarrow> in_unsigned 32 p"
  shows "keeps (recoverable env) (with_assignments_inner env name cfg as offs auto)"
proof -
  have offs: "keeps (recoverable env) (op_each (\<lambda>(p, hw, lso).
      if hw \<noteq> 0 \<or> lso \<noteq> 0 then update_partition_offset env name p hw lso else op_return ()) offs)"
    using assms(2)
  proof (induction offs)
    case (Cons x offs)
    obtain p hw lso where x: "x = (p, hw, lso)" by (cases x)
    have "in_unsigned 32 p" using Cons.prems x by auto
    then have "keeps (recoverable env) (update_partition_offset env name p hw lso)"
      using keeps_update_partition_offset [OF assms(1)] by (simp add: keeps_def)
    with Cons x show ?case by (auto intro!: keeps_bind keeps_return)
  qed (simp add: keeps_return)
  show ?thesis
    unfolding with_assignments_inner_def
    by (intro keeps_bind offs keeps_create_topic_inner keeps_each [where f = "assign_partition env"]
        keeps_assign_partition keeps_return assms(1))
qed

lemma keeps_update_log_start:
  assumes "faithful_json env"
  shows "keeps (recoverable env) (update_log_start_offset env t p lso)"
proof -
  have "keeps (recoverable env) (op_bind (emit env ev) (\<lambda>_. op_return x))"
    "keeps (recoverable env) (op_bind (op_return ()) (\<lambda>_. op_return x))" for ev and x :: int
    by (intro keeps_bind keeps_return keeps_emit assms)+
  then have "recoverable env (snd (update_log_start_offset env t p lso st))" if "recoverable env st" for st
    using that
    by (cases "map_of (partition_offsets (st_state st)) (t, p)")
      (auto simp: keeps_def update_log_start_offset_def Let_def)
  then show ?thesis by (simp add: keeps_def)
qed

lemma recovers_next_id [simp]: "recovers r (l\<lparr>next_producer_id := n\<rparr>) = recovers r l"
  by (simp add: recovers_def)

lemma keeps_allocate: "keeps (recoverable env) allocate_producer_id"
  by (simp add: keeps_def allocate_producer_id_def Let_def recoverable_offsets)

lemma keeps_publish_fresh: "recoverable env st \<Longrightarrow> recoverable env (publish_fresh env p st)"
  by (simp add: publish_fresh_def)

lemma keeps_publish_fold: "recoverable env st \<Longrightarrow> recoverable env (fold (\<lambda>e. publish_fresh env (f e)) xs st)"
  by (induction xs arbitrary: st) (simp_all add: keeps_publish_fresh)

lemma recoverable_broadcasts:
  assumes "recoverable env st"
  shows "recoverable env (snd (broadcast_all_topics env st))"
    "recoverable env (snd (broadcast_catalog_snapshot env st))"
proof -
  show "recoverable env (snd (broadcast_all_topics env st))"
    using assms by (simp add: broadcast_all_topics_def Let_def keeps_publish_fold)
  have "recoverable env (st\<lparr>st_state := (st_state st)\<lparr>last_snapshot_size := x\<rparr>\<rparr>)" for x
    using assms by (rule recoverable_offsets) simp
  then show "recoverable env (snd (broadcast_catalog_snapshot env st))"
    using assms by (simp add: broadcast_catalog_snapshot_def Let_def)
qed

section \<open>Runs of the store\<close>

text \<open>One call of the store's interface, with any arguments. Partition numbers are \<open>u32\<close>.\<close>

inductive store_step :: "'b store_env \<Rightarrow> 'b store \<Rightarrow> 'b store \<Rightarrow> bool" for env :: "'b store_env" where
  create_topic_call: "store_step env st (snd (create_topic env name cfg st))"
| auto_create_topic_call: "store_step env st (snd (auto_create_topic env name cfg st))"
| with_assignments_call: "(\<And>p hw lso. (p, hw, lso) \<in> set offs \<Longrightarrow> in_unsigned 32 p) \<Longrightarrow>
    store_step env st (snd (create_topic_with_assignments env name cfg as offs st))"
| auto_with_assignments_call: "(\<And>p hw lso. (p, hw, lso) \<in> set offs \<Longrightarrow> in_unsigned 32 p) \<Longrightarrow>
    store_step env st (snd (auto_create_topic_with_assignments env name cfg as offs st))"
| update_topic_call: "store_step env st (snd (update_topic env name cfg st))"
| delete_topic_call: "store_step env st (snd (delete_topic env name st))"
| create_acl_call: "store_step env st (snd (create_acl env acl st))"
| delete_acl_call: "store_step env st (snd (delete_acl env acl st))"
| upsert_scram_call: "store_step env st (snd (upsert_scram_credential env cred st))"
| delete_scram_call: "store_step env st (snd (delete_scram_credential env user mech st))"
| persist_segment_call: "store_step env st (snd (persist_segment_metadata env sg st))"
| delete_segment_call: "store_step env st (snd (delete_segment env t i st))"
| persist_parquet_call: "store_step env st (snd (persist_parquet_segment env pq st))"
| delete_parquet_call: "store_step env st (snd (delete_parquet_segment env t p i st))"
| register_broker_call: "store_step env st (snd (register_broker env br st))"
| broker_status_call: "store_step env st (snd (update_broker_status env b bs st))"
| assign_partition_call: "store_step env st (snd (assign_partition env a st))"
| partition_offset_call: "in_unsigned 32 p \<Longrightarrow>
    store_step env st (snd (update_partition_offset env t p hw lso st))"
| log_start_offset_call: "store_step env st (snd (update_log_start_offset env t p lso st))"
| create_group_call: "store_step env st (snd (create_consumer_group env cg st))"
| update_group_call: "store_step env st (snd (update_consumer_group env cg st))"
| delete_group_call: "store_step env st (snd (delete_consumer_group env g st))"
| commit_offset_call: "store_step env st (snd (commit_offset env co st))"
| delete_offsets_call: "store_step env st (snd (delete_consumer_offsets env g tps st))"
| commit_txn_offsets_call: "store_step env st (snd (commit_transactional_offsets env now g toffs st))"
| allocate_call: "store_step env st (snd (allocate_producer_id st))"
| begin_txn_call: "store_step env st (snd (begin_transaction env tid pid ep tmo st))"
| add_partitions_call: "store_step env st (snd (add_partitions_to_transaction env tid pid ep ps st))"
| add_offsets_call: "store_step env st (snd (add_offsets_to_transaction env tid pid ep g st))"
| prepare_commit_call: "store_step env st (snd (prepare_commit_transaction env tid pid ep st))"
| commit_txn_call: "store_step env st (snd (commit_transaction env tid pid ep st))"
| abort_txn_call: "store_step env st (snd (abort_transaction env tid pid ep st))"
| fence_call: "store_step env st (snd (fence_producer env tid pid ep pid' ep' st))"
| replicated_call: "store_step env st (snd (apply_replicated_event env e st))"
| broadcast_topics_call: "store_step env st (snd (broadcast_all_topics env st))"
| broadcast_snapshot_call: "store_step env st (snd (broadcast_catalog_snapshot env st))"

lemmas emitting_defs =
  delete_topic_def create_acl_def delete_acl_def upsert_scram_credential_def
  delete_scram_credential_def persist_segment_metadata_def delete_segment_def
  persist_parquet_segment_def delete_parquet_segment_def register_broker_def
  update_broker_status_def create_consumer_group_def update_consumer_group_def
  delete_consumer_group_def commit_offset_def

lemmas anonymous_defs =
  begin_transaction_def add_partitions_to_transaction_def add_offsets_to_transaction_def
  prepare_commit_transaction_def commit_transaction_def abort_transaction_def fence_producer_def

lemma store_step_recoverable:
  assumes "faithful_json env" and "recoverable env st" and "store_step env st st'"
  shows "recoverable env st'"
proof -
  note emit = keepsD [OF keeps_emit [OF assms(1)]]
  note anon = keepsD [OF keeps_emit_anonymous [OF assms(1)]]
  note topic = keepsD [OF keeps_create_topic_inner [OF assms(1)]]
  have "keeps (recoverable env) (op_each (\<lambda>(t, p). emit env (ConsumerOffsetDeleted g t p)) xs)" for g xs
    by (rule keeps_each) (simp add: split_beta keeps_emit assms(1))
  then have offs: "recoverable env (snd (delete_consumer_offsets env g tps st))" for g tps
    using assms(2) by (simp add: keeps_def delete_consumer_offsets_def)
  have "keeps (recoverable env) (commit_transactional_offsets env now g offs)" for now g offs
    unfolding commit_transactional_offsets_def commit_offset_def
    by (rule keeps_each) (simp add: split_beta keeps_emit assms(1))
  then have txn_offs: "recoverable env (snd (commit_transactional_offsets env now g offs st))" for now g offs
    using assms(2) by (simp add: keeps_def)
  from assms(3) show ?thesis
  proof cases
    case with_assignments_call
    then show ?thesis using keepsD [OF keeps_with_assignments [OF assms(1)] assms(2)]
      by (simp add: create_topic_with_assignments_def)
  next
    case auto_with_assignments_call
    then show ?thesis using keepsD [OF keeps_with_assignments [OF assms(1)] assms(2)]
      by (simp add: auto_create_topic_with_assignments_def)
  qed (simp_all add: assms(2) emitting_defs anonymous_defs emit anon topic offs txn_offs
      create_topic_def auto_create_topic_def keepsD [OF keeps_update_topic [OF assms(1)]]
      keepsD [OF keeps_assign_partition [OF assms(1)]] keepsD [OF keeps_update_log_start [OF assms(1)]]
      keeps_update_partition_offset [OF assms(1)] keepsD [OF keeps_allocate]
      keepsD [OF keeps_replicated [OF assms(1)]] recoverable_broadcasts)
qed


section \<open>Anti-entropy\<close>

definition receive :: "'b store_env \<Rightarrow> metadata_event list \<Rightarrow> 'b store \<Rightarrow> 'b store" where
  "receive env es st = fold (\<lambda>e st. snd (apply_replicated_event env e st)) es st"

definition published_since :: "'b store \<Rightarrow> 'b store \<Rightarrow> metadata_event list" where
  "published_since old new = drop (length (published old)) (published new)"

definition is_snapshot :: "metadata_event \<Rightarrow> bool" where
  "is_snapshot e \<longleftrightarrow> (\<exists>names. payload e = CatalogSnapshot names)"

text \<open>What a pass of \<^const>\<open>broadcast_all_topics\<close> puts on the bus, up to ids and time stamps.\<close>

definition catalog_payloads :: "metadata_state \<Rightarrow> metadata_payload list" where
  "catalog_payloads s =
     map (\<lambda>e. TopicCreated (fst e) (tm_config (snd e)) (auto_created (snd e)))
       (filter (\<lambda>e. \<not> internal (fst e)) (topics s)) @
     map (\<lambda>e. PartitionAssigned (snd e))
       (filter (\<lambda>e. \<not> internal (pa_topic (snd e))) (partition_assignments s))"

lemma replicated_state:
  assumes "event_to_bytes env e \<noteq> None" and "\<not> is_snapshot e"
  shows "st_state (snd (apply_replicated_event env e st)) = apply_event e (st_state st)"
proof -
  have "apply_replicated_event env e st =
      (case event_to_bytes env e of
         None \<Rightarrow> (Inl (StorageError ''Failed to serialize replicated event''), st)
       | Some b \<Rightarrow> (case wal_append env b st of
           (Inl _, st') \<Rightarrow> apply_local e (st'\<lparr>warned := warned st' @ [e]\<rparr>)
         | (Inr _, st') \<Rightarrow> apply_local e st'))"
    unfolding apply_replicated_event_def using assms(2) by (cases "payload e") (simp_all add: is_snapshot_def)
  then show ?thesis
    using assms(1) by (auto simp: wal_append_def apply_local_def)
qed

lemma receive_state:
  assumes "\<And>e. event_to_bytes env e \<noteq> None" and "\<And>e. e \<in> set es \<Longrightarrow> \<not> is_snapshot e"
  shows "st_state (receive env es st) = fold apply_event es (st_state st)"
  using assms(2)
  by (induction es arbitrary: st) (simp_all add: receive_def replicated_state [OF assms(1)])

lemma publish_fold:
  assumes "bus_wired st"
  shows "\<exists>es st'. fold (\<lambda>e. publish_fresh env (f e)) xs st = st' \<and> published st' = published st @ es \<and>
     map payload es = map f xs \<and> bus_wired st' \<and> st_state st' = st_state st"
  using assms
proof (induction xs arbitrary: st)
  case (Cons x xs)
  let ?e = "new_with_node (stamp env (clock st)) (f x) (st_node_id st)"
  have st: "bus_wired (publish_fresh env (f x) st)" "st_state (publish_fresh env (f x) st) = st_state st"
    "published (publish_fresh env (f x) st) = published st @ [?e]"
    using Cons.prems by (simp_all add: publish_fresh_def publish_def)
  obtain es st' where "fold (\<lambda>e. publish_fresh env (f e)) xs (publish_fresh env (f x) st) = st'"
    "published st' = published st @ ?e # es" "map payload es = map f xs" "bus_wired st'" "st_state st' = st_state st"
    using Cons.IH [OF st(1)] st(2,3) by auto
  then show ?case
    by (intro exI [of _ "?e # es"]) (simp add: new_with_node_def)
qed simp

lemma broadcast_all_published:
  assumes "bus_wired st"
  shows "map payload (published_since st (snd (broadcast_all_topics env st))) = catalog_payloads (st_state st)"
    and "bus_wired (snd (broadcast_all_topics env st))"
    and "st_state (snd (broadcast_all_topics env st)) = st_state st"
proof -
  let ?f = "\<lambda>e. TopicCreated (fst e) (tm_config (snd e)) (auto_created (snd e))"
  let ?ts = "filter (\<lambda>e. \<not> internal (fst e)) (topics (st_state st))"
  let ?g = "\<lambda>e :: partition_key \<times> partition_assignment. PartitionAssigned (snd e)"
  let ?pas = "filter (\<lambda>e. \<not> internal (pa_topic (snd e))) (partition_assignments (st_state st))"
  obtain es1 st1 where one: "fold (\<lambda>e. publish_fresh env (?f e)) ?ts st = st1" "published st1 = published st @ es1"
    "map payload es1 = map ?f ?ts" "bus_wired st1" "st_state st1 = st_state st"
    using publish_fold [OF assms, of env ?f ?ts] by auto
  obtain es2 st2 where two: "fold (\<lambda>e. publish_fresh env (?g e)) ?pas st1 = st2" "published st2 = published st1 @ es2"
    "map payload es2 = map ?g ?pas" "bus_wired st2" "st_state st2 = st_state st1"
    using publish_fold [OF one(4), of env ?g ?pas] by auto
  have run: "snd (broadcast_all_topics env st) = st2"
    using assms one(1) two(1) by (simp add: broadcast_all_topics_def Let_def)
  show "bus_wired (snd (broadcast_all_topics env st))" "st_state (snd (broadcast_all_topics env st)) = st_state st"
    using one two by (simp_all add: run)
  show "map payload (published_since st (snd (broadcast_all_topics env st))) = catalog_payloads (st_state st)"
    using one two by (simp add: run published_since_def catalog_payloads_def)
qed

section \<open>What a pass does to a follower\<close>

lemma set_update_keys: "fst ` set (AList.update k v m) = insert k (fst ` set m)"
  by (induction m) auto

abbreviation topic_names :: "metadata_state \<Rightarrow> string set" where
  "topic_names s \<equiv> fst ` set (topics s)"

lemma set_public_topics: "set (public_topics s) = {n \<in> topic_names s. \<not> internal n}"
  by (auto simp: public_topics_def)

lemma created_names:
  assumes "payload e = TopicCreated name cfg auto"
  shows "topic_names (apply_event e s) = insert name (topic_names s)"
  unfolding created_event [OF assms] apply_topic_created_def topic_created_again_def
  by (simp add: set_update_keys split: option.split)

lemma assigned_names: "payload e = PartitionAssigned a \<Longrightarrow> topics (apply_event e s) = topics s"
  by (simp add: apply_event_def apply_partition_assigned_def)

definition catalog_event :: "metadata_payload \<Rightarrow> bool" where
  "catalog_event p \<longleftrightarrow> (\<exists>n c a. p = TopicCreated n c a) \<or> (\<exists>a. p = PartitionAssigned a)"

definition created_by :: "metadata_payload list \<Rightarrow> string set" where
  "created_by ps = {n. \<exists>c a. TopicCreated n c a \<in> set ps}"

lemma created_by_Cons: "created_by (p # ps) = created_by [p] \<union> created_by ps"
  by (auto simp: created_by_def)

lemma catalog_names:
  assumes "\<And>e. e \<in> set es \<Longrightarrow> catalog_event (payload e)"
  shows "topic_names (fold apply_event es s) = topic_names s \<union> created_by (map payload es)"
  using assms
proof (induction es arbitrary: s)
  case (Cons e es)
  consider n c a where "payload e = TopicCreated n c a" | a where "payload e = PartitionAssigned a"
    using Cons.prems [of e] by (auto simp: catalog_event_def)
  then have "topic_names (apply_event e s) = topic_names s \<union> created_by [payload e]"
    by cases (simp_all add: created_names assigned_names created_by_def)
  then show ?case
    using Cons.IH [of "apply_event e s"] Cons.prems created_by_Cons [of "payload e" "map payload es"]
    by (simp add: Un_assoc)
qed (simp add: created_by_def)

lemma catalog_payloads_created:
  "created_by (catalog_payloads s) = {n \<in> topic_names s. \<not> internal n}"
  by (force simp: created_by_def catalog_payloads_def image_iff)

lemma catalog_payloads_event: "p \<in> set (catalog_payloads s) \<Longrightarrow> catalog_event p"
  by (auto simp: catalog_payloads_def catalog_event_def)

lemma catalog_payloads_assigned:
  assumes "metadata_wf s" and "assignment_of s k = Some a" and "\<not> internal (fst k)"
  shows "PartitionAssigned a \<in> set (catalog_payloads s)" "assignment_key a = k"
proof -
  show key: "assignment_key a = k"
    using keyed_get [OF wf_parts(4) [OF assms(1)] assms(2)] .
  have "(k, a) \<in> set (partition_assignments s)" using assms(2) by (rule map_of_SomeD)
  then show "PartitionAssigned a \<in> set (catalog_payloads s)"
    using assms(3) key by (force simp: catalog_payloads_def)
qed

lemma delivered_payload:
  "a \<in> set (delivered es k) \<longleftrightarrow> PartitionAssigned a \<in> payload ` set es \<and> assignment_key a = k"
  by (induction es)
    (auto simp: delivered_def split: metadata_payload.splits if_splits)

subsection \<open>Pruning\<close>

lemma deleted_state:
  "payload e = TopicDeleted name \<Longrightarrow> apply_event e s = apply_topic_deleted name s"
  by (simp add: apply_event_def)

lemma prune_topic_state:
  assumes "\<And>e. event_to_bytes env e \<noteq> None" and "\<And>n. append_ok env n"
  shows "st_state (prune_topic env name st) = apply_topic_deleted name (st_state st)"
proof -
  obtain b where "event_to_bytes env (new_with_node (stamp env (clock st)) (TopicDeleted name) (st_node_id st)) = Some b"
    using assms(1) by blast
  then show ?thesis
    by (simp add: prune_topic_def emit_def emit_as_def write_and_apply_def op_bind_def wal_append_def
        apply_local_def publish_def assms(2) deleted_state new_with_node_def)
qed

lemma prune_fold:
  assumes "\<And>e. event_to_bytes env e \<noteq> None" and "\<And>n. append_ok env n"
  shows "topic_names (st_state (fold (prune_topic env) ns st)) = topic_names (st_state st) - set ns"
    and "fst k \<notin> set ns \<Longrightarrow>
      assignment_of (st_state (fold (prune_topic env) ns st)) k = assignment_of (st_state st) k"
proof -
  have deleted: "topic_names (apply_topic_deleted name s) = topic_names s - {name}"
    "fst k \<noteq> name \<Longrightarrow> assignment_of (apply_topic_deleted name s) k = assignment_of s k" for name s
    by (auto simp: apply_topic_deleted_def remove_key_def hash_simps)
  show "topic_names (st_state (fold (prune_topic env) ns st)) = topic_names (st_state st) - set ns"
    by (induction ns arbitrary: st) (auto simp: prune_topic_state [OF assms] deleted)
  show "assignment_of (st_state (fold (prune_topic env) ns st)) k = assignment_of (st_state st) k"
    if "fst k \<notin> set ns"
    using that by (induction ns arbitrary: st) (simp_all add: prune_topic_state [OF assms] deleted)
qed

definition snapshot_accepted :: "'b store_env \<Rightarrow> string list \<Rightarrow> timestamp \<Rightarrow> 'b store \<Rightarrow> bool" where
  "snapshot_accepted env names at st \<longleftrightarrow>
     \<not> prune_off env \<and> names \<noteq> [] \<and>
     (\<forall>prev. last_catalog_snapshot (st_state st) = Some prev \<longrightarrow> prev < at) \<and>
     \<not> exceeds_max_fraction env (length (stale_topics names (st_state st)))
         (length (public_topics (st_state st)))"

lemma set_stale_topics:
  "set (stale_topics names s) = {n \<in> topic_names s. \<not> internal n \<and> n \<notin> set names}"
  by (auto simp: stale_topics_def)

lemma reconcile_names:
  assumes "\<And>e. event_to_bytes env e \<noteq> None" and "\<And>n. append_ok env n" and "snapshot_accepted env names at st"
  shows "set (public_topics (st_state (reconcile_catalog env names at st))) =
         set (public_topics (st_state st)) \<inter> set names"
    and "fst k \<in> set names \<or> internal (fst k) \<Longrightarrow>
      assignment_of (st_state (reconcile_catalog env names at st)) k = assignment_of (st_state st) k"
proof -
  let ?st1 = "st\<lparr>st_state := (st_state st)\<lparr>last_catalog_snapshot := Some at\<rparr>\<rparr>"
  let ?stale = "stale_topics names (st_state st)"
  have same: "topics (st_state ?st1) = topics (st_state st)"
    "stale_topics names (st_state ?st1) = ?stale" "public_topics (st_state ?st1) = public_topics (st_state st)"
    by (simp_all add: stale_topics_def public_topics_def)
  have guard: "\<not> (case last_catalog_snapshot (st_state st) of Some prev \<Rightarrow> at \<le> prev | None \<Rightarrow> False)"
    using assms(3) by (cases "last_catalog_snapshot (st_state st)") (auto simp: snapshot_accepted_def)
  have run: "reconcile_catalog env names at st = fold (prune_topic env) ?stale ?st1"
    unfolding reconcile_catalog_def Let_def same
    using assms(3) guard by (simp add: snapshot_accepted_def)
  show "set (public_topics (st_state (reconcile_catalog env names at st))) =
      set (public_topics (st_state st)) \<inter> set names"
    unfolding run set_public_topics prune_fold(1) [OF assms(1,2)] set_stale_topics same(1) by auto
  show "assignment_of (st_state (reconcile_catalog env names at st)) k = assignment_of (st_state st) k"
    if "fst k \<in> set names \<or> internal (fst k)"
    unfolding run using that by (subst prune_fold(2) [OF assms(1,2)]) (auto simp: set_stale_topics)
qed


section \<open>Producer ids\<close>

lemma update_transaction_next_id [simp]:
  "next_producer_id (update_transaction ts tid f s) = next_producer_id s"
  by (simp add: update_transaction_def split: option.split)

lemma observe_next_id [simp]:
  "next_producer_id (observe_producer_id pid s) = max (next_producer_id s) (swrap 64 (pid + 1))"
  by (simp add: observe_producer_id_def)

lemma transactions_next_id:
  "next_producer_id s \<le> next_producer_id (apply_begin_transaction ts tid pid epoch timeout s)"
  "next_producer_id s \<le> next_producer_id (apply_add_partitions ts tid pid ps s)"
  "next_producer_id s \<le> next_producer_id (apply_add_offsets ts tid pid g s)"
  "next_producer_id s \<le> next_producer_id (apply_prepare_commit ts tid pid s)"
  "next_producer_id s \<le> next_producer_id (apply_prepare_abort ts tid pid s)"
  "next_producer_id s \<le> next_producer_id (apply_commit_transaction ts tid pid s)"
  "next_producer_id s \<le> next_producer_id (apply_abort_transaction ts tid pid s)"
  "next_producer_id s \<le> next_producer_id (apply_producer_fenced ts tid pid epoch s)"
  by (simp_all add: apply_begin_transaction_def Let_def apply_add_partitions_def apply_add_offsets_def
      apply_prepare_commit_def apply_prepare_abort_def apply_commit_transaction_def
      apply_abort_transaction_def apply_producer_fenced_def)

lemma catalog_next_id [simp]:
  "next_producer_id (apply_topic_created eid ts name cfg auto s) = next_producer_id s"
  "next_producer_id (apply_topic_updated ts name cfg s) = next_producer_id s"
  "next_producer_id (apply_topic_deleted name s) = next_producer_id s"
  "next_producer_id (apply_acl_created b s) = next_producer_id s"
  "next_producer_id (apply_acl_deleted b s) = next_producer_id s"
  "next_producer_id (apply_scram_upserted c s) = next_producer_id s"
  "next_producer_id (apply_scram_deleted u m s) = next_producer_id s"
  "next_producer_id (apply_partition_assigned a s) = next_producer_id s"
  by (simp_all add: apply_topic_created_def topic_created_again_def apply_topic_updated_def
      apply_topic_deleted_def apply_acl_created_def apply_acl_deleted_def apply_scram_upserted_def
      apply_scram_deleted_def apply_partition_assigned_def split: option.split)

lemma entity_next_id [simp]:
  "next_producer_id (apply_high_watermark_updated t p hw s) = next_producer_id s"
  "next_producer_id (apply_log_start_offset_updated t p hw s) = next_producer_id s"
  "next_producer_id (apply_broker_registered br s) = next_producer_id s"
  "next_producer_id (apply_broker_status_changed ts bid st s) = next_producer_id s"
  "next_producer_id (apply_broker_removed bid s) = next_producer_id s"
  "next_producer_id (apply_offset_committed co s) = next_producer_id s"
  "next_producer_id (apply_consumer_offset_deleted g t p s) = next_producer_id s"
  "next_producer_id (apply_group_upserted cg s) = next_producer_id s"
  "next_producer_id (apply_group_deleted g s) = next_producer_id s"
  "next_producer_id (apply_segment_created sg s) = next_producer_id s"
  "next_producer_id (apply_segment_deleted t i s) = next_producer_id s"
  "next_producer_id (apply_parquet_created pq s) = next_producer_id s"
  "next_producer_id (apply_parquet_deleted t p i s) = next_producer_id s"
  by (simp_all add: apply_high_watermark_updated_def apply_log_start_offset_updated_def
      apply_broker_registered_def apply_broker_status_changed_def
      apply_broker_removed_def apply_offset_committed_def apply_consumer_offset_deleted_def
      apply_group_upserted_def apply_group_deleted_def apply_segment_created_def
      apply_segment_deleted_def apply_parquet_created_def apply_parquet_deleted_def Let_def
      split: option.split)

lemma apply_event_next_id: "next_producer_id s \<le> next_producer_id (apply_event e s)"
  by (cases "payload e") (simp_all add: apply_event_def Let_def transactions_next_id)

lemma fold_next_id: "next_producer_id s \<le> next_producer_id (fold apply_event es s)"
proof (induction es arbitrary: s)
  case (Cons e es)
  then show ?case using apply_event_next_id [of s e] order_trans by fastforce
qed simp

lemma begin_next_id:
  "payload e = BeginTransaction tid pid epoch timeout \<Longrightarrow>
     next_producer_id (apply_event e s) = max (next_producer_id s) (swrap 64 (pid + 1))"
  by (simp add: apply_event_def apply_begin_transaction_def Let_def)

lemma swrap_succ: "in_signed 64 pid \<Longrightarrow> pid < i64_max \<Longrightarrow> swrap 64 (pid + 1) = pid + 1"
  by (rule swrap_id) (simp_all add: in_signed_def)

text \<open>Every write that succeeds applies its event and, for the events that leave the node, publishes it.\<close>

lemma emit_as_ok:
  assumes "event_to_bytes env (new_with_node (stamp env (clock st)) p n) \<noteq> None" and "append_ok env (appends st)"
    and "bus_wired st" and "replicate_to_followers p"
  shows "st_state (snd (emit_as env n p st)) = apply_event (new_with_node (stamp env (clock st)) p n) (st_state st)"
    and "published_since st (snd (emit_as env n p st)) = [new_with_node (stamp env (clock st)) p n]"
  using assms
  by (auto simp: emit_as_def write_and_apply_def op_bind_def wal_append_def apply_local_def publish_def
      published_since_def new_with_node_def)

definition sample_env :: "metadata_event store_env" where
  "sample_env =
     \<lparr>json_to_vec = Some, json_from_slice = Some, bincode_deserialize = (\<lambda>_. None),
      append_ok = (\<lambda>_. True), stamp = (\<lambda>n. (int n, 1000 + int n)), prune_off = False,
      exceeds_max_fraction = (\<lambda>stale total. total < 2 * stale)\<rparr>"

lemma sample_env_ok:
  "faithful_json sample_env" "event_to_bytes sample_env e \<noteq> None" "append_ok sample_env n"
  "\<not> prune_off sample_env" "stamp sample_env i = (int i, 1000 + int i)"
  "exceeds_max_fraction sample_env a b = (b < 2 * a)"
  by (simp_all add: sample_env_def faithful_json_def event_to_bytes_def)

definition sample_topic :: "string \<Rightarrow> topic_metadata" where
  "sample_topic name =
     \<lparr>tm_id = 0, tm_name = name, tm_config = default_topic_config, tm_created_at = 0,
      tm_updated_at = 0, auto_created = False\<rparr>"

text \<open>A leader that has passed once over its one topic, and a follower that kept another one.\<close>

definition sample_leader :: "metadata_event store" where
  "sample_leader = (new_store 1 True)\<lparr>st_state := (new_metadata_state 1)
     \<lparr>topics := [(''a'', sample_topic ''a'')], last_snapshot_size := Some 1\<rparr>\<rparr>"

definition sample_follower :: "metadata_event store" where
  "sample_follower = (new_store 2 True)\<lparr>st_state := (new_metadata_state 2)
     \<lparr>topics := [(''gone'', sample_topic ''gone'')]\<rparr>\<rparr>"


lemma new_store_recoverable: "recoverable env (new_store n w)"
  by (simp add: recoverable_def new_store_def recovered_events_def map_filter_def)

interpretation store_run: invariant_system "\<lambda>st. \<exists>n w. st = new_store n w" "store_step env"
  "\<lambda>st. faithful_json env \<longrightarrow> recoverable env st" for env
  by unfold_locales (auto intro: new_store_recoverable store_step_recoverable)

lemma snapshot_broadcast:
  assumes "bus_wired st" and "public_topics (st_state st) \<noteq> []"
    and "last_snapshot_size (st_state st) = Some (length (public_topics (st_state st)))"
  shows "published_since st (snd (broadcast_catalog_snapshot env st)) =
    [new_with_node (stamp env (clock st)) (CatalogSnapshot (public_topics (st_state st))) (st_node_id st)]"
  using assms by (simp add: broadcast_catalog_snapshot_def Let_def publish_def published_since_def)




lemma sample_pass:
  "published_since sample_leader (snd (broadcast_all_topics sample_env sample_leader)) =
     [new_with_node (0, 1000) (TopicCreated ''a'' default_topic_config False) 1]"
  "clock (snd (broadcast_all_topics sample_env sample_leader)) = 1"
  by (simp_all add: sample_leader_def new_store_def new_metadata_state_def broadcast_all_topics_def
      internal_def publish_fresh_def publish_def published_since_def sample_env_def sample_topic_def)


text \<open>A restart never hands out the id of a registered transactional producer again: after
  replaying any events, the allocator is past every producer id that one of them registered.
\<close>

theorem registered_ids_not_reused:
  assumes "e \<in> set es" and "payload e = BeginTransaction tid pid epoch timeout"
    and "in_signed 64 pid" and "pid < i64_max"
  shows "pid < next_producer_id (fold apply_event es (new_metadata_state n))"
proof -
  obtain xs ys where es: "es = xs @ e # ys" using assms(1) split_list by metis
  let ?s = "apply_event e (fold apply_event xs (new_metadata_state n))"
  have "pid < next_producer_id ?s"
    using begin_next_id [OF assms(2)] swrap_succ [OF assms(3,4)] by simp
  also have "\<dots> \<le> next_producer_id (fold apply_event ys ?s)" by (rule fold_next_id)
  finally show ?thesis by (simp add: es)
qed

theorem registered_ids_not_reused_witness:
  "5 < next_producer_id (fold apply_event [new_with_node (0, 0) (BeginTransaction ''tx'' 5 0 60000) 0]
     (new_metadata_state 0))"
  by (rule registered_ids_not_reused [where e = "new_with_node (0, 0) (BeginTransaction ''tx'' 5 0 60000) 0"])
    (simp_all add: new_with_node_def in_signed_def)

text \<open>Producer ids are not unique across nodes. When a node registers a transactional producer
  under the id it just allocated, the replicated registration moves the allocator of every
  node with a lower one past it, into the range of the registering node: the next id both
  nodes hand out is the same.
\<close>

theorem producer_ids_collide:
  assumes "\<And>e. event_to_bytes env e \<noteq> None" and "\<And>n. append_ok env n" and "\<And>e. event_to_bytes fenv e \<noteq> None"
    and "bus_wired L" and "pid = next_producer_id (st_state L)" and "in_signed 64 pid" and "pid < i64_max"
    and "L1 = snd (begin_transaction env tid pid 0 timeout (snd (allocate_producer_id L)))"
    and "F1 = receive fenv (published_since L L1) F"
    and "next_producer_id (st_state F) \<le> pid"
  shows "fst (allocate_producer_id L1) = Inr (pid + 1) \<and> fst (allocate_producer_id F1) = Inr (pid + 1)"
proof -
  let ?L0 = "snd (allocate_producer_id L)"
  let ?e = "new_with_node (stamp env (clock ?L0)) (BeginTransaction tid pid 0 timeout) 0"
  have L0: "bus_wired ?L0" "published ?L0 = published L" "next_producer_id (st_state ?L0) = pid + 1"
    using assms(4-7) by (simp_all add: allocate_producer_id_def Let_def swrap_succ)
  note ok = emit_as_ok [of env ?L0 "BeginTransaction tid pid 0 timeout" 0, OF assms(1,2) L0(1)]
  have L1: "L1 = snd (emit_as env 0 (BeginTransaction tid pid 0 timeout) ?L0)"
    by (simp add: assms(8) begin_transaction_def emit_anonymous_def)
  have reg: "payload ?e = BeginTransaction tid pid 0 timeout" by (simp add: new_with_node_def)
  have "next_producer_id (st_state L1) = pid + 1"
    using ok(1) L1 begin_next_id [OF reg] L0(3) assms(6,7)
    by (simp add: replicate_to_followers_def swrap_succ)
  moreover have "published_since L L1 = [?e]"
    using ok(2) L1 L0(2) by (simp add: replicate_to_followers_def published_since_def)
  then have "st_state F1 = apply_event ?e (st_state F)"
    using replicated_state [OF assms(3), of ?e F]
    by (simp add: assms(9) receive_def is_snapshot_def new_with_node_def)
  then have "next_producer_id (st_state F1) = pid + 1"
    using begin_next_id [OF reg] assms(6,7,10) by (simp add: swrap_succ)
  ultimately show ?thesis by (simp add: allocate_producer_id_def Let_def)
qed

theorem producer_ids_collide_witness:
  "fst (allocate_producer_id (receive sample_env
     (published_since (new_store 2 True)
       (snd (begin_transaction sample_env ''tx'' (2 ^ 41 + 1) 0 60000 (snd (allocate_producer_id (new_store 2 True))))))
     (new_store 1 True))) =
   fst (allocate_producer_id
       (snd (begin_transaction sample_env ''tx'' (2 ^ 41 + 1) 0 60000 (snd (allocate_producer_id (new_store 2 True))))))"
proof -
  have "next_producer_id (st_state (new_store 2 True)) = 2 ^ 41 + 1"
    "next_producer_id (st_state (new_store 1 True)) = 2 ^ 40 + 1"
    by (simp_all add: new_store_def new_metadata_state_def producer_id_base_def swrap_def)
  then show ?thesis
    using producer_ids_collide [of sample_env sample_env "new_store 2 True" "2 ^ 41 + 1" _ "''tx''" 60000 _ "new_store 1 True"]
    by (simp add: sample_env_ok in_signed_def new_store_def)
qed


text \<open>The leader epoch of a partition increments if and only if its leader changed: an
  assignment that was written is the one the store holds, with the previous epoch when
  the leader stays, the next one when it moves and zero for a first assignment. Silence
  about the in-sync set keeps the published one, and no other partition changes.
\<close>

theorem assign_partition_epoch:
  assumes "assign_partition env a st = (Inr (), st')"
    and "\<And>p. assignment_of (st_state st) (assignment_key a) = Some p \<Longrightarrow> pa_leader_epoch p < 2 ^ 31 - 1"
  shows "(\<exists>b. assignment_of (st_state st') (assignment_key a) = Some b \<and>
       pa_leader_id b = pa_leader_id a \<and> pa_replicas b = pa_replicas a \<and>
       (case assignment_of (st_state st) (assignment_key a) of
          None \<Rightarrow> pa_leader_epoch b = 0 \<and> pa_isr b = pa_isr a
        | Some p \<Rightarrow>
            pa_leader_epoch b = pa_leader_epoch p + (if pa_leader_id p = pa_leader_id a then 0 else 1) \<and>
            pa_isr b = (if pa_isr a = [] then pa_isr p else pa_isr a))) \<and>
     (\<forall>k. k \<noteq> assignment_key a \<longrightarrow> assignment_of (st_state st') k = assignment_of (st_state st) k)"
proof -
  let ?prev = "assignment_of (st_state st) (assignment_key a)"
  let ?a = "(inherit_isr ?prev a)\<lparr>pa_leader_epoch := next_leader_epoch ?prev (pa_leader_id (inherit_isr ?prev a))\<rparr>"
  have isr: "pa_leader_id (inherit_isr q a) = pa_leader_id a" "pa_replicas (inherit_isr q a) = pa_replicas a"
    "pa_topic (inherit_isr q a) = pa_topic a" "pa_partition (inherit_isr q a) = pa_partition a" for q
    by (simp_all add: inherit_isr_def split: option.split)
  have "emit env (PartitionAssigned ?a) st = (Inr (), st')"
    using assms(1) by (simp add: assign_partition_def Let_def)
  from emit_ok_state [OF this]
  have st': "st_state st' = apply_partition_assigned ?a (st_state st)"
    by (simp add: apply_event_def new_with_node_def)
  have "\<not> superseded ?a (st_state st)"
  proof (cases ?prev)
    case (Some p)
    with assms(2) [OF this] show ?thesis by (simp add: superseded_def isr next_leader_epoch_def)
  qed (simp add: superseded_def isr)
  then have held: "assignment_of (st_state st') k =
      (if k = assignment_key a then Some ?a else assignment_of (st_state st) k)" for k
    by (simp add: st' assigned_get isr)
  show ?thesis
  proof (cases ?prev)
    case None
    then show ?thesis by (simp add: held) (simp add: inherit_isr_def next_leader_epoch_def)
  next
    case (Some p)
    with assms(2) [OF this] show ?thesis
      by (simp add: held isr) (simp add: inherit_isr_def next_leader_epoch_def)
  qed
qed

theorem assign_partition_epoch_witness:
  "get_partition_leader_epoch ''t'' 0 (snd (assign_partition sample_env
     \<lparr>pa_topic = ''t'', pa_partition = 0, pa_broker_id = -1, pa_is_leader = False,
      pa_replicas = [1, 2], pa_leader_id = 1, pa_leader_epoch = 9, pa_isr = []\<rparr> (new_store 1 True))) = Some 0"
proof -
  let ?a = "\<lparr>pa_topic = ''t'', pa_partition = 0, pa_broker_id = -1, pa_is_leader = False,
      pa_replicas = [1, 2], pa_leader_id = 1, pa_leader_epoch = 9, pa_isr = []\<rparr>"
  let ?st = "new_store 1 True :: metadata_event store"
  have none: "assignment_of (st_state ?st) (assignment_key ?a) = None"
    by (simp add: new_store_def new_metadata_state_def)
  obtain st' where run: "assign_partition sample_env ?a ?st = (Inr (), st')"
    by (simp add: assign_partition_def emit_def emit_as_def write_and_apply_def op_bind_def wal_append_def
        apply_local_def sample_env_def event_to_bytes_def Let_def)
  from assign_partition_epoch [OF run] none run show ?thesis
    by (auto simp: get_partition_leader_epoch_def)
qed

end
