(* ===== verification/Varint.thy ===== *)
theory Varint
  imports Chronik_Prelude
begin

text \<open>
  The variable-length integers of the record format
  (\<open>chronik-storage/src/kafka_records.rs\<close>): zig-zag on a machine word, then seven bits per
  byte, lowest first, with the high bit of every byte but the last set. The definitions are
  generic in the word length; \<open>varint\<close> is the 32-bit and \<open>varlong\<close> the 64-bit instance.
\<close>

unbundle bit_operations_syntax

section \<open>Zig-zag\<close>

definition zigzag :: "'a::len word \<Rightarrow> 'a word" where
  "zigzag v = push_bit 1 v XOR signed_drop_bit (LENGTH('a) - 1) v"

definition unzigzag :: "'a::len word \<Rightarrow> 'a word" where
  "unzigzag v = drop_bit 1 v XOR - (v AND 1)"

lemma sign_fill:
  "n < LENGTH('a) \<Longrightarrow> bit (signed_drop_bit (LENGTH('a) - 1) v) n \<longleftrightarrow> bit v (LENGTH('a) - 1)"
  for v :: "'a::len word"
  by (cases n) (simp_all add: bit_signed_drop_bit_iff)

lemma bit_zigzag:
  fixes v :: "'a::len word"
  assumes "n < LENGTH('a)"
  shows "bit (zigzag v) n \<longleftrightarrow> (0 < n \<and> bit v (n - 1)) \<noteq> bit v (LENGTH('a) - 1)"
  using assms unfolding zigzag_def bit_xor_iff bit_push_bit_iff sign_fill [OF assms]
  by (auto simp: Suc_le_eq)

lemma unzigzag_zigzag: "unzigzag (zigzag v) = v" for v :: "'a::len word"
proof (rule bit_word_eqI)
  fix n assume n: "n < LENGTH('a)"
  have "bit (zigzag v AND 1) i \<longleftrightarrow> bit (of_bool (bit v (LENGTH('a) - 1)) :: 'a word) i" if "i < LENGTH('a)" for i
    using that bit_zigzag [OF that, of v] by (auto simp: bit_and_iff bit_1_iff bit_of_bool_iff)
  then have low: "zigzag v AND 1 = of_bool (bit v (LENGTH('a) - 1))"
    by (rule bit_word_eqI)
  have neg: "bit (- (zigzag v AND 1)) n = bit v (LENGTH('a) - 1)"
    using n by (auto simp: low)
  have "bit (drop_bit 1 (zigzag v)) n \<longleftrightarrow> n + 1 < LENGTH('a) \<and> (bit v n \<noteq> bit v (LENGTH('a) - 1))"
    using bit_zigzag [of "n + 1" v] bit_imp_le_length [of "zigzag v" "n + 1"]
    by (auto simp: bit_drop_bit_eq)
  then show "bit (unzigzag (zigzag v)) n = bit v n"
    using n neg by (cases "n + 1 < LENGTH('a)") (auto simp: unzigzag_def bit_xor_iff not_less le_Suc_eq)
qed

section \<open>Seven bits per byte\<close>

text \<open>
  The unsigned value is a natural number below two to the word length \<open>N\<close>; what the left
  shift moves past the word is cut off by \<^const>\<open>take_bit\<close>.
\<close>

function uvarint_bytes :: "nat \<Rightarrow> byte list" where
  "uvarint_bytes v =
     (if 0x80 \<le> v then word_of_nat (v OR 0x80) # uvarint_bytes (drop_bit 7 v) else [word_of_nat v])"
  by auto
termination
  by (relation "measure id") (simp_all add: drop_bit_eq_div)

declare uvarint_bytes.simps [simp del]

fun read_uvarint :: "'e \<Rightarrow> 'e \<Rightarrow> nat \<Rightarrow> nat \<Rightarrow> nat \<Rightarrow> ('e, nat) decoder" where
  "read_uvarint eof long N shift acc [] = Inl eof"
| "read_uvarint eof long N shift acc (b # bs) =
     (let acc' = acc OR take_bit N (push_bit shift (unat (b AND 0x7F)))
      in if b AND 0x80 = 0 then Inr (acc', bs)
         else if N \<le> shift + 7 then Inl long
         else read_uvarint eof long N (shift + 7) acc' bs)"

lemma byte_low7: "unat ((word_of_nat v :: byte) AND 0x7F) = take_bit 7 v"
proof -
  have "(0x7F :: byte) = mask 7" by (simp add: mask_eq_exp_minus_1)
  then have "(word_of_nat v :: byte) AND 0x7F = take_bit 7 (word_of_nat v)"
    by (simp add: take_bit_eq_mask)
  then show ?thesis
    by (simp add: unsigned_take_bit_eq unsigned_of_nat take_bit_take_bit)
qed

lemma byte_bit7: "((word_of_nat v :: byte) AND 0x80 = 0) \<longleftrightarrow> \<not> bit v 7"
proof -
  have pow: "(0x80 :: byte) = 2 ^ 7" by simp
  show ?thesis unfolding pow by (simp only: and_exp_eq_0_iff_not_bit) (simp add: bit_of_nat_iff)
qed

lemma low7_high: "take_bit 7 v OR push_bit 7 (drop_bit 7 v) = v" for v :: nat
proof (rule bit_eqI)
  show "bit (take_bit 7 v OR push_bit 7 (drop_bit 7 v)) n = bit v n" for n
    by (cases "n < 7") (simp_all add: bit_take_bit_iff bit_or_iff bit_push_bit_iff bit_drop_bit_eq)
qed

lemma shifted_fits: "v < 2 ^ (N - shift) \<Longrightarrow> shift \<le> N \<Longrightarrow> take_bit N (push_bit shift v) = push_bit shift v"
  for v :: nat
proof -
  assume "v < 2 ^ (N - shift)" "shift \<le> N"
  then have "v * 2 ^ shift < 2 ^ (N - shift) * 2 ^ shift" by simp
  also have "\<dots> = 2 ^ N" using \<open>shift \<le> N\<close> by (simp flip: power_add)
  finally show ?thesis by (simp add: push_bit_eq_mult take_bit_nat_eq_self)
qed

lemma read_uvarint_bytes:
  "v < 2 ^ (N - shift) \<Longrightarrow> shift < N \<Longrightarrow>
     read_uvarint eof long N shift acc (uvarint_bytes v @ rest) = Inr (acc OR push_bit shift v, rest)"
proof (induction v arbitrary: shift acc rule: uvarint_bytes.induct)
  case (1 v)
  show ?case
  proof (cases "0x80 \<le> v")
    case False
    then have "take_bit 7 v = v" by (simp add: take_bit_nat_eq_self)
    moreover from this have "\<not> bit v 7"
      by (metis bit_take_bit_iff less_irrefl)
    ultimately show ?thesis
      using False "1.prems" by (simp add: uvarint_bytes.simps [of v] byte_low7 byte_bit7 shifted_fits)
  next
    case True
    have bits: "N - shift = 7 + (N - (shift + 7))" and more: "shift + 7 < N"
    proof -
      have "(2 :: nat) ^ 7 < 2 ^ (N - shift)" using True "1.prems"(1) by simp
      then have "7 < N - shift" by (rule power_less_imp_less_exp [rotated]) simp
      then show "N - shift = 7 + (N - (shift + 7))" "shift + 7 < N" by simp_all
    qed
    have "drop_bit 7 v < 2 ^ (N - (shift + 7))"
      using "1.prems"(1) unfolding bits power_add by (simp add: drop_bit_eq_div div_less_iff_less_mult mult.commute)
    then have ih: "read_uvarint eof long N (shift + 7) a (uvarint_bytes (drop_bit 7 v) @ rest) =
        Inr (a OR push_bit (shift + 7) (drop_bit 7 v), rest)" for a
      using "1.IH" True more by blast
    have "take_bit 7 (v OR 0x80) = take_bit 7 v" "bit (v OR 0x80) 7"
    proof -
      have "(0x80 :: nat) = 2 ^ 7" by simp
      then show "take_bit 7 (v OR 0x80) = take_bit 7 v" "bit (v OR 0x80) 7"
        by (simp_all only: take_bit_or take_bit_of_exp bit_or_iff bit_exp_iff) simp_all
    qed
    moreover have "take_bit N (push_bit shift (take_bit 7 v)) = push_bit shift (take_bit 7 v)"
      using "1.prems" le_less_trans [OF take_bit_nat_less_eq_self [of 7 v]] by (intro shifted_fits) simp_all
    moreover have "(acc OR push_bit shift (take_bit 7 v)) OR push_bit (shift + 7) (drop_bit 7 v) = acc OR push_bit shift v"
      by (subst (2) low7_high [of v, symmetric])
        (simp only: push_bit_or push_bit_push_bit or.assoc add.commute)
    ultimately show ?thesis
      using True more ih by (simp add: uvarint_bytes.simps [of v] byte_low7 byte_bit7)
  qed
qed

section \<open>The two instances\<close>

definition encode_varint :: "int \<Rightarrow> byte list" where
  "encode_varint x = uvarint_bytes (unat (zigzag (word_of_int x :: 32 word)))"

definition decode_varint :: "'e \<Rightarrow> 'e \<Rightarrow> ('e, int) decoder" where
  "decode_varint eof long =
     dec_bind (read_uvarint eof long 32 0 0) (\<lambda>v. dec_return (sint (unzigzag (word_of_nat v :: 32 word))))"

definition encode_varlong :: "int \<Rightarrow> byte list" where
  "encode_varlong x = uvarint_bytes (unat (zigzag (word_of_int x :: 64 word)))"

definition decode_varlong :: "'e \<Rightarrow> 'e \<Rightarrow> ('e, int) decoder" where
  "decode_varlong eof long =
     dec_bind (read_uvarint eof long 64 0 0) (\<lambda>v. dec_return (sint (unzigzag (word_of_nat v :: 64 word))))"

lemma sint_word_in_signed:
  "in_signed 32 x \<Longrightarrow> sint (word_of_int x :: 32 word) = x"
  "in_signed 64 x \<Longrightarrow> sint (word_of_int x :: 64 word) = x"
  by (auto simp: in_signed_def signed_of_int signed_take_bit_int_eq_self)

interpretation varint_codec: codec encode_varint "decode_varint eof long" "in_signed 32" for eof long
proof unfold_locales
  fix x :: int and rest assume x: "in_signed 32 x"
  show "decode_varint eof long (encode_varint x @ rest) = Inr (x, rest)"
    using read_uvarint_bytes [of "unat (zigzag (word_of_int x :: 32 word))" 32 0 eof long 0 rest]
      unsigned_less [where 'a = nat, of "zigzag (word_of_int x :: 32 word)"] x
    by (simp add: decode_varint_def encode_varint_def dec_bind_def unzigzag_zigzag sint_word_in_signed)
qed

interpretation varlong_codec: codec encode_varlong "decode_varlong eof long" "in_signed 64" for eof long
proof unfold_locales
  fix x :: int and rest assume x: "in_signed 64 x"
  show "decode_varlong eof long (encode_varlong x @ rest) = Inr (x, rest)"
    using read_uvarint_bytes [of "unat (zigzag (word_of_int x :: 64 word))" 64 0 eof long 0 rest]
      unsigned_less [where 'a = nat, of "zigzag (word_of_int x :: 64 word)"] x
    by (simp add: decode_varlong_def encode_varlong_def dec_bind_def unzigzag_zigzag sint_word_in_signed)
qed

lemmas varint_run [codec_simps] = varint_codec.dec_enc
lemmas varlong_run [codec_simps] = varlong_codec.dec_enc

text \<open>A decoder that succeeds read at least one byte.\<close>

lemma read_uvarint_consumes:
  "read_uvarint eof long N shift acc bs = Inr (v, rest) \<Longrightarrow> length rest < length bs"
  by (induction eof long N shift acc bs rule: read_uvarint.induct)
    (auto simp: Let_def split: if_splits)

lemma decode_varint_consumes:
  "decode_varint eof long bs = Inr (v, rest) \<Longrightarrow> length rest < length bs"
  by (auto simp: decode_varint_def elim!: dec_bind_InrE dest: read_uvarint_consumes)

lemma decode_varlong_consumes:
  "decode_varlong eof long bs = Inr (v, rest) \<Longrightarrow> length rest < length bs"
  by (auto simp: decode_varlong_def elim!: dec_bind_InrE dest: read_uvarint_consumes)

end
