(* ===== verification/Record_Batch.thy ===== *)
theory Record_Batch
  imports Varint
begin

text \<open>
  Kafka record batches (\<open>chronik-storage/src/kafka_records.rs\<close>) and the end-of-transaction
  markers built from them (\<open>control_batch.rs\<close>): encoding, decoding of format v2 and the
  conversion of the legacy message sets. The compression libraries and CRC-32C are third-party
  code and parameters of the model.
\<close>

section \<open>Data\<close>

definition MAGIC_V2 :: int where "MAGIC_V2 = 2"
definition MAGIC_V1 :: int where "MAGIC_V1 = 1"
definition MAGIC_V0 :: int where "MAGIC_V0 = 0"

definition COMPRESSION_CODEC_MASK :: int where "COMPRESSION_CODEC_MASK = 0x07"
definition TRANSACTIONAL_FLAG :: int where "TRANSACTIONAL_FLAG = 0x10"
definition CONTROL_FLAG :: int where "CONTROL_FLAG = 0x20"

datatype compression_type = NoCompression | Gzip | Snappy | Lz4 | Zstd

definition compression_code :: "compression_type \<Rightarrow> int" where
  "compression_code c = (case c of NoCompression \<Rightarrow> 0 | Gzip \<Rightarrow> 1 | Snappy \<Rightarrow> 2 | Lz4 \<Rightarrow> 3 | Zstd \<Rightarrow> 4)"

definition from_attributes :: "int \<Rightarrow> compression_type" where
  "from_attributes a =
     (let c = a AND COMPRESSION_CODEC_MASK in
      if c = 0 then NoCompression else if c = 1 then Gzip else if c = 2 then Snappy
      else if c = 3 then Lz4 else if c = 4 then Zstd else NoCompression)"

record batch_header =
  bh_base_offset :: int
  bh_batch_length :: int
  bh_partition_leader_epoch :: int
  bh_magic :: int
  bh_crc :: int
  bh_attributes :: int
  bh_last_offset_delta :: int
  bh_base_timestamp :: int
  bh_max_timestamp :: int
  bh_producer_id :: int
  bh_producer_epoch :: int
  bh_base_sequence :: int
  bh_records_count :: int

record kafka_header =
  kh_key :: string
  kh_value :: "byte list option"

record kafka_record =
  kr_length :: int
  kr_attributes :: int
  kr_timestamp_delta :: int
  kr_offset_delta :: int
  kr_key :: "byte list option"
  kr_value :: "byte list option"
  kr_headers :: "kafka_header list"

record kafka_batch =
  kb_header :: batch_header
  kb_records :: "kafka_record list"
  compressed_records_data :: "byte list option"

record codecs =
  gzip_compress :: "byte list \<Rightarrow> byte list option"
  gzip_decompress :: "byte list \<Rightarrow> byte list option"
  snappy_compress :: "byte list \<Rightarrow> byte list option"
  snappy_decompress :: "byte list \<Rightarrow> byte list option"
  lz4_compress :: "byte list \<Rightarrow> byte list"
  lz4_decompress :: "byte list \<Rightarrow> byte list option"
  zstd_compress :: "byte list \<Rightarrow> byte list option"
  zstd_decompress :: "byte list \<Rightarrow> byte list option"
  crc32c :: "byte list \<Rightarrow> int"

datatype batch_error =
    UnexpectedEof
  | VarintTooLong
  | BatchTruncated
  | UnsupportedMagic int
  | InvalidHeadersCount int
  | InvalidHeaderKeyLength int
  | InvalidHeaderValueLength int
  | InvalidHeaderKey
  | CompressionFailed
  | DecompressionFailed
  | InvalidXerialBlock

section \<open>Building a batch\<close>

definition new_batch :: "int \<Rightarrow> int \<Rightarrow> int \<Rightarrow> int \<Rightarrow> int \<Rightarrow> compression_type \<Rightarrow> bool \<Rightarrow> kafka_batch" where
  "new_batch base_offset base_timestamp pid epoch base_sequence c is_transactional =
     \<lparr>kb_header =
        \<lparr>bh_base_offset = base_offset, bh_batch_length = 0, bh_partition_leader_epoch = -1,
         bh_magic = MAGIC_V2, bh_crc = 0,
         bh_attributes = (if is_transactional then compression_code c OR TRANSACTIONAL_FLAG else compression_code c),
         bh_last_offset_delta = 0, bh_base_timestamp = base_timestamp, bh_max_timestamp = base_timestamp,
         bh_producer_id = pid, bh_producer_epoch = epoch, bh_base_sequence = base_sequence,
         bh_records_count = 0\<rparr>,
      kb_records = [], compressed_records_data = None\<rparr>"

definition add_record ::
  "byte list option \<Rightarrow> byte list option \<Rightarrow> kafka_header list \<Rightarrow> int \<Rightarrow> kafka_batch \<Rightarrow> kafka_batch" where
  "add_record key val hs ts b =
     (let h = kb_header b;
          offset_delta = swrap 32 (int (length (kb_records b)));
          r = \<lparr>kr_length = 0, kr_attributes = 0, kr_timestamp_delta = swrap 64 (ts - bh_base_timestamp h),
               kr_offset_delta = offset_delta, kr_key = key, kr_value = val, kr_headers = hs\<rparr>
      in b\<lparr>kb_records := kb_records b @ [r],
           kb_header := h\<lparr>bh_max_timestamp := max ts (bh_max_timestamp h),
             bh_last_offset_delta := offset_delta,
             bh_records_count := swrap 32 (int (length (kb_records b) + 1))\<rparr>\<rparr>)"

section \<open>Encoding\<close>

definition bytes_of_option :: "byte list option \<Rightarrow> byte list" where
  "bytes_of_option v = (case v of Some bs \<Rightarrow> encode_varint (int (length bs)) @ bs | None \<Rightarrow> encode_varint (-1))"

definition kafka_header_bytes :: "kafka_header \<Rightarrow> byte list" where
  "kafka_header_bytes h =
     encode_varint (int (length (kh_key h))) @ as_bytes (kh_key h) @ bytes_of_option (kh_value h)"

definition record_body :: "kafka_record \<Rightarrow> byte list" where
  "record_body r =
     be_bytes 1 (kr_attributes r) @ encode_varlong (kr_timestamp_delta r) @ encode_varint (kr_offset_delta r) @
     bytes_of_option (kr_key r) @ bytes_of_option (kr_value r) @
     encode_varint (int (length (kr_headers r))) @ concat (map kafka_header_bytes (kr_headers r))"

definition encode_record :: "kafka_record \<Rightarrow> byte list" where
  "encode_record r = encode_varint (int (length (record_body r))) @ record_body r"

definition compress :: "codecs \<Rightarrow> compression_type \<Rightarrow> byte list \<Rightarrow> byte list option" where
  "compress cs c bs =
     (case c of NoCompression \<Rightarrow> Some bs | Gzip \<Rightarrow> gzip_compress cs bs | Snappy \<Rightarrow> snappy_compress cs bs
      | Lz4 \<Rightarrow> Some (lz4_compress cs bs) | Zstd \<Rightarrow> zstd_compress cs bs)"

definition encode_records :: "codecs \<Rightarrow> kafka_batch \<Rightarrow> batch_error + byte list" where
  "encode_records cs b =
     (case compress cs (from_attributes (bh_attributes (kb_header b))) (concat (map encode_record (kb_records b))) of
        None \<Rightarrow> Inl CompressionFailed | Some bs \<Rightarrow> Inr bs)"

text \<open>The bytes that the checksum covers, from the attributes to the end.\<close>

definition checked_bytes :: "batch_header \<Rightarrow> byte list \<Rightarrow> byte list" where
  "checked_bytes h records =
     be_bytes 2 (bh_attributes h) @ be_bytes 4 (bh_last_offset_delta h) @ be_bytes 8 (bh_base_timestamp h) @
     be_bytes 8 (bh_max_timestamp h) @ be_bytes 8 (bh_producer_id h) @ be_bytes 2 (bh_producer_epoch h) @
     be_bytes 4 (bh_base_sequence h) @ be_bytes 4 (bh_records_count h) @ records"

definition batch_bytes :: "batch_header \<Rightarrow> int \<Rightarrow> byte list \<Rightarrow> byte list" where
  "batch_bytes h crc records =
     be_bytes 8 (bh_base_offset h) @ be_bytes 4 (9 + int (length (checked_bytes h records))) @
     be_bytes 4 (bh_partition_leader_epoch h) @ be_bytes 1 (bh_magic h) @ be_bytes 4 crc @
     checked_bytes h records"

definition encode_batch :: "codecs \<Rightarrow> kafka_batch \<Rightarrow> batch_error + byte list" where
  "encode_batch cs b =
     (case encode_records cs b of
        Inl e \<Rightarrow> Inl e
      | Inr records \<Rightarrow>
        Inr (batch_bytes (kb_header b) (crc32c cs (checked_bytes (kb_header b) records)) records))"

section \<open>Decoding\<close>

definition read_int :: "nat \<Rightarrow> (batch_error, int) decoder" where
  "read_int n = dec_be_sint UnexpectedEof n"

definition read_uint :: "nat \<Rightarrow> (batch_error, int) decoder" where
  "read_uint n = dec_be_uint UnexpectedEof n"

abbreviation read_varint :: "(batch_error, int) decoder" where
  "read_varint \<equiv> decode_varint UnexpectedEof VarintTooLong"

abbreviation read_varlong :: "(batch_error, int) decoder" where
  "read_varlong \<equiv> decode_varlong UnexpectedEof VarintTooLong"

definition read_option :: "(batch_error, byte list option) decoder" where
  "read_option =
     dec_bind read_varint (\<lambda>n.
       if 0 \<le> n then dec_bind (take_bytes UnexpectedEof (nat n)) (\<lambda>bs. dec_return (Some bs)) else dec_return None)"

definition read_kafka_header :: "(batch_error, kafka_header) decoder" where
  "read_kafka_header =
     dec_bind read_varint (\<lambda>klen.
     if klen < 0 \<or> 10000 < klen then dec_fail (InvalidHeaderKeyLength klen) else
     dec_bind (take_bytes UnexpectedEof (nat klen)) (\<lambda>kbs.
     dec_bind (dec_utf8 InvalidHeaderKey kbs) (\<lambda>key.
     dec_bind read_varint (\<lambda>vlen.
     if 0 \<le> vlen then
       (if 1000000 < vlen then dec_fail (InvalidHeaderValueLength vlen)
        else dec_bind (take_bytes UnexpectedEof (nat vlen)) (\<lambda>v. dec_return \<lparr>kh_key = key, kh_value = Some v\<rparr>))
     else dec_return \<lparr>kh_key = key, kh_value = None\<rparr>))))"

definition read_kafka_record :: "(batch_error, kafka_record) decoder" where
  "read_kafka_record =
     dec_bind read_varint (\<lambda>len.
     dec_bind (read_int 1) (\<lambda>att.
     dec_bind read_varlong (\<lambda>tsd.
     dec_bind read_varint (\<lambda>offd.
     dec_bind read_option (\<lambda>key.
     dec_bind read_option (\<lambda>val.
     dec_bind read_varint (\<lambda>hc.
     if hc < 0 \<or> 1000 < hc then dec_fail (InvalidHeadersCount hc) else
     dec_bind (dec_repeat (nat hc) read_kafka_header) (\<lambda>hs.
     dec_return \<lparr>kr_length = len, kr_attributes = att, kr_timestamp_delta = tsd, kr_offset_delta = offd,
                 kr_key = key, kr_value = val, kr_headers = hs\<rparr>))))))))"

lemma dec_bind_shrinks:
  assumes "dec_bind d f bs = Inr (x, rest)" and "\<And>y r. d bs = Inr (y, r) \<Longrightarrow> length r \<le> length bs"
    and "\<And>y r. f y r = Inr (x, rest) \<Longrightarrow> length rest \<le> length r"
  shows "length rest \<le> length bs"
  using assms(1) by (rule dec_bind_InrE) (meson assms(2,3) order_trans)

definition shrinks :: "('e, 'a) decoder \<Rightarrow> bool" where
  "shrinks d \<longleftrightarrow> (\<forall>bs x rest. d bs = Inr (x, rest) \<longrightarrow> length rest \<le> length bs)"

lemma shrinks_bind: "shrinks d \<Longrightarrow> (\<And>x. shrinks (f x)) \<Longrightarrow> shrinks (dec_bind d f)"
  unfolding shrinks_def by (blast intro: dec_bind_shrinks)

lemma shrinks_if: "shrinks d \<Longrightarrow> shrinks d' \<Longrightarrow> shrinks (if c then d else d')"
  by simp

lemma shrinks_basic:
  "shrinks (dec_return x)" "shrinks (dec_fail e)" "shrinks (take_bytes e n)"
  "shrinks read_varint" "shrinks read_varlong" "shrinks (dec_utf8 e bs)"
  by (auto simp: shrinks_def take_bytes_def dec_utf8_def split: if_splits option.splits
      dest: decode_varint_consumes decode_varlong_consumes less_imp_le)

lemma shrinks_read_int: "shrinks (read_int n)"
  unfolding read_int_def dec_be_sint_def by (intro shrinks_bind shrinks_basic)

lemma shrinks_repeat: "shrinks d \<Longrightarrow> shrinks (dec_repeat n d)"
  by (induction n) (auto intro!: shrinks_bind shrinks_basic)

lemma shrinks_option: "shrinks read_option"
  unfolding read_option_def by (auto intro!: shrinks_bind shrinks_basic)

lemma shrinks_kafka_header: "shrinks read_kafka_header"
  unfolding read_kafka_header_def by (auto intro!: shrinks_bind shrinks_basic)

lemma read_kafka_record_consumes:
  assumes "read_kafka_record bs = Inr (r, rest)"
  shows "length rest < length bs"
  using assms unfolding read_kafka_record_def
proof (rule dec_bind_InrE)
  fix len r1
  assume len: "read_varint bs = Inr (len, r1)"
    and body: "dec_bind (read_int 1) (\<lambda>att. dec_bind read_varlong (\<lambda>tsd. dec_bind read_varint (\<lambda>offd.
      dec_bind read_option (\<lambda>key. dec_bind read_option (\<lambda>val. dec_bind read_varint (\<lambda>hc.
      if hc < 0 \<or> 1000 < hc then dec_fail (InvalidHeadersCount hc) else
      dec_bind (dec_repeat (nat hc) read_kafka_header) (\<lambda>hs.
      dec_return \<lparr>kr_length = len, kr_attributes = att, kr_timestamp_delta = tsd, kr_offset_delta = offd,
        kr_key = key, kr_value = val, kr_headers = hs\<rparr>))))))) r1 = Inr (r, rest)" (is "?d r1 = _")
  have "shrinks ?d"
    by (intro shrinks_bind shrinks_if shrinks_basic shrinks_read_int shrinks_option shrinks_repeat shrinks_kafka_header)
  then have "length rest \<le> length r1" using body unfolding shrinks_def by blast
  with decode_varint_consumes [OF len] show ?thesis by simp
qed

text \<open>\<open>decode_records\<close>: the loop ends at the end of the data or once \<open>count\<close> records were read.\<close>

function decode_records :: "byte list \<Rightarrow> int \<Rightarrow> int \<Rightarrow> batch_error + kafka_record list" where
  "decode_records data count records_read =
     (if data = [] then Inr []
      else if 0 \<le> count \<and> count \<le> records_read then Inr []
      else (case read_kafka_record data of
              Inl e \<Rightarrow> Inl e
            | Inr (r, rest) \<Rightarrow>
              (case decode_records rest count (records_read + 1) of
                 Inl e \<Rightarrow> Inl e | Inr rs \<Rightarrow> Inr (r # rs))))"
  by auto
termination
  by (relation "measure (\<lambda>(data, _, _). length data)") (auto dest: read_kafka_record_consumes)

declare decode_records.simps [simp del]

section \<open>Decompression\<close>

definition XERIAL_HEADER :: "byte list" where
  "XERIAL_HEADER = [0x82, 0x53, 0x4E, 0x41, 0x50, 0x50, 0x59, 0]"

function xerial_blocks :: "codecs \<Rightarrow> byte list \<Rightarrow> batch_error + byte list" where
  "xerial_blocks cs bs =
     (if length bs < 4 then Inr []
      else
        let block_size = nat (be_uint (take 4 bs)); rest = drop 4 bs
        in if block_size = 0 \<or> length rest < block_size then Inl InvalidXerialBlock
           else (case snappy_decompress cs (take block_size rest) of
                   None \<Rightarrow> Inl DecompressionFailed
                 | Some out \<Rightarrow>
                   (case xerial_blocks cs (drop block_size rest) of
                      Inl e \<Rightarrow> Inl e | Inr blocks \<Rightarrow> Inr (out @ blocks))))"
  by auto
termination
  by (relation "measure (\<lambda>(_, bs). length bs)") auto

declare xerial_blocks.simps [simp del]

definition or_failed :: "byte list option \<Rightarrow> batch_error + byte list" where
  "or_failed r = (case r of None \<Rightarrow> Inl DecompressionFailed | Some bs \<Rightarrow> Inr bs)"

definition decompress :: "codecs \<Rightarrow> compression_type \<Rightarrow> byte list \<Rightarrow> batch_error + byte list" where
  "decompress cs c bs =
     (case c of
        NoCompression \<Rightarrow> Inr bs
      | Gzip \<Rightarrow> or_failed (gzip_decompress cs bs)
      | Snappy \<Rightarrow>
        (if 16 < length bs \<and> take 8 bs = XERIAL_HEADER then xerial_blocks cs (drop 16 bs)
         else or_failed (snappy_decompress cs bs))
      | Lz4 \<Rightarrow> or_failed (lz4_decompress cs bs)
      | Zstd \<Rightarrow> or_failed (zstd_decompress cs bs))"


section \<open>Legacy message sets\<close>

definition empty_header :: batch_header where
  "empty_header =
     \<lparr>bh_base_offset = 0, bh_batch_length = 0, bh_partition_leader_epoch = -1, bh_magic = MAGIC_V2, bh_crc = 0,
      bh_attributes = 0, bh_last_offset_delta = 0, bh_base_timestamp = 0, bh_max_timestamp = 0,
      bh_producer_id = -1, bh_producer_epoch = -1, bh_base_sequence = -1, bh_records_count = 0\<rparr>"

definition empty_batch :: kafka_batch where
  "empty_batch = \<lparr>kb_header = empty_header, kb_records = [], compressed_records_data = None\<rparr>"

record legacy_state =
  ls_base_offset :: int
  ls_base_timestamp :: int
  ls_max_timestamp :: int
  ls_records :: "kafka_record list"

record legacy_message =
  lm_attributes :: int
  lm_timestamp :: "int option"
  lm_key :: "byte list option"
  lm_value :: "byte list option"

text \<open>
  A message after its offset and size: checksum, magic, attributes, the time stamp of a v1
  message, key and value. The checksum is not looked at.
\<close>

definition read_sized :: "(batch_error, byte list option) decoder" where
  "read_sized =
     dec_bind (read_int 4) (\<lambda>n.
       if 0 \<le> n then dec_bind (take_bytes UnexpectedEof (nat n)) (\<lambda>bs. dec_return (Some bs)) else dec_return None)"

definition read_legacy_message :: "(batch_error, legacy_message) decoder" where
  "read_legacy_message =
     dec_bind (read_uint 4) (\<lambda>_.
     dec_bind (read_int 1) (\<lambda>magic.
     dec_bind (read_int 1) (\<lambda>att.
     dec_bind (if magic = MAGIC_V1 then dec_bind (read_int 8) (\<lambda>ts. dec_return (Some ts)) else dec_return None) (\<lambda>ts.
     dec_bind read_sized (\<lambda>key.
     dec_bind read_sized (\<lambda>val.
     dec_return \<lparr>lm_attributes = att, lm_timestamp = ts, lm_key = key, lm_value = val\<rparr>))))))"

definition see_timestamp :: "int option \<Rightarrow> legacy_state \<Rightarrow> legacy_state" where
  "see_timestamp ts st =
     (case ts of
        None \<Rightarrow> st
      | Some t \<Rightarrow>
        st\<lparr>ls_max_timestamp := max t (ls_max_timestamp st),
           ls_base_timestamp :=
             (if ls_base_timestamp st = 0 \<or> t < ls_base_timestamp st then t else ls_base_timestamp st)\<rparr>)"

definition add_plain :: "int \<Rightarrow> legacy_message \<Rightarrow> legacy_state \<Rightarrow> legacy_state" where
  "add_plain off m st =
     st\<lparr>ls_records := ls_records st @
        [\<lparr>kr_length = 0, kr_attributes = 0,
          kr_timestamp_delta = swrap 64 ((case lm_timestamp m of None \<Rightarrow> 0 | Some t \<Rightarrow> t) - ls_base_timestamp st),
          kr_offset_delta = swrap 32 (off - ls_base_offset st),
          kr_key = lm_key m, kr_value = lm_value m, kr_headers = []\<rparr>]\<rparr>"

definition add_nested :: "kafka_record list \<Rightarrow> legacy_state \<Rightarrow> legacy_state" where
  "add_nested rs st =
     st\<lparr>ls_max_timestamp :=
          fold (\<lambda>r. max (swrap 64 (ls_base_timestamp st + kr_timestamp_delta r))) rs (ls_max_timestamp st),
        ls_records := ls_records st @ rs\<rparr>"

definition legacy_step ::
  "(byte list \<Rightarrow> (batch_error + kafka_batch \<times> nat) option) \<Rightarrow> codecs \<Rightarrow> int \<Rightarrow> legacy_message \<Rightarrow> legacy_state \<Rightarrow>
     (batch_error + legacy_state) option" where
  "legacy_step nested cs off m st =
     (let st1 = see_timestamp (lm_timestamp m) st;
          c = from_attributes (uwrap 16 (lm_attributes m));
          val = (case lm_value m of None \<Rightarrow> [] | Some v \<Rightarrow> v)
      in if c \<noteq> NoCompression \<and> val \<noteq> [] then
           (case decompress cs c val of
              Inl e \<Rightarrow> Some (Inl e)
            | Inr inner \<Rightarrow>
              (case nested inner of
                 None \<Rightarrow> None
               | Some (Inl e) \<Rightarrow> Some (Inl e)
               | Some (Inr (b, _)) \<Rightarrow> Some (Inr (add_nested (kb_records b) st1))))
         else Some (Inr (add_plain off m st1)))"

text \<open>
  The loop over the messages returns the unread bytes with the state: it stops when fewer
  than twelve bytes remain, or after an offset and a size that the rest does not cover.
\<close>

definition read_offset_size :: "(batch_error, int \<times> int) decoder" where
  "read_offset_size = dec_bind (read_int 8) (\<lambda>off. dec_bind (read_int 4) (\<lambda>n. dec_return (off, n)))"

lemma read_offset_size_consumes: "read_offset_size bs = Inr (x, rest) \<Longrightarrow> length bs = length rest + 12"
  by (auto simp: read_offset_size_def read_int_def dec_be_sint_def dec_bind_def take_bytes_def
      split: if_splits sum.splits prod.splits)

lemma shrinks_legacy_message: "shrinks read_legacy_message"
proof -
  have u: "shrinks (read_uint n)" for n
    unfolding read_uint_def dec_be_uint_def by (intro shrinks_bind shrinks_basic)
  have "shrinks read_sized"
    unfolding read_sized_def by (intro shrinks_bind shrinks_if shrinks_basic shrinks_read_int)
  with u show ?thesis
    unfolding read_legacy_message_def by (intro shrinks_bind shrinks_if shrinks_basic shrinks_read_int)
qed

function legacy_loop ::
  "(byte list \<Rightarrow> (batch_error + kafka_batch \<times> nat) option) \<Rightarrow> codecs \<Rightarrow> legacy_state \<Rightarrow> byte list \<Rightarrow>
     (batch_error + legacy_state \<times> byte list) option" where
  "legacy_loop nested cs st bs =
     (if length bs < 12 then Some (Inr (st, bs))
      else (case read_offset_size bs of
        Inl e \<Rightarrow> Some (Inl e)
      | Inr ((off, message_size), rest) \<Rightarrow>
        let st1 = (if ls_base_offset st = 0 then st\<lparr>ls_base_offset := off\<rparr> else st)
        in if int (length rest) < uwrap 64 message_size then Some (Inr (st1, rest))
           else (case read_legacy_message rest of
                   Inl e \<Rightarrow> Some (Inl e)
                 | Inr (m, rest') \<Rightarrow>
                   (case legacy_step nested cs off m st1 of
                      None \<Rightarrow> None
                    | Some (Inl e) \<Rightarrow> Some (Inl e)
                    | Some (Inr st2) \<Rightarrow> legacy_loop nested cs st2 rest'))))"
  by auto
termination
  using shrinks_legacy_message
  by (relation "measure (\<lambda>(_, _, _, bs). length bs)")
    (auto simp: shrinks_def dest!: read_offset_size_consumes, fastforce)

declare legacy_loop.simps [simp del]

definition legacy_batch :: "legacy_state \<Rightarrow> kafka_batch" where
  "legacy_batch st =
     \<lparr>kb_header = empty_header\<lparr>bh_base_offset := ls_base_offset st,
        bh_last_offset_delta := swrap 32 (int (length (ls_records st)) - 1),
        bh_base_timestamp := ls_base_timestamp st, bh_max_timestamp := ls_max_timestamp st,
        bh_records_count := swrap 32 (int (length (ls_records st)))\<rparr>,
      kb_records = ls_records st, compressed_records_data = None\<rparr>"

text \<open>
  A compressed message holds a nested message set, to any depth: the recursion has no bound
  of its own, so the model carries fuel, one unit per nesting level, and running out is
  \<open>None\<close>.
\<close>

fun decode_legacy_message_set :: "nat \<Rightarrow> codecs \<Rightarrow> byte list \<Rightarrow> (batch_error + kafka_batch \<times> nat) option" where
  "decode_legacy_message_set 0 cs data = None"
| "decode_legacy_message_set (Suc n) cs data =
     (case legacy_loop (decode_legacy_message_set n cs) cs
             \<lparr>ls_base_offset = 0, ls_base_timestamp = 0, ls_max_timestamp = 0, ls_records = []\<rparr> data of
        None \<Rightarrow> None
      | Some (Inl e) \<Rightarrow> Some (Inl e)
      | Some (Inr (st, rest)) \<Rightarrow> Some (Inr (legacy_batch st, length data - length rest)))"

section \<open>Decoding a batch\<close>

definition read_batch_fields :: "int \<Rightarrow> int \<Rightarrow> int \<Rightarrow> int \<Rightarrow> (batch_error, batch_header) decoder" where
  "read_batch_fields base_offset batch_length ple magic =
     dec_bind (read_uint 4) (\<lambda>crc.
     dec_bind (read_uint 2) (\<lambda>att.
     dec_bind (read_int 4) (\<lambda>lod.
     dec_bind (read_int 8) (\<lambda>bts.
     dec_bind (read_int 8) (\<lambda>mts.
     dec_bind (read_int 8) (\<lambda>pid.
     dec_bind (read_int 2) (\<lambda>pep.
     dec_bind (read_int 4) (\<lambda>seq.
     dec_bind (read_int 4) (\<lambda>rc.
     dec_return
       \<lparr>bh_base_offset = base_offset, bh_batch_length = batch_length, bh_partition_leader_epoch = ple,
        bh_magic = magic, bh_crc = crc, bh_attributes = att, bh_last_offset_delta = lod,
        bh_base_timestamp = bts, bh_max_timestamp = mts, bh_producer_id = pid, bh_producer_epoch = pep,
        bh_base_sequence = seq, bh_records_count = rc\<rparr>)))))))))"

definition finish_batch :: "codecs \<Rightarrow> int \<Rightarrow> batch_header \<Rightarrow> byte list \<Rightarrow> batch_error + kafka_batch \<times> nat" where
  "finish_batch cs expected_total h compressed_buf =
     (case decompress cs (from_attributes (bh_attributes h)) compressed_buf of
        Inl e \<Rightarrow> Inl e
      | Inr records_data \<Rightarrow>
        (case decode_records records_data (bh_records_count h) 0 of
           Inl e \<Rightarrow> Inl e
         | Inr rs \<Rightarrow>
           Inr (\<lparr>kb_header = h, kb_records = rs, compressed_records_data = Some compressed_buf\<rparr>, nat expected_total)))"

text \<open>\<open>12 + batch_length as usize\<close> in 64-bit unsigned arithmetic.\<close>

definition expected_total_size :: "int \<Rightarrow> int" where
  "expected_total_size batch_length = uwrap 64 (12 + uwrap 64 batch_length)"

definition decode_batch :: "nat \<Rightarrow> codecs \<Rightarrow> byte list \<Rightarrow> (batch_error + kafka_batch \<times> nat) option" where
  "decode_batch fuel cs data =
     (if length data < 17 then Some (Inr (empty_batch, 0))
      else if data ! 16 = 0 \<or> data ! 16 = 1 then decode_legacy_message_set fuel cs data
      else (case read_offset_size data of
        Inl e \<Rightarrow> Some (Inl e)
      | Inr ((base_offset, batch_length), r1) \<Rightarrow>
        if int (length data) < expected_total_size batch_length then Some (Inl BatchTruncated)
        else (case dec_bind (read_int 4) (\<lambda>ple. dec_bind (read_int 1) (\<lambda>magic. dec_return (ple, magic))) r1 of
          Inl e \<Rightarrow> Some (Inl e)
        | Inr ((ple, magic), r2) \<Rightarrow>
          if magic \<noteq> MAGIC_V2 then
            (if magic = MAGIC_V0 \<or> magic = MAGIC_V1 then decode_legacy_message_set fuel cs data
             else Some (Inl (UnsupportedMagic magic)))
          else (case read_batch_fields base_offset batch_length ple magic r2 of
            Inl e \<Rightarrow> Some (Inl e)
          | Inr (h, compressed_buf) \<Rightarrow>
            Some (finish_batch cs (expected_total_size batch_length) h compressed_buf)))))"

section \<open>End-of-transaction markers\<close>

datatype control_marker = Abort | Commit

definition marker_code :: "control_marker \<Rightarrow> int" where
  "marker_code m = (case m of Abort \<Rightarrow> 0 | Commit \<Rightarrow> 1)"

definition marker_key :: "control_marker \<Rightarrow> byte list" where
  "marker_key m = be_bytes 2 0 @ be_bytes 2 (marker_code m)"

definition marker_batch :: "int \<Rightarrow> int \<Rightarrow> int \<Rightarrow> control_marker \<Rightarrow> int \<Rightarrow> kafka_batch" where
  "marker_batch base_offset pid epoch m ts =
     (let b = new_batch base_offset ts pid epoch 0 NoCompression True;
          b1 = b\<lparr>kb_header := (kb_header b)\<lparr>bh_attributes := bh_attributes (kb_header b) OR CONTROL_FLAG\<rparr>\<rparr>
      in add_record (Some (marker_key m)) (Some (be_bytes 2 0 @ be_bytes 4 0)) [] ts b1)"

definition build_end_txn_marker :: "codecs \<Rightarrow> int \<Rightarrow> int \<Rightarrow> int \<Rightarrow> control_marker \<Rightarrow> int \<Rightarrow> byte list" where
  "build_end_txn_marker cs base_offset pid epoch m ts =
     (case encode_batch cs (marker_batch base_offset pid epoch m ts) of Inl _ \<Rightarrow> [] | Inr bs \<Rightarrow> bs)"


section \<open>Round trips\<close>

definition option_ok :: "byte list option \<Rightarrow> bool" where
  "option_ok v \<longleftrightarrow> (case v of None \<Rightarrow> True | Some bs \<Rightarrow> int (length bs) < 2 ^ 31)"

definition kafka_header_ok :: "kafka_header \<Rightarrow> bool" where
  "kafka_header_ok h \<longleftrightarrow> rust_str (kh_key h) \<and> length (kh_key h) \<le> 10000 \<and>
     (case kh_value h of None \<Rightarrow> True | Some v \<Rightarrow> int (length v) \<le> 1000000)"

definition sized :: "kafka_record \<Rightarrow> kafka_record" where
  "sized r = r\<lparr>kr_length := int (length (record_body r))\<rparr>"

definition record_fields_ok :: "kafka_record \<Rightarrow> bool" where
  "record_fields_ok r \<longleftrightarrow>
     in_signed 8 (kr_attributes r) \<and> in_signed 64 (kr_timestamp_delta r) \<and> in_signed 32 (kr_offset_delta r) \<and>
     option_ok (kr_key r) \<and> option_ok (kr_value r) \<and> length (kr_headers r) \<le> 1000 \<and>
     list_all kafka_header_ok (kr_headers r) \<and> int (length (record_body r)) < 2 ^ 31"

lemma in_signed_length: "int n < 2 ^ 31 \<Longrightarrow> in_signed 32 (int n)"
  by (simp add: in_signed_def)

interpretation option_codec: codec bytes_of_option read_option option_ok
proof unfold_locales
  fix v :: "byte list option" and rest :: "byte list"
  assume "option_ok v"
  then show "read_option (bytes_of_option v @ rest) = Inr (v, rest)"
    by (cases v) (simp_all add: option_ok_def bytes_of_option_def read_option_def codec_simps in_signed_length)
qed

interpretation kafka_header_codec: codec kafka_header_bytes read_kafka_header kafka_header_ok
proof unfold_locales
  fix h :: kafka_header and rest :: "byte list"
  assume ok: "kafka_header_ok h"
  obtain k v where h: "h = \<lparr>kh_key = k, kh_value = v\<rparr>" by (cases h)
  have "in_signed 32 (int (length k))" "rust_str k" "length k \<le> 10000"
    using ok by (auto simp: h kafka_header_ok_def in_signed_def)
  then show "read_kafka_header (kafka_header_bytes h @ rest) = Inr (h, rest)"
    using ok
    by (cases v) (simp_all add: h kafka_header_ok_def kafka_header_bytes_def bytes_of_option_def
        read_kafka_header_def codec_simps in_signed_def)
qed

lemma sized_simps [simp]:
  "record_body (sized r) = record_body r" "encode_record (sized r) = encode_record r"
  by (simp_all add: sized_def record_body_def encode_record_def)

interpretation record_codec: codec encode_record read_kafka_record
  "\<lambda>r. record_fields_ok r \<and> kr_length r = int (length (record_body r))"
proof unfold_locales
  fix r :: kafka_record and rest :: "byte list"
  assume ok: "record_fields_ok r \<and> kr_length r = int (length (record_body r))"
  then have len: "in_signed 32 (int (length (record_body r)))"
    by (simp add: record_fields_ok_def in_signed_length)
  have hs: "dec_repeat (length (kr_headers r)) read_kafka_header
      (concat (map kafka_header_bytes (kr_headers r)) @ rest) = Inr (kr_headers r, rest)"
    using ok by (intro kafka_header_codec.repeat_enc) (simp add: record_fields_ok_def list_all_iff)
  have hc: "in_signed 32 (int (length (kr_headers r)))" "length (kr_headers r) \<le> 1000"
    using ok by (simp_all add: record_fields_ok_def in_signed_def)
  have "read_kafka_record (encode_varint (int (length (record_body r))) @ record_body r @ rest) = Inr (r, rest)"
    using ok len hc hs
    by (simp add: read_kafka_record_def codec_simps record_body_def [of r] record_fields_ok_def
        read_int_def option_codec.dec_enc del: One_nat_def)
  then show "read_kafka_record (encode_record r @ rest) = Inr (r, rest)"
    by (simp add: encode_record_def)
qed


lemma encode_record_nonempty: "encode_record r \<noteq> []"
  by (auto simp: encode_record_def record_body_def be_bytes_def)

lemma decode_records_run:
  assumes "\<And>r. r \<in> set rs \<Longrightarrow> record_fields_ok r" and "0 \<le> k"
  shows "decode_records (concat (map encode_record rs) @ rest) (k + int (length rs)) k = Inr (map sized rs)"
  using assms
proof (induction rs arbitrary: k)
  case Nil
  then show ?case by (simp add: decode_records.simps)
next
  case (Cons r rs)
  have "read_kafka_record (encode_record (sized r) @ concat (map encode_record rs) @ rest) =
      Inr (sized r, concat (map encode_record rs) @ rest)"
    using Cons.prems by (intro record_codec.dec_enc) (auto simp: record_fields_ok_def sized_def record_body_def)
  moreover have "decode_records (concat (map encode_record rs) @ rest) (k + 1 + int (length rs)) (k + 1) = Inr (map sized rs)"
    using Cons by auto
  ultimately show ?case
    using encode_record_nonempty [of r] Cons.prems
    by (subst decode_records.simps) (simp add: add.assoc)
qed

definition header_fields_ok :: "batch_header \<Rightarrow> bool" where
  "header_fields_ok h \<longleftrightarrow>
     in_signed 64 (bh_base_offset h) \<and> in_signed 32 (bh_partition_leader_epoch h) \<and> bh_magic h = MAGIC_V2 \<and>
     in_unsigned 16 (bh_attributes h) \<and> in_signed 32 (bh_last_offset_delta h) \<and>
     in_signed 64 (bh_base_timestamp h) \<and> in_signed 64 (bh_max_timestamp h) \<and> in_signed 64 (bh_producer_id h) \<and>
     in_signed 16 (bh_producer_epoch h) \<and> in_signed 32 (bh_base_sequence h) \<and> in_signed 32 (bh_records_count h)"

definition stored_header :: "batch_header \<Rightarrow> int \<Rightarrow> byte list \<Rightarrow> batch_header" where
  "stored_header h crc records =
     h\<lparr>bh_batch_length := 9 + int (length (checked_bytes h records)), bh_crc := crc\<rparr>"

lemma length_checked_bytes: "length (checked_bytes h records) = 40 + length records"
  by (simp add: checked_bytes_def)

lemma read_fields_run:
  assumes "header_fields_ok h" and "in_unsigned 32 crc"
  shows "read_batch_fields (bh_base_offset h) n (bh_partition_leader_epoch h) (bh_magic h)
      (be_bytes 4 crc @ checked_bytes h records @ rest) = Inr (h\<lparr>bh_batch_length := n, bh_crc := crc\<rparr>, records @ rest)"
  using assms
  by (simp add: header_fields_ok_def read_batch_fields_def checked_bytes_def read_int_def read_uint_def codec_simps)

lemma magic_byte: "(batch_bytes h crc records @ rest) ! 16 = word_of_int (bh_magic h)"
  by (simp add: batch_bytes_def nth_append be_bytes_def del: One_nat_def le_bytes.simps)
    (simp add: be_bytes_def)

lemma expected_total_exact: "0 \<le> n \<Longrightarrow> n < 2 ^ 31 \<Longrightarrow> expected_total_size n = 12 + n"
  by (simp add: expected_total_size_def uwrap_def)

text \<open>What decoding does with an encoded header, whatever follows it and whatever the checksum says.\<close>

lemma decode_batch_run:
  assumes "header_fields_ok h" and "in_unsigned 32 crc" and "int (length records) + 49 < 2 ^ 31"
  shows "decode_batch fuel cs (batch_bytes h crc records @ rest) =
    Some (finish_batch cs (int (length (batch_bytes h crc records))) (stored_header h crc records) (records @ rest))"
proof -
  let ?n = "9 + int (length (checked_bytes h records))"
  have n: "0 \<le> ?n" "?n < 2 ^ 31" "in_signed 32 ?n" and magic: "bh_magic h = 2"
    using assms by (simp_all add: length_checked_bytes in_signed_def header_fields_ok_def MAGIC_V2_def)
  have len: "length (batch_bytes h crc records) = nat (12 + ?n)"
    by (simp add: batch_bytes_def)
  have "read_offset_size (batch_bytes h crc records @ rest) =
      Inr ((bh_base_offset h, ?n), be_bytes 4 (bh_partition_leader_epoch h) @ be_bytes 1 (bh_magic h) @
        be_bytes 4 crc @ checked_bytes h records @ rest)"
    using assms(1) n(3)
    by (simp add: read_offset_size_def batch_bytes_def read_int_def codec_simps header_fields_ok_def)
  moreover have "dec_bind (read_int 4) (\<lambda>ple. dec_bind (read_int 1) (\<lambda>magic. dec_return (ple, magic)))
      (be_bytes 4 (bh_partition_leader_epoch h) @ be_bytes 1 (bh_magic h) @ be_bytes 4 crc @ checked_bytes h records @ rest)
      = Inr ((bh_partition_leader_epoch h, bh_magic h), be_bytes 4 crc @ checked_bytes h records @ rest)"
  proof -
    have "in_signed 32 (bh_partition_leader_epoch h)" "in_signed 8 (bh_magic h)"
      using assms(1) by (simp_all add: header_fields_ok_def MAGIC_V2_def)
    then show ?thesis by (simp add: read_int_def codec_simps del: One_nat_def)
  qed
  moreover have "\<not> length (batch_bytes h crc records @ rest) < 17"
    by (simp add: batch_bytes_def)
  ultimately show ?thesis
    unfolding decode_batch_def magic_byte
    using n magic len read_fields_run [OF assms(1,2), of ?n records rest]
    by (simp add: expected_total_exact MAGIC_V2_def stored_header_def)
qed


definition batch_ok :: "kafka_batch \<Rightarrow> bool" where
  "batch_ok b \<longleftrightarrow> header_fields_ok (kb_header b) \<and>
     bh_records_count (kb_header b) = int (length (kb_records b)) \<and>
     (\<forall>r\<in>set (kb_records b). record_fields_ok r)"

abbreviation batch_compression :: "kafka_batch \<Rightarrow> compression_type" where
  "batch_compression b \<equiv> from_attributes (bh_attributes (kb_header b))"

text \<open>
  The documented behaviour of the compression libraries: they give back what they were
  given. A raw Snappy stream does not start like a Xerial one.
\<close>

definition lossless :: "codecs \<Rightarrow> compression_type \<Rightarrow> bool" where
  "lossless cs c \<longleftrightarrow>
     (\<forall>x z. (case c of
        NoCompression \<Rightarrow> True
      | Gzip \<Rightarrow> gzip_compress cs x = Some z \<longrightarrow> gzip_decompress cs z = Some x
      | Snappy \<Rightarrow> snappy_compress cs x = Some z \<longrightarrow> snappy_decompress cs z = Some x \<and> take 8 z \<noteq> XERIAL_HEADER
      | Lz4 \<Rightarrow> lz4_decompress cs (lz4_compress cs x) = Some x
      | Zstd \<Rightarrow> zstd_compress cs x = Some z \<longrightarrow> zstd_decompress cs z = Some x))"

lemma decompress_compress: "lossless cs c \<Longrightarrow> compress cs c x = Some z \<Longrightarrow> decompress cs c z = Inr x"
  by (cases c) (auto simp: lossless_def compress_def decompress_def or_failed_def)

text \<open>Whenever the decompressed bytes start with the records, the batch comes back.\<close>

lemma encoded_batch_run:
  assumes "batch_ok b" and "\<And>x. in_unsigned 32 (crc32c cs x)"
    and "encode_records cs b = Inr z" and "encode_batch cs b = Inr bs" and "int (length bs) < 2 ^ 31"
    and "decompress cs (batch_compression b) (z @ rest) = Inr (concat (map encode_record (kb_records b)) @ rest')"
  shows "decode_batch fuel cs (bs @ rest) =
    Some (Inr (\<lparr>kb_header = stored_header (kb_header b) (crc32c cs (checked_bytes (kb_header b) z)) z,
      kb_records = map sized (kb_records b), compressed_records_data = Some (z @ rest)\<rparr>, length bs))"
proof -
  let ?h = "kb_header b" and ?crc = "crc32c cs (checked_bytes (kb_header b) z)"
  have bs: "bs = batch_bytes ?h ?crc z" using assms(3,4) by (simp add: encode_batch_def)
  have len: "int (length z) + 49 < 2 ^ 31"
    using assms(5) by (simp add: bs batch_bytes_def length_checked_bytes)
  have "decode_records (concat (map encode_record (kb_records b)) @ rest') (int (length (kb_records b))) 0 =
      Inr (map sized (kb_records b))"
    using decode_records_run [of "kb_records b" 0 rest'] assms(1) by (simp add: batch_ok_def)
  then show ?thesis
    using decode_batch_run [of ?h ?crc z fuel cs rest] assms(1,2,6) len
    by (simp add: bs batch_ok_def finish_batch_def stored_header_def)
qed

lemma encode_batch_records: "encode_batch cs b = Inr bs \<Longrightarrow> \<exists>z. encode_records cs b = Inr z"
  by (auto simp: encode_batch_def split: sum.splits)

section \<open>The checksum\<close>

lemma xerial_blocks_crc [simp]: "xerial_blocks (cs\<lparr>crc32c := f\<rparr>) bs = xerial_blocks cs bs"
  by (induction cs bs rule: xerial_blocks.induct)
    (subst (1 2) xerial_blocks.simps, auto simp: Let_def split: option.split)

lemma decompress_crc [simp]: "decompress (cs\<lparr>crc32c := f\<rparr>) c bs = decompress cs c bs"
  by (cases c) (auto simp: decompress_def)

lemma legacy_loop_crc [simp]: "legacy_loop nested (cs\<lparr>crc32c := f\<rparr>) st bs = legacy_loop nested cs st bs"
proof (induction nested cs st bs rule: legacy_loop.induct)
  case (1 nested cs st bs)
  have step: "legacy_step nested (cs\<lparr>crc32c := f\<rparr>) off m s = legacy_step nested cs off m s" for off m s
    by (simp add: legacy_step_def Let_def)
  show ?case
    by (subst (1 2) legacy_loop.simps) (auto simp: step 1 Let_def split: sum.split option.split)
qed

lemma decode_legacy_crc [simp]:
  "decode_legacy_message_set fuel (cs\<lparr>crc32c := f\<rparr>) data = decode_legacy_message_set fuel cs data"
proof (induction fuel arbitrary: data)
  case (Suc n)
  then have "decode_legacy_message_set n (cs\<lparr>crc32c := f\<rparr>) = decode_legacy_message_set n cs" by blast
  then show ?case by simp
qed simp


lemma finish_batch_crc: "finish_batch (cs\<lparr>crc32c := f\<rparr>) = finish_batch cs"
  by (intro ext) (simp add: finish_batch_def)

text \<open>Identity codecs, and a constant checksum, for concrete runs.\<close>

definition plain_codecs :: codecs where
  "plain_codecs =
     \<lparr>gzip_compress = Some, gzip_decompress = Some, snappy_compress = Some, snappy_decompress = Some,
      lz4_compress = id, lz4_decompress = Some, zstd_compress = Some, zstd_decompress = Some,
      crc32c = (\<lambda>_. 7)\<rparr>"

definition sample_kafka_batch :: kafka_batch where
  "sample_kafka_batch = add_record (Some [1]) (Some [2, 3]) [] 1000 (new_batch 5 1000 (-1) (-1) (-1) Lz4 False)"

lemma varint_small:
  "encode_varint 0 = [0]" "encode_varint 1 = [2]" "encode_varint 2 = [4]" "encode_varint 4 = [8]"
  "encode_varint 6 = [12]" "encode_varint 9 = [18]" "encode_varint 16 = [32]" "encode_varlong 0 = [0]"
  by (simp_all add: encode_varint_def encode_varlong_def zigzag_def uvarint_bytes.simps)

lemma sample_attributes: "from_attributes 3 = Lz4" "bh_attributes (kb_header sample_kafka_batch) = 3"
  by (simp_all add: from_attributes_def COMPRESSION_CODEC_MASK_def sample_kafka_batch_def add_record_def
      new_batch_def compression_code_def Let_def)


lemma sample_batch_fields:
  "batch_ok sample_kafka_batch" "batch_compression sample_kafka_batch = Lz4"
  "encode_records plain_codecs sample_kafka_batch = Inr [18, 0, 0, 0, 2, 1, 4, 2, 3, 0]"
  by (simp_all add: sample_attributes)
    (simp_all add: batch_ok_def header_fields_ok_def record_fields_ok_def option_ok_def sample_kafka_batch_def
      add_record_def new_batch_def compression_code_def Let_def MAGIC_V2_def in_signed_def in_unsigned_def swrap_def
      record_body_def bytes_of_option_def varint_small encode_records_def encode_record_def compress_def
      plain_codecs_def be_bytes_def sample_attributes(1))

lemma sample_batch_length: "encode_batch plain_codecs sample_kafka_batch = Inr bs \<Longrightarrow> length bs = 71"
  by (auto simp: encode_batch_def sample_batch_fields(3) batch_bytes_def checked_bytes_def)

lemma plain_codecs_ok: "lossless plain_codecs Lz4" "in_unsigned 32 (crc32c plain_codecs x)"
  by (simp_all add: lossless_def plain_codecs_def)

text \<open>C21: A batch that was encoded, compressed or not, decodes to itself: every header field,
  every record with its keys, values and headers, and the original bytes of the records
  section, with the length of the encoding as the number of bytes consumed. The compression
  library is lossless.
\<close>

theorem batch_roundtrip:
  assumes "batch_ok b" and "lossless cs (batch_compression b)" and "\<And>x. in_unsigned 32 (crc32c cs x)"
    and "encode_batch cs b = Inr bs" and "int (length bs) < 2 ^ 31"
  shows "\<exists>z. encode_records cs b = Inr z \<and>
    decode_batch fuel cs bs =
      Some (Inr (\<lparr>kb_header = stored_header (kb_header b) (crc32c cs (checked_bytes (kb_header b) z)) z,
        kb_records = map sized (kb_records b), compressed_records_data = Some z\<rparr>, length bs))"
proof -
  obtain z where z: "encode_records cs b = Inr z" using encode_batch_records [OF assms(4)] by blast
  then have "decompress cs (batch_compression b) z = Inr (concat (map encode_record (kb_records b)))"
    using assms(2) by (auto simp: encode_records_def split: option.splits intro: decompress_compress)
  then show ?thesis
    using encoded_batch_run [OF assms(1,3) z assms(4,5), of "[]" "[]" fuel] z by simp
qed

theorem batch_roundtrip_witness:
  "\<exists>bs b. encode_batch plain_codecs sample_kafka_batch = Inr bs \<and>
     decode_batch 0 plain_codecs bs = Some (Inr (b, 71)) \<and> kb_records b = map sized (kb_records sample_kafka_batch)"
proof -
  obtain bs where bs: "encode_batch plain_codecs sample_kafka_batch = Inr bs"
    by (simp add: encode_batch_def sample_batch_fields(3))
  have "length bs = 71" using sample_batch_length [OF bs] .
  then show ?thesis
    using batch_roundtrip [OF sample_batch_fields(1) _ plain_codecs_ok(2) bs, of 0] bs
    by (auto simp: sample_batch_fields(2) plain_codecs_ok(1))
qed

text \<open>Decoding an uncompressed batch with anything behind it, such as the next batch of a
  fetch, yields its records and its length, but keeps everything that follows as part of the
  preserved records section, which is no longer the batch's own.
\<close>

theorem following_bytes_preserved:
  assumes "batch_ok b" and "batch_compression b = NoCompression" and "\<And>x. in_unsigned 32 (crc32c cs x)"
    and "encode_batch cs b = Inr bs" and "int (length bs) < 2 ^ 31"
  shows "\<exists>d. decode_batch fuel cs (bs @ rest) = Some (Inr (d, length bs)) \<and>
    kb_records d = map sized (kb_records b) \<and>
    compressed_records_data d = Some (concat (map encode_record (kb_records b)) @ rest)"
proof -
  let ?z = "concat (map encode_record (kb_records b))"
  have z: "encode_records cs b = Inr ?z" by (simp add: encode_records_def compress_def assms(2))
  have "decompress cs (batch_compression b) (?z @ rest) = Inr (?z @ rest)"
    by (simp add: decompress_def assms(2))
  then show ?thesis
    using encoded_batch_run [OF assms(1,3) z assms(4,5), of rest rest fuel] by simp
qed

lemma marker_attributes:
  "bh_attributes (kb_header (marker_batch base pid epoch m ts)) = 0x30"
  "batch_compression (marker_batch base pid epoch m ts) = NoCompression"
  by (simp_all add: marker_batch_def add_record_def new_batch_def Let_def TRANSACTIONAL_FLAG_def
      CONTROL_FLAG_def COMPRESSION_CODEC_MASK_def from_attributes_def compression_code_def)

lemma marker_batch_ok:
  assumes "in_signed 64 base" "in_signed 64 pid" "in_signed 16 epoch" "in_signed 64 ts"
  shows "batch_ok (marker_batch base pid epoch m ts)"
  using assms marker_attributes(1) [of base pid epoch m ts]
  by (simp add: batch_ok_def header_fields_ok_def)
    (simp add: marker_batch_def marker_key_def add_record_def new_batch_def Let_def record_fields_ok_def
      option_ok_def MAGIC_V2_def in_signed_def swrap_def record_body_def bytes_of_option_def varint_small)

theorem following_bytes_preserved_witness:
  "\<exists>bs d. encode_batch plain_codecs (marker_batch 42 1000 3 Commit 1700000000000) = Inr bs \<and>
     decode_batch 0 plain_codecs (bs @ bs) = Some (Inr (d, length bs)) \<and>
     (\<exists>z. compressed_records_data d = Some (z @ bs))"
proof -
  let ?b = "marker_batch 42 1000 3 Commit 1700000000000"
  have ok: "batch_ok ?b" by (rule marker_batch_ok) simp_all
  obtain bs where bs: "encode_batch plain_codecs ?b = Inr bs"
    by (simp add: encode_batch_def encode_records_def marker_attributes(2) compress_def)
  have "int (length bs) < 2 ^ 31"
    using bs
    by (auto simp: encode_batch_def encode_records_def marker_attributes(2) compress_def batch_bytes_def
        length_checked_bytes)
      (simp add: marker_batch_def marker_key_def add_record_def new_batch_def Let_def encode_record_def
        swrap_def record_body_def bytes_of_option_def varint_small)
  from following_bytes_preserved [OF ok marker_attributes(2) plain_codecs_ok(2) bs this, of 0 bs] bs
  show ?thesis by blast
qed

text \<open>No decoding path looks at the checksum: for every input, batches of every format,
  compressed or not, decode to the same result whatever CRC-32C is. A record batch that was
  corrupted on its way is accepted.
\<close>

theorem decode_never_checks_crc:
  "decode_batch fuel (cs\<lparr>crc32c := f\<rparr>) data = decode_batch fuel cs data"
  unfolding decode_batch_def finish_batch_crc decode_legacy_crc by (rule refl)

end
