(* ===== verification/Txn_Coordinator.thy ===== *)
theory Txn_Coordinator
  imports Metadata_Store Record_Batch Transaction_Index
begin

text \<open>
  The transaction coordinator: the handlers of \<open>InitProducerId\<close>, \<open>AddPartitionsToTxn\<close>,
  \<open>AddOffsetsToTxn\<close> and \<open>TxnOffsetCommit\<close> (\<open>chronik-protocol/src/handler.rs\<close>) and of \<open>EndTxn\<close>
  (\<open>chronik-server/src/kafka_handler.rs\<close>), on top of the metadata store, together with what
  the produce path does to the transaction index when a marker lands in a partition. Wire
  decoding of the requests and encoding of the responses are left out; a response is its
  error code and payload.
\<close>

section \<open>Producer registration\<close>

definition NONE :: int where "NONE = 0"
definition COORDINATOR_NOT_AVAILABLE :: int where "COORDINATOR_NOT_AVAILABLE = 15"
definition INVALID_PRODUCER_EPOCH :: int where "INVALID_PRODUCER_EPOCH = 47"

record offset_info =
  oi_offset :: int
  oi_metadata :: "string option"
  oi_timestamp :: int

text \<open>
  The protocol handler: its metadata store, if one is wired, the process-local fallback
  counter, and the in-memory consumer groups, of which these handlers touch the offsets by
  topic and partition.
\<close>

record 'b protocol_handler =
  ph_store :: "'b store option"
  ph_fallback :: int
  ph_groups :: "(string \<times> ((topic \<times> int) \<times> offset_info) list) list"

definition fallback_producer_id :: "'b protocol_handler \<Rightarrow> int \<times> 'b protocol_handler" where
  "fallback_producer_id ph = (ph_fallback ph, ph\<lparr>ph_fallback := swrap 64 (ph_fallback ph + 1)\<rparr>)"

definition register_producer ::
  "'b store_env \<Rightarrow> string \<Rightarrow> int \<Rightarrow> 'b store \<Rightarrow> (int \<times> int \<times> int) \<times> 'b store" where
  "register_producer env tid timeout st =
     (case get_transaction tid st of
        Some existing \<Rightarrow>
          let new_epoch = swrap 16 (tx_producer_epoch existing + 1) in
          (case begin_transaction env tid (tx_producer_id existing) new_epoch timeout st of
             (Inr _, st') \<Rightarrow> ((tx_producer_id existing, new_epoch, NONE), st')
           | (Inl _, st') \<Rightarrow> ((tx_producer_id existing, tx_producer_epoch existing, COORDINATOR_NOT_AVAILABLE), st'))
      | None \<Rightarrow>
          (case allocate_producer_id st of
             (r, st1) \<Rightarrow>
               let pid = (case r of Inr p \<Rightarrow> p | Inl _ \<Rightarrow> -1) in
               (case begin_transaction env tid pid 0 timeout st1 of
                  (Inr _, st') \<Rightarrow> ((pid, 0, NONE), st')
                | (Inl _, st') \<Rightarrow> ((pid, 0, COORDINATOR_NOT_AVAILABLE), st'))))"

definition handle_init_producer_id ::
  "'b store_env \<Rightarrow> string option \<Rightarrow> int \<Rightarrow> 'b protocol_handler \<Rightarrow> (int \<times> int \<times> int) \<times> 'b protocol_handler" where
  "handle_init_producer_id env transactional_id timeout ph =
     (case (transactional_id, ph_store ph) of
        (Some tid, Some st) \<Rightarrow>
          (case register_producer env tid timeout st of (r, st') \<Rightarrow> (r, ph\<lparr>ph_store := Some st'\<rparr>))
      | (None, Some st) \<Rightarrow>
          (case allocate_producer_id st of
             (Inr pid, st') \<Rightarrow> ((pid, 0, NONE), ph\<lparr>ph_store := Some st'\<rparr>)
           | (Inl _, st') \<Rightarrow>
               (case fallback_producer_id (ph\<lparr>ph_store := Some st'\<rparr>) of (pid, ph') \<Rightarrow> ((pid, 0, NONE), ph')))
      | (_, None) \<Rightarrow> (case fallback_producer_id ph of (pid, ph') \<Rightarrow> ((pid, 0, NONE), ph')))"

section \<open>Enrolment\<close>

type_synonym txn_topics = "(topic \<times> int list) list"

definition flat_partitions :: "txn_topics \<Rightarrow> (topic \<times> int) list" where
  "flat_partitions ts = concat (map (\<lambda>(t, ps). map (\<lambda>p. (t, uwrap 32 p)) ps) ts)"

definition handle_add_partitions_to_txn ::
  "'b store_env \<Rightarrow> string \<Rightarrow> int \<Rightarrow> int \<Rightarrow> txn_topics \<Rightarrow> 'b protocol_handler \<Rightarrow>
     (topic \<times> (int \<times> int) list) list \<times> 'b protocol_handler" where
  "handle_add_partitions_to_txn env tid pid epoch ts ph =
     (map (\<lambda>(t, ps). (t, map (\<lambda>p. (p, NONE)) ps)) ts,
      (case ph_store ph of
         None \<Rightarrow> ph
       | Some st \<Rightarrow>
         ph\<lparr>ph_store := Some (snd (add_partitions_to_transaction env tid pid epoch (flat_partitions ts) st))\<rparr>))"

definition handle_add_offsets_to_txn ::
  "string \<Rightarrow> int \<Rightarrow> int \<Rightarrow> string \<Rightarrow> 'b protocol_handler \<Rightarrow> int \<times> 'b protocol_handler" where
  "handle_add_offsets_to_txn tid pid epoch g ph = (NONE, ph)"

type_synonym txn_offsets = "(topic \<times> (int \<times> int \<times> string option) list) list"

definition flat_offsets :: "txn_offsets \<Rightarrow> (topic \<times> int \<times> int \<times> string option) list" where
  "flat_offsets ts = concat (map (\<lambda>(t, ps). map (\<lambda>(p, off, m). (t, uwrap 32 p, off, m)) ps) ts)"

definition handle_txn_offset_commit ::
  "'b store_env \<Rightarrow> timestamp \<Rightarrow> string \<Rightarrow> txn_offsets \<Rightarrow> 'b protocol_handler \<Rightarrow>
     (topic \<times> (int \<times> int) list) list \<times> 'b protocol_handler" where
  "handle_txn_offset_commit env now g ts ph =
     (let ph1 = (case ph_store ph of
            None \<Rightarrow> ph
          | Some st \<Rightarrow> ph\<lparr>ph_store := Some (snd (commit_transactional_offsets env now g (flat_offsets ts) st))\<rparr>)
      in (map (\<lambda>(t, ps). (t, map (\<lambda>(p, _). (p, NONE)) ps)) ts,
          ph1\<lparr>ph_groups := AList.update g
            (fold (\<lambda>(t, p, off, m). AList.update (t, swrap 32 p)
                \<lparr>oi_offset = off, oi_metadata = m, oi_timestamp = timestamp_millis now\<rparr>)
              (flat_offsets ts) (case map_of (ph_groups ph1) g of None \<Rightarrow> [] | Some offs \<Rightarrow> offs))
            (ph_groups ph1)\<rparr>))"

section \<open>Ending a transaction\<close>

record marker_produce =
  mp_topic :: topic
  mp_partition :: int
  mp_records :: "byte list"

definition end_txn_markers ::
  "codecs \<Rightarrow> int \<Rightarrow> bool \<Rightarrow> int \<Rightarrow> int \<Rightarrow> transaction_metadata \<Rightarrow> marker_produce list" where
  "end_txn_markers cs ts committed pid epoch txn =
     map (\<lambda>(t, p). \<lparr>mp_topic = t, mp_partition = swrap 32 p,
        mp_records = build_end_txn_marker cs 0 pid epoch (if committed then Commit else Abort) ts\<rparr>)
       (tx_partitions txn)"

text \<open>
  \<open>produce\<close> stands for the produce path of the node or of the partition's leader: it takes
  the markers and a log and reports success with the new log. The request groups the markers
  by topic; the order of the topics is the hash map's.
\<close>

definition handle_end_txn ::
  "'b store_env \<Rightarrow> codecs \<Rightarrow> (marker_produce list \<Rightarrow> 'l \<Rightarrow> bool \<times> 'l) \<Rightarrow> int \<Rightarrow>
     string \<Rightarrow> int \<Rightarrow> int \<Rightarrow> bool \<Rightarrow> 'b store \<Rightarrow> 'l \<Rightarrow> int \<times> 'b store \<times> 'l" where
  "handle_end_txn env cs produce ts tid pid epoch committed st l =
     (case get_transaction tid st of
        None \<Rightarrow> (NONE, st, l)
      | Some txn \<Rightarrow>
        if is_fenced pid epoch txn then (INVALID_PRODUCER_EPOCH, st, l)
        else
          let st1 = (if committed then snd (prepare_commit_transaction env tid pid epoch st) else st);
              markers = end_txn_markers cs ts committed pid epoch txn;
              l1 = (if markers = [] then l else snd (produce markers l));
              (fin, st2) = (if committed then commit_transaction env tid pid epoch st1
                            else abort_transaction env tid pid epoch st1)
          in ((case fin of Inr _ \<Rightarrow> NONE | Inl _ \<Rightarrow> COORDINATOR_NOT_AVAILABLE), st2, l1))"

section \<open>Markers in the log\<close>

text \<open>
  The produce path derives the transaction index from each batch as it lands, at the base
  offset reserved for it; \<open>base_of\<close> gives these offsets.
\<close>

definition index_batch :: "topic \<Rightarrow> int \<Rightarrow> int \<Rightarrow> kafka_batch \<Rightarrow> transaction_index \<Rightarrow> transaction_index" where
  "index_batch t p base b ix =
     apply_log_batch t p (bh_producer_id (kb_header b))
       (bh_attributes (kb_header b) AND 0x10 \<noteq> 0) (bh_attributes (kb_header b) AND 0x20 \<noteq> 0)
       (case kb_records b of [] \<Rightarrow> None | r # _ \<Rightarrow> kr_key r) base ix"

definition index_marker :: "nat \<Rightarrow> codecs \<Rightarrow> (topic \<Rightarrow> int \<Rightarrow> int) \<Rightarrow> marker_produce \<Rightarrow> transaction_index \<Rightarrow> transaction_index" where
  "index_marker fuel cs base_of m ix =
     (case decode_batch fuel cs (mp_records m) of
        Some (Inr (b, _)) \<Rightarrow> index_batch (mp_topic m) (mp_partition m) (base_of (mp_topic m) (mp_partition m)) b ix
      | _ \<Rightarrow> ix)"

definition index_produce ::
  "nat \<Rightarrow> codecs \<Rightarrow> (topic \<Rightarrow> int \<Rightarrow> int) \<Rightarrow> marker_produce list \<Rightarrow> transaction_index \<Rightarrow> bool \<times> transaction_index" where
  "index_produce fuel cs base_of ms ix = (True, fold (index_marker fuel cs base_of) ms ix)"


section \<open>Markers\<close>

lemma marker_type_key: "marker_type (Some (marker_key m)) = Some (marker_code m)"
  by (cases m) (simp_all add: marker_type_def marker_key_def marker_code_def be_bytes_def be_sint_def
      le_sint_def swrap_def eval_nat_numeral)

definition marker_in_range :: "int \<Rightarrow> int \<Rightarrow> int \<Rightarrow> bool" where
  "marker_in_range pid epoch ts \<longleftrightarrow> in_signed 64 pid \<and> 0 \<le> pid \<and> in_signed 16 epoch \<and> in_signed 64 ts"

lemma marker_record:
  "kb_records (marker_batch base pid epoch m ts) =
     [\<lparr>kr_length = 0, kr_attributes = 0, kr_timestamp_delta = 0, kr_offset_delta = 0,
       kr_key = Some (marker_key m), kr_value = Some (be_bytes 2 0 @ be_bytes 4 0), kr_headers = []\<rparr>]"
  "bh_producer_id (kb_header (marker_batch base pid epoch m ts)) = pid"
  by (simp_all add: marker_batch_def add_record_def new_batch_def Let_def swrap_def)

lemma decode_marker:
  assumes "marker_in_range pid epoch ts" and "\<And>x. in_unsigned 32 (crc32c cs x)"
  shows "\<exists>b n. decode_batch fuel cs (build_end_txn_marker cs 0 pid epoch m ts) = Some (Inr (b, n)) \<and>
    bh_producer_id (kb_header b) = pid \<and> bh_attributes (kb_header b) = 0x30 \<and>
    (\<exists>r rs. kb_records b = r # rs \<and> kr_key r = Some (marker_key m))"
proof -
  let ?b = "marker_batch 0 pid epoch m ts"
  let ?z = "concat (map encode_record (kb_records ?b))"
  have ok: "batch_ok ?b"
    using assms(1) by (intro marker_batch_ok) (simp_all add: marker_in_range_def)
  have z: "encode_records cs ?b = Inr ?z"
    by (simp add: encode_records_def compress_def marker_attributes(2))
  then obtain bs where bs: "encode_batch cs ?b = Inr bs" by (simp add: encode_batch_def)
  have "length ?z = 17"
    by (simp add: marker_record encode_record_def record_body_def bytes_of_option_def varint_small marker_key_def)
  then have "int (length bs) < 2 ^ 31"
    using bs z by (auto simp: encode_batch_def batch_bytes_def length_checked_bytes)
  moreover have "decompress cs (batch_compression ?b) (?z @ []) = Inr (?z @ [])"
    by (simp add: decompress_def marker_attributes(2))
  ultimately have "decode_batch fuel cs (bs @ []) =
    Some (Inr (\<lparr>kb_header = stored_header (kb_header ?b) (crc32c cs (checked_bytes (kb_header ?b) ?z)) ?z,
      kb_records = map sized (kb_records ?b), compressed_records_data = Some (?z @ [])\<rparr>, length bs))"
    by (rule encoded_batch_run [OF ok assms(2) z bs])
  then show ?thesis
    using bs by (simp add: build_end_txn_marker_def marker_attributes(1) stored_header_def marker_record sized_def)
qed

lemma index_marker_run:
  assumes "marker_in_range pid epoch ts" and "\<And>x. in_unsigned 32 (crc32c cs x)"
  shows "index_marker fuel cs base_of
      \<lparr>mp_topic = t, mp_partition = p, mp_records = build_end_txn_marker cs 0 pid epoch m ts\<rparr> ix =
    (case m of Commit \<Rightarrow> on_commit t p pid ix | Abort \<Rightarrow> on_abort t p pid ix)"
proof -
  obtain b n r rs where "decode_batch fuel cs (build_end_txn_marker cs 0 pid epoch m ts) = Some (Inr (b, n))"
    "bh_producer_id (kb_header b) = pid" "bh_attributes (kb_header b) = 0x30"
    "kb_records b = r # rs" "kr_key r = Some (marker_key m)"
    using decode_marker [OF assms] by metis
  then show ?thesis
    using assms(1) marker_type_key [of m]
    by (cases m) (simp_all add: index_marker_def index_batch_def apply_log_batch_def marker_in_range_def marker_code_def)
qed

section \<open>Writes of the store\<close>

definition writes_ok :: "'b store_env \<Rightarrow> bool" where
  "writes_ok env \<longleftrightarrow> (\<forall>e. event_to_bytes env e \<noteq> None) \<and> (\<forall>n. append_ok env n)"

lemma emit_anonymous_run:
  assumes "writes_ok env"
  shows "\<exists>st'. emit_anonymous env p st = (Inr (), st') \<and>
    st_state st' = apply_event (new_with_node (stamp env (clock st)) p 0) (st_state st)"
proof -
  obtain b where "event_to_bytes env (new_with_node (stamp env (clock st)) p 0) = Some b"
    using assms unfolding writes_ok_def by blast
  then show ?thesis
    using assms
    by (simp add: writes_ok_def emit_anonymous_def emit_as_def write_and_apply_def op_bind_def wal_append_def
        apply_local_def publish_def)
qed

lemma get_transaction_after:
  assumes "writes_ok env"
  shows "get_transaction tid (snd (emit_anonymous env p st)) =
    map_of (transactions (apply_event (new_with_node (stamp env (clock st)) p 0) (st_state st))) tid"
  using emit_anonymous_run [OF assms, of p st] by (auto simp: get_transaction_def)

lemma begin_transaction_run:
  assumes "writes_ok env"
  shows "\<exists>st' t. begin_transaction env tid pid epoch timeout st = (Inr (), st') \<and>
    get_transaction tid st' = Some t \<and> tx_producer_id t = pid \<and> tx_producer_epoch t = epoch \<and>
    tx_partitions t = [] \<and> tx_groups t = [] \<and> tx_state t = TxnEmpty"
proof -
  obtain st' where st': "begin_transaction env tid pid epoch timeout st = (Inr (), st')"
    "st_state st' = apply_event (new_with_node (stamp env (clock st)) (BeginTransaction tid pid epoch timeout) 0) (st_state st)"
    using emit_anonymous_run [OF assms, of "BeginTransaction tid pid epoch timeout" st]
    unfolding begin_transaction_def by blast
  then show ?thesis
    by (simp add: get_transaction_def apply_event_def apply_begin_transaction_def new_with_node_def Let_def hash_simps)
qed

lemma get_update_transaction:
  "map_of (transactions (update_transaction ts tid f s)) tid =
     map_option (\<lambda>t. (f t)\<lparr>tx_last_updated_ms := timestamp_millis ts\<rparr>) (map_of (transactions s) tid)"
  by (simp add: update_transaction_def hash_simps split: option.split)

lemma observe_transactions [simp]: "transactions (observe_producer_id pid s) = transactions s"
  by (simp add: observe_producer_id_def)


section \<open>Closing transactions in the index\<close>

definition close_state :: "control_marker \<Rightarrow> int \<Rightarrow> partition_txn_state \<Rightarrow> partition_txn_state" where
  "close_state m pid s =
     (case m of Commit \<Rightarrow> s\<lparr>ongoing := remove_key pid (ongoing s)\<rparr> | Abort \<Rightarrow> abort_state pid s)"

definition close_in :: "control_marker \<Rightarrow> int \<Rightarrow> topic \<times> int \<Rightarrow> transaction_index \<Rightarrow> transaction_index" where
  "close_in m pid k ix =
     (case m of Commit \<Rightarrow> on_commit (fst k) (snd k) pid ix | Abort \<Rightarrow> on_abort (fst k) (snd k) pid ix)"

lemma remove_key_idem: "remove_key k (remove_key k xs) = remove_key k xs"
  by (simp add: remove_key_def)

lemma close_state_idem: "close_state m pid (close_state m pid s) = close_state m pid s"
  by (cases m) (auto simp: close_state_def abort_state_def remove_key_idem hash_simps split: option.split)

lemma close_state_closed: "map_of (ongoing (close_state m pid s)) pid = None"
  by (cases m) (auto simp: close_state_def abort_state_def hash_simps split: option.split)

lemma close_in_state:
  "state_of (close_in m pid k ix) k' = (if k' = k then close_state m pid (state_of ix k) else state_of ix k')"
proof (cases "k' = k")
  case True
  then show ?thesis
    by (cases m) (simp_all add: close_in_def close_state_def on_commit_def on_abort_def state_of_existing)
next
  case False
  then show ?thesis
    by (cases m) (simp_all add: close_in_def on_commit_def on_abort_def state_of_def update_existing_def split: option.split)
qed

lemma fold_close_in:
  "state_of (fold (close_in m pid) ks ix) k =
     (if k \<in> set ks then close_state m pid (state_of ix k) else state_of ix k)"
  by (induction ks arbitrary: ix) (simp_all add: close_in_state close_state_idem)

definition enrolled_in_range :: "transaction_metadata \<Rightarrow> bool" where
  "enrolled_in_range txn \<longleftrightarrow> (\<forall>k \<in> set (tx_partitions txn). 0 \<le> snd k \<and> snd k < 2 ^ 31)"

lemma index_markers_run:
  assumes "marker_in_range pid epoch ts" and "\<And>x. in_unsigned 32 (crc32c cs x)" and "enrolled_in_range txn"
  shows "snd (index_produce fuel cs base_of (end_txn_markers cs ts committed pid epoch txn) ix) =
    fold (close_in (if committed then Commit else Abort) pid) (tx_partitions txn) ix"
proof -
  let ?m = "if committed then Commit else Abort"
  let ?f = "\<lambda>k. \<lparr>mp_topic = fst k, mp_partition = swrap 32 (snd k),
    mp_records = build_end_txn_marker cs 0 pid epoch ?m ts\<rparr>"
  have run: "fold (index_marker fuel cs base_of) (map ?f ks) ix = fold (close_in ?m pid) ks ix"
    if "\<forall>k \<in> set ks. 0 \<le> snd k \<and> snd k < 2 ^ 31" for ks
    using that
  proof (induction ks arbitrary: ix)
    case (Cons k ks)
    then have "swrap 32 (snd k) = snd k" by (simp add: swrap_id in_signed_def)
    then have "index_marker fuel cs base_of (?f k) ix = close_in ?m pid k ix"
      using index_marker_run [OF assms(1,2), of fuel base_of "fst k" "snd k" ?m ix]
      by (simp add: close_in_def)
    then show ?case using Cons by simp
  qed simp
  have "end_txn_markers cs ts committed pid epoch txn = map ?f (tx_partitions txn)"
    by (simp add: end_txn_markers_def case_prod_beta)
  then show ?thesis
    using run [of "tx_partitions txn"] assms(3) by (simp add: index_produce_def enrolled_in_range_def)
qed

lemma finalise_run:
  assumes "writes_ok env" and "get_transaction tid st = Some txn"
  shows "\<exists>st' t'. commit_transaction env tid pid epoch st = (Inr (), st') \<and> get_transaction tid st' = Some t' \<and>
      tx_state t' = CompleteCommit \<and> tx_partitions t' = []"
    and "\<exists>st' t'. abort_transaction env tid pid epoch st = (Inr (), st') \<and> get_transaction tid st' = Some t' \<and>
      tx_state t' = CompleteAbort \<and> tx_partitions t' = []"
  using emit_anonymous_run [OF assms(1), of "CommitTransaction tid pid epoch (enrolled tid st) []" st]
    emit_anonymous_run [OF assms(1), of "AbortTransaction tid pid epoch (enrolled tid st)" st] assms(2)
  by (auto simp: commit_transaction_def abort_transaction_def get_transaction_def apply_event_def new_with_node_def
      apply_commit_transaction_def apply_abort_transaction_def get_update_transaction)

lemma prepare_commit_run:
  assumes "writes_ok env" and "get_transaction tid st = Some txn"
  shows "\<exists>t'. get_transaction tid (snd (prepare_commit_transaction env tid pid epoch st)) = Some t'"
  using emit_anonymous_run [OF assms(1), of "PrepareCommit tid pid epoch" st] assms(2)
  by (auto simp: prepare_commit_transaction_def get_transaction_def apply_event_def new_with_node_def
      apply_prepare_commit_def get_update_transaction)

lemma handle_end_txn_run:
  assumes "writes_ok env" and "get_transaction tid st = Some txn" and "\<not> is_fenced pid epoch txn"
  shows "\<exists>st' t'. handle_end_txn env cs produce ts tid pid epoch committed st l =
      (NONE, st', if tx_partitions txn = [] then l
                  else snd (produce (end_txn_markers cs ts committed pid epoch txn) l)) \<and>
    get_transaction tid st' = Some t' \<and> tx_partitions t' = [] \<and>
    tx_state t' = (if committed then CompleteCommit else CompleteAbort)"
proof (cases committed)
  case True
  obtain t where "get_transaction tid (snd (prepare_commit_transaction env tid pid epoch st)) = Some t"
    using prepare_commit_run [OF assms(1,2)] by blast
  from finalise_run(1) [OF assms(1) this, of pid epoch] show ?thesis
    using True assms(2,3) by (auto simp: handle_end_txn_def Let_def end_txn_markers_def)
next
  case False
  from finalise_run(2) [OF assms(1,2), of pid epoch] show ?thesis
    using False assms(2,3) by (auto simp: handle_end_txn_def Let_def end_txn_markers_def)
qed

lemma register_again_run:
  assumes "writes_ok env" and "get_transaction tid st = Some txn"
  shows "\<exists>st' t'. register_producer env tid timeout st =
      ((tx_producer_id txn, swrap 16 (tx_producer_epoch txn + 1), NONE), st') \<and>
    get_transaction tid st' = Some t' \<and> tx_producer_id t' = tx_producer_id txn \<and>
    tx_producer_epoch t' = swrap 16 (tx_producer_epoch txn + 1) \<and> tx_partitions t' = []"
  using begin_transaction_run [OF assms(1), of tid "tx_producer_id txn" "swrap 16 (tx_producer_epoch txn + 1)" timeout st]
    assms(2) by (auto simp: register_producer_def Let_def)

section \<open>Correctness of the coordinator\<close>


definition sample_transaction :: transaction_metadata where
  "sample_transaction =
     (new_transaction ''t'' 7 3 60000 0)\<lparr>tx_state := Ongoing, tx_partitions := [(''orders'', 0), (''orders'', 1)]\<rparr>"

definition sample_txn_store :: "metadata_event store" where
  "sample_txn_store =
     (new_store 1 False)\<lparr>st_state := (new_metadata_state 1)\<lparr>transactions := [(''t'', sample_transaction)]\<rparr>\<rparr>"

definition sample_txn_index :: transaction_index where
  "sample_txn_index = [(''orders'', 0) \<mapsto> \<lparr>ongoing = [(7, 40), (8, 44)], aborted = []\<rparr>]"

lemma sample_txn_ok:
  "writes_ok sample_env" "get_transaction ''t'' sample_txn_store = Some sample_transaction"
  "tx_producer_id sample_transaction = 7" "tx_producer_epoch sample_transaction = 3"
  "\<not> is_fenced 7 3 sample_transaction" "\<not> is_fenced 7 4 sample_transaction" "is_fenced 7 2 sample_transaction"
  "marker_in_range 7 3 1000" "enrolled_in_range sample_transaction"
  "tx_partitions sample_transaction = [(''orders'', 0), (''orders'', 1)]"
  "in_unsigned 32 (crc32c plain_codecs x)"
  using sample_env_ok
  by (simp_all add: writes_ok_def sample_txn_store_def get_transaction_def sample_transaction_def
      is_fenced_def new_transaction_def marker_in_range_def in_signed_def in_unsigned_def enrolled_in_range_def
      plain_codecs_def)


text \<open>The marker written to a partition means to the log reader what the coordinator decided:
  decoding the bytes of a commit or abort marker and deriving the index from them is the same
  as calling the index's own commit or abort for that partition and producer.
\<close>

theorem marker_bytes_decide:
  assumes "marker_in_range pid epoch ts" and "\<And>x. in_unsigned 32 (crc32c cs x)"
  shows "index_marker fuel cs base_of
      \<lparr>mp_topic = t, mp_partition = p, mp_records = build_end_txn_marker cs 0 pid epoch m ts\<rparr> ix =
    (case m of Commit \<Rightarrow> on_commit t p pid ix | Abort \<Rightarrow> on_abort t p pid ix)"
  by (rule index_marker_run [OF assms])

theorem marker_bytes_decide_witness:
  "index_marker 4 plain_codecs (\<lambda>_ _. 50) \<lparr>mp_topic = ''orders'', mp_partition = 0,
      mp_records = build_end_txn_marker plain_codecs 0 7 3 Abort 1000\<rparr> sample_txn_index (''orders'', 0) =
    Some \<lparr>ongoing = [(8, 44)], aborted = [\<lparr>at_producer_id = 7, at_first_offset = 40\<rparr>]\<rparr>"
  using marker_bytes_decide [OF sample_txn_ok(8,11), of 4 "\<lambda>_ _. 50" "''orders''" 0 Abort sample_txn_index]
  by (simp add: on_abort_def update_existing_def abort_state_def sample_txn_index_def remove_key_def)

text \<open>C34: a producer that initialises again fences its previous session. Below the largest epoch,
  \<open>InitProducerId\<close> for a known transactional id answers the same producer id with the next
  epoch, and an \<open>EndTxn\<close> of the previous session is then refused with
  \<open>INVALID_PRODUCER_EPOCH\<close>, writing no marker and leaving the store as it is.
\<close>

theorem reinit_fences_old_session:
  assumes "writes_ok env" and "get_transaction tid st = Some txn"
    and "-32768 \<le> tx_producer_epoch txn" and "tx_producer_epoch txn < 32767"
  shows "\<exists>st'. register_producer env tid timeout st =
      ((tx_producer_id txn, tx_producer_epoch txn + 1, NONE), st') \<and>
    (\<forall>committed l. handle_end_txn env cs produce ts tid (tx_producer_id txn) (tx_producer_epoch txn) committed st' l =
      (INVALID_PRODUCER_EPOCH, st', l))"
  using register_again_run [OF assms(1,2), of timeout] swrap_id [of 16 "tx_producer_epoch txn + 1"] assms(3,4)
  by (auto simp: in_signed_def handle_end_txn_def is_fenced_def)

theorem reinit_fences_old_session_witness:
  "\<exists>st'. register_producer sample_env ''t'' 60000 sample_txn_store = ((7, 4, NONE), st') \<and>
    handle_end_txn sample_env plain_codecs (index_produce 4 plain_codecs (\<lambda>_ _. 50)) 1000 ''t'' 7 3 True
      st' sample_txn_index = (INVALID_PRODUCER_EPOCH, st', sample_txn_index)"
  using reinit_fences_old_session [OF sample_txn_ok(1,2), of 60000 plain_codecs
      "index_produce 4 plain_codecs (\<lambda>_ _. 50)" 1000]
  by (auto simp: sample_txn_ok(3,4))

text \<open>
  At the largest epoch the increment wraps to the smallest one, and the previous session is
  not fenced.
\<close>

lemma reinit_at_last_epoch:
  assumes "writes_ok env" and "get_transaction tid st = Some txn" and "tx_producer_epoch txn = 32767"
  shows "\<exists>st' t'. register_producer env tid timeout st = ((tx_producer_id txn, -32768, NONE), st') \<and>
    get_transaction tid st' = Some t' \<and> \<not> is_fenced (tx_producer_id txn) 32767 t'"
  using register_again_run [OF assms(1,2), of timeout] assms(3)
  by (auto simp: is_fenced_def swrap_def)

text \<open>Initialising again abandons an open transaction without closing it. If the producer has
  an open transaction in a partition, then after \<open>InitProducerId\<close> and a successful
  \<open>EndTxn\<close> of the new session, whatever its outcome, no marker was written: the transaction
  index is as before, and the last stable offset of the partition still does not pass the
  first offset of the abandoned transaction.
\<close>

theorem reinit_abandons_open_transaction:
  assumes "writes_ok env" and "get_transaction tid st = Some txn"
    and "map_of (ongoing (state_of ix (t, p))) (tx_producer_id txn) = Some first"
  shows "\<exists>e st1 st2. register_producer env tid timeout st = ((tx_producer_id txn, e, NONE), st1) \<and>
    handle_end_txn env cs (index_produce fuel cs base_of) ts tid (tx_producer_id txn) e committed st1 ix =
      (NONE, st2, ix) \<and>
    last_stable_offset ix t p hw \<le> first"
proof -
  obtain st1 t1 where r: "register_producer env tid timeout st =
      ((tx_producer_id txn, swrap 16 (tx_producer_epoch txn + 1), NONE), st1)"
    "get_transaction tid st1 = Some t1" "tx_producer_id t1 = tx_producer_id txn"
    "tx_producer_epoch t1 = swrap 16 (tx_producer_epoch txn + 1)" "tx_partitions t1 = []"
    using register_again_run [OF assms(1,2), of timeout] by blast
  then have "\<not> is_fenced (tx_producer_id txn) (swrap 16 (tx_producer_epoch txn + 1)) t1"
    by (simp add: is_fenced_def)
  from handle_end_txn_run [OF assms(1) r(2) this, of cs "index_produce fuel cs base_of" ts committed ix]
  obtain st2 where "handle_end_txn env cs (index_produce fuel cs base_of) ts tid (tx_producer_id txn)
      (swrap 16 (tx_producer_epoch txn + 1)) committed st1 ix = (NONE, st2, ix)"
    using r(5) by auto
  moreover have "last_stable_offset ix t p hw \<le> first"
    using assms(3) map_of_SomeD [OF assms(3)]
    by (force simp: last_stable_offset_def state_of_def empty_txn_state_def split: option.splits intro: Min_le)
  ultimately show ?thesis using r(1) by blast
qed

theorem reinit_abandons_open_transaction_witness:
  "\<exists>e st1 st2. register_producer sample_env ''t'' 60000 sample_txn_store = ((7, e, NONE), st1) \<and>
    handle_end_txn sample_env plain_codecs (index_produce 4 plain_codecs (\<lambda>_ _. 50)) 1000 ''t'' 7 e True
      st1 sample_txn_index = (NONE, st2, sample_txn_index) \<and>
    last_stable_offset sample_txn_index ''orders'' 0 100 \<le> 40"
  using reinit_abandons_open_transaction [OF sample_txn_ok(1,2), of sample_txn_index "''orders''" 0 40 60000
      plain_codecs 4 "\<lambda>_ _. 50" 1000 True 100]
  by (simp add: sample_txn_ok(3) state_of_def sample_txn_index_def)

text \<open>Enrolling partitions is not fenced. A request of any producer id and epoch for a known
  transactional id, a fenced one included, enrols its partitions in the transaction and is
  answered with \<open>NONE\<close> for every partition.
\<close>

theorem fenced_producer_enrols:
  assumes "writes_ok env" and "ph_store ph = Some st" and "get_transaction tid st = Some txn"
  shows "\<exists>resp ph' st' t'. handle_add_partitions_to_txn env tid pid epoch ts ph = (resp, ph') \<and>
    (\<forall>(t, ps) \<in> set resp. \<forall>(p, e) \<in> set ps. e = NONE) \<and>
    ph_store ph' = Some st' \<and> get_transaction tid st' = Some t' \<and>
    set (tx_partitions t') = set (tx_partitions txn) \<union> set (flat_partitions ts)"
proof -
  have *: "set (fold List.insert xs ys) = set ys \<union> set xs" for xs ys :: "(topic \<times> int) list"
    by (induction xs arbitrary: ys) auto
  obtain st' where "add_partitions_to_transaction env tid pid epoch (flat_partitions ts) st = (Inr (), st')"
    "st_state st' = apply_event (new_with_node (stamp env (clock st))
      (AddPartitionsToTransaction tid pid epoch (flat_partitions ts)) 0) (st_state st)"
    using emit_anonymous_run [OF assms(1)] unfolding add_partitions_to_transaction_def by blast
  then show ?thesis
    using assms(2,3)
    by (auto simp: handle_add_partitions_to_txn_def get_transaction_def apply_event_def new_with_node_def
        apply_add_partitions_def get_update_transaction *)
qed

theorem fenced_producer_enrols_witness:
  "is_fenced 7 2 sample_transaction \<and>
   (\<exists>resp ph' st' t'. handle_add_partitions_to_txn sample_env ''t'' 7 2 [(''other'', [5])]
      \<lparr>ph_store = Some sample_txn_store, ph_fallback = 1, ph_groups = []\<rparr> = (resp, ph') \<and>
    ph_store ph' = Some st' \<and> get_transaction ''t'' st' = Some t' \<and> (''other'', 5) \<in> set (tx_partitions t'))"
proof -
  have "set (flat_partitions [(''other'', [5])]) = {(''other'', 5)}"
    by (simp add: flat_partitions_def uwrap_def)
  then show ?thesis
    using fenced_producer_enrols [OF sample_txn_ok(1) _ sample_txn_ok(2), of
      "\<lparr>ph_store = Some sample_txn_store, ph_fallback = 1, ph_groups = []\<rparr>" 7 2 "[(''other'', [5])]"]
      sample_txn_ok(7) by fastforce
qed

text \<open>The producer id of an idempotent producer does not survive a restart. The allocation is
  not logged, so a node that restarts from its metadata log hands the id it gave to its first
  idempotent producer to the next one again.
\<close>

theorem idempotent_ids_reused:
  "\<exists>pid ph1 st1 ph2.
    handle_init_producer_id env None timeout \<lparr>ph_store = Some (new_store n w), ph_fallback = f, ph_groups = os\<rparr> =
      ((pid, 0, NONE), ph1) \<and>
    ph_store ph1 = Some st1 \<and>
    handle_init_producer_id env None timeout'
      \<lparr>ph_store = Some (replay_events (recovered_events env (wal st1)) (new_store n w)),
       ph_fallback = f', ph_groups = os'\<rparr> = ((pid, 0, NONE), ph2)"
  by (simp add: handle_init_producer_id_def allocate_producer_id_def Let_def new_store_def replay_events_def
      recovered_events_def List.map_filter_def)

text \<open>
  A failed marker write does not change the answer: the transaction is finalised as if every
  marker had landed.
\<close>

lemma marker_failure_ignored:
  assumes "writes_ok env" and "get_transaction tid st = Some txn" and "\<not> is_fenced pid epoch txn"
    and "\<And>ms l. produce ms l = (False, l)"
  shows "\<exists>st' t'. handle_end_txn env cs produce ts tid pid epoch committed st l = (NONE, st', l) \<and>
    get_transaction tid st' = Some t' \<and> tx_partitions t' = [] \<and>
    tx_state t' = (if committed then CompleteCommit else CompleteAbort)"
  using handle_end_txn_run [OF assms(1-3), of cs produce ts committed l] assms(4) by auto

end
