(* ===== verification/Ordered_Map.thy ===== *)
theory Ordered_Map
  imports Chronik_Prelude
begin

text \<open>
  A \<open>BTreeMap\<close>: an association list in ascending order of its keys, so that iteration and
  \<open>range\<close> are list operations. \<open>bt_upsert k f\<close> is \<open>entry(k)\<close> followed by a write: the new
  value is \<open>f\<close> of the old one, if there was one. \<open>remove\<close> is \<^const>\<open>remove_key\<close>.
\<close>

fun bt_upsert :: "'k :: linorder \<Rightarrow> ('v option \<Rightarrow> 'v) \<Rightarrow> ('k \<times> 'v) list \<Rightarrow> ('k \<times> 'v) list" where
  "bt_upsert k f [] = [(k, f None)]"
| "bt_upsert k f ((j, v) # m) =
     (if k = j then (k, f (Some v)) # m
      else if k < j then (k, f None) # (j, v) # m
      else (j, v) # bt_upsert k f m)"

definition bt_insert :: "'k :: linorder \<Rightarrow> 'v \<Rightarrow> ('k \<times> 'v) list \<Rightarrow> ('k \<times> 'v) list" where
  "bt_insert k v m = bt_upsert k (\<lambda>_. v) m"

definition bt_wf :: "('k :: linorder \<times> 'v) list \<Rightarrow> bool" where
  "bt_wf m \<longleftrightarrow> sorted_wrt (<) (map fst m)"

lemma bt_wf_nil [simp]: "bt_wf []"
  by (simp add: bt_wf_def)

lemma bt_wf_Cons: "bt_wf (e # m) \<longleftrightarrow> (\<forall>k \<in> fst ` set m. fst e < k) \<and> bt_wf m"
  by (auto simp: bt_wf_def)

lemma bt_wf_distinct: "bt_wf m \<Longrightarrow> distinct (map fst m)"
  by (simp add: bt_wf_def strict_sorted_iff)

lemma bt_upsert_keys: "fst ` set (bt_upsert k f m) = insert k (fst ` set m)"
  by (induction k f m rule: bt_upsert.induct) auto

lemma bt_upsert_wf [simp]: "bt_wf m \<Longrightarrow> bt_wf (bt_upsert k f m)"
  by (induction k f m rule: bt_upsert.induct) (auto simp: bt_wf_Cons bt_upsert_keys)

lemma bt_wf_filter [simp]: "bt_wf m \<Longrightarrow> bt_wf (filter P m)"
  by (induction m) (auto simp: bt_wf_Cons)

lemma bt_wf_remove [simp]: "bt_wf m \<Longrightarrow> bt_wf (remove_key k m)"
  by (simp add: remove_key_def)

lemma bt_get_upsert [hash_simps]:
  "bt_wf m \<Longrightarrow> map_of (bt_upsert k f m) j = (if j = k then Some (f (map_of m k)) else map_of m j)"
proof (induction k f m rule: bt_upsert.induct)
  case (2 k f j' v m)
  have "map_of m k = None" if "k < j'"
    using 2(2) that by (auto simp: bt_wf_Cons map_of_eq_None_iff)
  with 2 show ?case by (auto simp: bt_wf_Cons)
qed auto

lemma bt_get_insert [hash_simps]:
  "bt_wf m \<Longrightarrow> map_of (bt_insert k v m) j = (if j = k then Some v else map_of m j)"
  by (simp add: bt_insert_def bt_get_upsert)

lemma bt_insert_wf [simp]: "bt_wf m \<Longrightarrow> bt_wf (bt_insert k v m)"
  by (simp add: bt_insert_def)

lemma bt_map_wf [simp]: "bt_wf (map (\<lambda>e. (fst e, f e)) m) = bt_wf m"
  by (simp add: bt_wf_def comp_def)

end
