(* ===== verification/Isr_Ack.thy ===== *)
theory Isr_Ack
  imports Ordered_Map
begin

text \<open>
  The tracker of \<open>acks=all\<close> requests (\<open>chronik-server/src/isr_ack_tracker.rs\<close>): requests wait at
  the offset their batch ends at until enough replicas have reported a position at or past it. A
  request is named by the number of its reply channel; \<open>it_replies\<close> is what was sent on the
  channels, in order, \<open>True\<close> for success. The clock is an argument.
\<close>

section \<open>State\<close>

record wait_entry =
  we_tx :: "nat option"
  we_quorum :: nat
  we_registered :: nat

record ack_partition =
  node_offsets :: "(node_id \<times> int) list"
  waiters :: "(int \<times> wait_entry list) list"

record ack_tracker =
  it_partitions :: "(partition_key \<times> ack_partition) list"
  it_replies :: "(nat \<times> bool) list"

definition empty_ack_partition :: ack_partition where
  "empty_ack_partition = \<lparr>node_offsets = [], waiters = []\<rparr>"

definition new_ack_tracker :: ack_tracker where
  "new_ack_tracker = \<lparr>it_partitions = [], it_replies = []\<rparr>"

definition DEFAULT_ACK_TIMEOUT :: nat where "DEFAULT_ACK_TIMEOUT = 30"

definition ack_state :: "partition_key \<Rightarrow> ack_tracker \<Rightarrow> ack_partition" where
  "ack_state k trk =
     (case map_of (it_partitions trk) k of None \<Rightarrow> empty_ack_partition | Some st \<Rightarrow> st)"

definition set_ack_state :: "partition_key \<Rightarrow> ack_partition \<Rightarrow> ack_tracker \<Rightarrow> ack_tracker" where
  "set_ack_state k st trk = trk\<lparr>it_partitions := AList.update k st (it_partitions trk)\<rparr>"

definition send_all :: "nat list \<Rightarrow> bool \<Rightarrow> ack_tracker \<Rightarrow> ack_tracker" where
  "send_all txs ok trk = trk\<lparr>it_replies := it_replies trk @ map (\<lambda>tx. (tx, ok)) txs\<rparr>"

definition replicas_at :: "(node_id \<times> int) list \<Rightarrow> int \<Rightarrow> nat" where
  "replicas_at offs off = length (filter (\<lambda>e. off \<le> snd e) offs)"

section \<open>Operations\<close>

definition register_wait ::
  "topic \<Rightarrow> int \<Rightarrow> int \<Rightarrow> nat \<Rightarrow> nat \<Rightarrow> nat \<Rightarrow> ack_tracker \<Rightarrow> ack_tracker" where
  "register_wait t p off quorum tx now trk =
     (let st = ack_state (t, p) trk;
          trk1 = set_ack_state (t, p) st trk
      in if quorum \<le> replicas_at (node_offsets st) off then send_all [tx] True trk1
         else set_ack_state (t, p)
           (st\<lparr>waiters := bt_upsert off
              (\<lambda>old. (case old of None \<Rightarrow> [] | Some es \<Rightarrow> es) @
                 [\<lparr>we_tx = Some tx, we_quorum = quorum, we_registered = now\<rparr>]) (waiters st)\<rparr>) trk)"

definition release_at ::
  "(node_id \<times> int) list \<Rightarrow> int \<Rightarrow> (int \<times> wait_entry list) list \<times> nat list \<Rightarrow> (int \<times> wait_entry list) list \<times> nat list" where
  "release_at offs off acc =
     (case acc of (ws, to_notify) \<Rightarrow>
        (case map_of ws off of
           None \<Rightarrow> (ws, to_notify)
         | Some entries \<Rightarrow>
             let reached = replicas_at offs off;
                 still_waiting = filter (\<lambda>e. \<not> we_quorum e \<le> reached) entries
             in (if still_waiting = [] then remove_key off ws else bt_insert off still_waiting ws,
                 to_notify @ List.map_filter we_tx (filter (\<lambda>e. we_quorum e \<le> reached) entries))))"

definition record_ack :: "topic \<Rightarrow> int \<Rightarrow> int \<Rightarrow> node_id \<Rightarrow> ack_tracker \<Rightarrow> ack_tracker" where
  "record_ack t p off node trk =
     (let st = ack_state (t, p) trk;
          slots = or_insert node i64_min (node_offsets st)
      in if \<not> the (map_of slots node) < off
         then set_ack_state (t, p) (st\<lparr>node_offsets := slots\<rparr>) trk
         else
           let offs = AList.update node off slots;
               highest = Max (set (map snd offs));
               candidates = filter (\<lambda>w. w \<le> highest) (map fst (waiters st));
               (ws, to_notify) = fold (release_at offs) candidates (waiters st, [])
           in send_all to_notify True
                (set_ack_state (t, p) (st\<lparr>node_offsets := offs, waiters := ws\<rparr>) trk))"

definition expired_entry :: "nat \<Rightarrow> nat \<Rightarrow> wait_entry \<Rightarrow> bool" where
  "expired_entry timeout now e \<longleftrightarrow> timeout < now - we_registered e"

definition expire_partition :: "nat \<Rightarrow> nat \<Rightarrow> ack_partition \<Rightarrow> ack_partition" where
  "expire_partition timeout now st =
     st\<lparr>waiters := filter (\<lambda>w. snd w \<noteq> [])
        (map (\<lambda>w. (fst w, filter (\<lambda>e. \<not> expired_entry timeout now e) (snd w))) (waiters st))\<rparr>"

definition expired_txs :: "nat \<Rightarrow> nat \<Rightarrow> ack_partition \<Rightarrow> nat list" where
  "expired_txs timeout now st =
     List.map_filter we_tx (filter (expired_entry timeout now) (concat (map snd (waiters st))))"

definition cleanup_expired :: "nat \<Rightarrow> nat \<Rightarrow> ack_tracker \<Rightarrow> ack_tracker" where
  "cleanup_expired timeout now trk =
     send_all (concat (map (\<lambda>e. expired_txs timeout now (snd e)) (it_partitions trk))) False
       (trk\<lparr>it_partitions := map (\<lambda>e. (fst e, expire_partition timeout now (snd e))) (it_partitions trk)\<rparr>)"

definition ack_pending_count :: "ack_tracker \<Rightarrow> nat" where
  "ack_pending_count trk =
     sum_list (map (\<lambda>e. sum_list (map (\<lambda>w. length (snd w)) (waiters (snd e)))) (it_partitions trk))"

definition replica_offset :: "topic \<Rightarrow> int \<Rightarrow> node_id \<Rightarrow> ack_tracker \<Rightarrow> int option" where
  "replica_offset t p node trk =
     (case map_of (it_partitions trk) (t, p) of
        None \<Rightarrow> None
      | Some st \<Rightarrow>
          (case map_of (node_offsets st) node of
             None \<Rightarrow> None
           | Some off \<Rightarrow> if off \<noteq> i64_min then Some off else None))"

record isr_ack_stats =
  pending_requests :: nat
  tracked_replicas :: nat
  waiting_for_quorum :: nat
  oldest_request_age :: nat

definition ack_stats :: "nat \<Rightarrow> ack_tracker \<Rightarrow> isr_ack_stats" where
  "ack_stats now trk =
     \<lparr>pending_requests = ack_pending_count trk,
      tracked_replicas = sum_list (map (\<lambda>e. length (node_offsets (snd e))) (it_partitions trk)),
      waiting_for_quorum = ack_pending_count trk,
      oldest_request_age = fold max
        (concat (map (\<lambda>e. concat (map (\<lambda>w. map (\<lambda>x. now - we_registered x) (snd w)) (waiters (snd e))))
           (it_partitions trk))) 0\<rparr>"


section \<open>Runs of the tracker\<close>

text \<open>
  Specification side: the calls the tracker receives, and the replicas that have reported a
  position at or past an offset of a partition.
\<close>

datatype ack_op =
    Register topic int int nat nat nat
  | Ack topic int int node_id
  | Expire nat nat

fun run_ack :: "ack_op \<Rightarrow> ack_tracker \<Rightarrow> ack_tracker" where
  "run_ack (Register t p off quorum tx now) trk = register_wait t p off quorum tx now trk"
| "run_ack (Ack t p off node) trk = record_ack t p off node trk"
| "run_ack (Expire timeout now) trk = cleanup_expired timeout now trk"

definition ack_run :: "ack_op list \<Rightarrow> ack_tracker" where
  "ack_run ops = fold run_ack ops new_ack_tracker"

definition reporters :: "ack_op list \<Rightarrow> partition_key \<Rightarrow> int \<Rightarrow> node_id set" where
  "reporters ops k off = {n. \<exists>off' \<ge> off. Ack (fst k) (snd k) off' n \<in> set ops}"

definition ack_ops_ok :: "ack_op list \<Rightarrow> bool" where
  "ack_ops_ok ops \<longleftrightarrow> (\<forall>t p off n. Ack t p off n \<in> set ops \<longrightarrow> 0 \<le> off)"

definition nodes_ok :: "ack_op list \<Rightarrow> partition_key \<Rightarrow> ack_partition \<Rightarrow> bool" where
  "nodes_ok ops k st \<longleftrightarrow> distinct (map fst (node_offsets st)) \<and>
     (\<forall>n m. map_of (node_offsets st) n = Some m \<longrightarrow> Ack (fst k) (snd k) m n \<in> set ops) \<and>
     (\<forall>n off. Ack (fst k) (snd k) off n \<in> set ops \<longrightarrow> (\<exists>m \<ge> off. map_of (node_offsets st) n = Some m))"

definition waits_ok :: "ack_partition \<Rightarrow> bool" where
  "waits_ok st \<longleftrightarrow> bt_wf (waiters st) \<and>
     (\<forall>off es e. map_of (waiters st) off = Some es \<and> e \<in> set es \<longrightarrow>
        \<not> we_quorum e \<le> replicas_at (node_offsets st) off)"

definition waiting :: "ack_partition \<Rightarrow> int \<Rightarrow> nat \<Rightarrow> nat \<Rightarrow> bool" where
  "waiting st off quorum tx \<longleftrightarrow>
     (\<exists>es e. map_of (waiters st) off = Some es \<and> e \<in> set es \<and> we_tx e = Some tx \<and> we_quorum e = quorum)"

definition justified :: "ack_op list \<Rightarrow> nat \<Rightarrow> bool" where
  "justified ops tx \<longleftrightarrow>
     (\<exists>t p off quorum now. Register t p off quorum tx now \<in> set ops \<and> quorum \<le> card (reporters ops (t, p) off))"

definition ack_inv :: "ack_op list \<Rightarrow> ack_tracker \<Rightarrow> bool" where
  "ack_inv ops trk \<longleftrightarrow>
     (\<forall>k. nodes_ok ops k (ack_state k trk) \<and> waits_ok (ack_state k trk)) \<and>
     (\<forall>k off quorum tx. waiting (ack_state k trk) off quorum tx \<longrightarrow>
        (\<exists>now. Register (fst k) (snd k) off quorum tx now \<in> set ops)) \<and>
     (\<forall>t p off quorum tx now. Register t p off quorum tx now \<in> set ops \<longrightarrow>
        tx \<in> fst ` set (it_replies trk) \<or> waiting (ack_state (t, p) trk) off quorum tx) \<and>
     (\<forall>tx. (tx, True) \<in> set (it_replies trk) \<longrightarrow> justified ops tx) \<and>
     (\<forall>tx. (tx, False) \<in> set (it_replies trk) \<longrightarrow> (\<exists>timeout now. Expire timeout now \<in> set ops))"

lemma waits_okD:
  assumes "waits_ok st"
  shows "bt_wf (waiters st)"
    and "\<lbrakk>map_of (waiters st) off = Some es; e \<in> set es\<rbrakk> \<Longrightarrow> \<not> we_quorum e \<le> replicas_at (node_offsets st) off"
    and "waiting st off quorum tx \<Longrightarrow> \<not> quorum \<le> replicas_at (node_offsets st) off"
  using assms unfolding waits_ok_def waiting_def by blast+

lemma ack_invI:
  assumes "\<And>k. nodes_ok ops k (ack_state k trk)" "\<And>k. waits_ok (ack_state k trk)"
    "\<And>k off quorum tx. waiting (ack_state k trk) off quorum tx \<Longrightarrow>
       \<exists>now. Register (fst k) (snd k) off quorum tx now \<in> set ops"
    "\<And>t p off quorum tx now. Register t p off quorum tx now \<in> set ops \<Longrightarrow>
       tx \<in> fst ` set (it_replies trk) \<or> waiting (ack_state (t, p) trk) off quorum tx"
    "\<And>tx. (tx, True) \<in> set (it_replies trk) \<Longrightarrow> justified ops tx"
    "\<And>tx. (tx, False) \<in> set (it_replies trk) \<Longrightarrow> \<exists>timeout now. Expire timeout now \<in> set ops"
  shows "ack_inv ops trk"
  unfolding ack_inv_def using assms by blast

lemma ack_invD:
  assumes "ack_inv ops trk"
  shows "nodes_ok ops k (ack_state k trk)" "waits_ok (ack_state k trk)"
    "waiting (ack_state k trk) off quorum tx \<Longrightarrow> \<exists>now. Register (fst k) (snd k) off quorum tx now \<in> set ops"
    "Register t p off quorum tx now \<in> set ops \<Longrightarrow>
       tx \<in> fst ` set (it_replies trk) \<or> waiting (ack_state (t, p) trk) off quorum tx"
    "(tx, True) \<in> set (it_replies trk) \<Longrightarrow> justified ops tx"
    "(tx, False) \<in> set (it_replies trk) \<Longrightarrow> \<exists>timeout now. Expire timeout now \<in> set ops"
  using assms unfolding ack_inv_def by blast+

lemma ack_state_set [simp]: "ack_state j (set_ack_state k st trk) = (if j = k then st else ack_state j trk)"
  by (simp add: ack_state_def set_ack_state_def hash_simps)

lemma ack_state_send [simp]: "ack_state k (send_all txs ok trk) = ack_state k trk"
  by (simp add: ack_state_def send_all_def)

lemma replies_set [simp]: "it_replies (set_ack_state k st trk) = it_replies trk"
  by (simp add: set_ack_state_def)

lemma replies_send [simp]: "set (it_replies (send_all txs ok trk)) = set (it_replies trk) \<union> (\<lambda>tx. (tx, ok)) ` set txs"
  by (auto simp: send_all_def)

lemma finite_reporters [simp]: "finite (reporters ops k off)"
proof -
  have "reporters ops k off \<subseteq> (\<lambda>x. case x of Ack t p o' n \<Rightarrow> n | _ \<Rightarrow> 0) ` set ops"
    by (force simp: reporters_def image_iff)
  then show ?thesis by (rule finite_subset) simp
qed

lemma reporters_mono: "set ops \<subseteq> set ops' \<Longrightarrow> card (reporters ops k off) \<le> card (reporters ops' k off)"
  by (rule card_mono [OF finite_reporters]) (auto simp: reporters_def)

lemma justified_mono: "justified ops tx \<Longrightarrow> set ops \<subseteq> set ops' \<Longrightarrow> justified ops' tx"
  unfolding justified_def by (meson reporters_mono le_trans subsetD)

lemma replicas_at_reporters:
  assumes "nodes_ok ops k st"
  shows "replicas_at (node_offsets st) off = card (reporters ops k off)"
proof -
  have d: "distinct (map fst (node_offsets st))" using assms by (simp add: nodes_ok_def)
  have mem: "map_of (node_offsets st) n = Some m \<longleftrightarrow> (n, m) \<in> set (node_offsets st)" for n m
    using d by simp
  have "reporters ops k off = fst ` set (filter (\<lambda>e. off \<le> snd e) (node_offsets st))"
  proof (intro set_eqI iffI)
    fix n assume "n \<in> reporters ops k off"
    then obtain off' m where "off \<le> off'" "off' \<le> m" "map_of (node_offsets st) n = Some m"
      using assms by (fastforce simp: reporters_def nodes_ok_def)
    then show "n \<in> fst ` set (filter (\<lambda>e. off \<le> snd e) (node_offsets st))"
      using mem by (force simp: image_iff)
  next
    fix n assume "n \<in> fst ` set (filter (\<lambda>e. off \<le> snd e) (node_offsets st))"
    then obtain m where "(n, m) \<in> set (node_offsets st)" "off \<le> m" by auto
    then show "n \<in> reporters ops k off"
      using assms mem by (force simp: reporters_def nodes_ok_def)
  qed
  then show ?thesis
    using distinct_card [of "map fst (filter (\<lambda>e. off \<le> snd e) (node_offsets st))"] d
    by (simp add: replicas_at_def distinct_map_filter)
qed

lemma justifiedI:
  "\<lbrakk>Register t p off quorum tx now \<in> set ops; nodes_ok ops (t, p) st; quorum \<le> replicas_at (node_offsets st) off\<rbrakk>
     \<Longrightarrow> justified ops tx"
  unfolding justified_def using replicas_at_reporters by metis

lemma ack_inv_new: "ack_inv [] new_ack_tracker"
  by (simp add: ack_inv_def ack_state_def new_ack_tracker_def empty_ack_partition_def nodes_ok_def waits_ok_def
      waiting_def)

text \<open>Calls that do not report a position keep what is known of the replicas.\<close>

lemma nodes_ok_other: "(\<And>off n. op \<noteq> Ack (fst k) (snd k) off n) \<Longrightarrow> nodes_ok (ops @ [op]) k st = nodes_ok ops k st"
  by (simp add: nodes_ok_def) blast

lemma nodes_ok_cong: "node_offsets st = node_offsets st' \<Longrightarrow> nodes_ok ops k st = nodes_ok ops k st'"
  unfolding nodes_ok_def by simp

section \<open>Registering and expiring\<close>

lemma waiting_register:
  assumes "bt_wf (waiters st)"
  shows "waiting (st\<lparr>waiters := bt_upsert off
      (\<lambda>old. (case old of None \<Rightarrow> [] | Some es \<Rightarrow> es) @ [\<lparr>we_tx = Some tx, we_quorum = quorum, we_registered = now\<rparr>])
      (waiters st)\<rparr>) off' quorum' tx' \<longleftrightarrow>
    waiting st off' quorum' tx' \<or> (off' = off \<and> quorum' = quorum \<and> tx' = tx)"
  using assms by (cases "map_of (waiters st) off") (auto simp: waiting_def hash_simps)

lemma register_inv:
  assumes "ack_inv ops trk"
  shows "ack_inv (ops @ [Register t p off quorum tx now]) (register_wait t p off quorum tx now trk)"
proof -
  let ?ops = "ops @ [Register t p off quorum tx now]" and ?st = "ack_state (t, p) trk"
  note inv = ack_invD [OF assms]
  have nodes: "nodes_ok ?ops k (ack_state k trk)" for k
    using inv(1) [of k] nodes_ok_other by blast
  have wf: "bt_wf (waiters ?st)" using inv(2) by (simp add: waits_ok_def)
  have old: "justified ?ops tx'" if "(tx', True) \<in> set (it_replies trk)" for tx'
    by (rule justified_mono [OF inv(5) [OF that]]) auto
  show ?thesis
  proof (cases "quorum \<le> replicas_at (node_offsets ?st) off")
    case True
    then have j: "justified ?ops tx" using nodes by (intro justifiedI) auto
    show ?thesis
    proof (rule ack_invI, goal_cases)
      case (3 k off' q' tx')
      then have "waiting (ack_state k trk) off' q' tx'"
        using True by (simp add: register_wait_def Let_def split: if_splits)
      from inv(3) [OF this] show ?case by auto
    next
      case (4 t' p' off' q' tx' now')
      then show ?case using True inv(4) [of t' p' off' q' tx' now'] by (auto simp: register_wait_def Let_def)
    qed (use True nodes inv(2,6) old j in \<open>auto simp: register_wait_def Let_def\<close>)
  next
    case False
    note w = waiting_register [OF wf, of off tx quorum now]
    show ?thesis
    proof (rule ack_invI, goal_cases)
      case (1 k)
      have "node_offsets (ack_state k (register_wait t p off quorum tx now trk)) = node_offsets (ack_state k trk)"
        using False by (auto simp: register_wait_def Let_def)
      then show ?case using nodes [of k] nodes_ok_cong by blast
    next
      case (2 k)
      then show ?case
        using False inv(2) [of k]
        by (auto simp: register_wait_def Let_def waits_ok_def hash_simps split: option.splits if_splits)
    next
      case (3 k off' q' tx')
      then have "waiting (ack_state k trk) off' q' tx' \<or> k = (t, p) \<and> off' = off \<and> q' = quorum \<and> tx' = tx"
        using False w by (auto simp: register_wait_def Let_def split: if_splits)
      with inv(3) show ?case by fastforce
    next
      case (4 t' p' off' q' tx' now')
      then show ?case
        using False w inv(4) [of t' p' off' q' tx' now'] by (auto simp: register_wait_def Let_def)
    qed (use False inv(6) old in \<open>auto simp: register_wait_def Let_def\<close>)
  qed
qed

lemma get_map_values: "map_of (map (\<lambda>e. (fst e, f (snd e))) m) k = map_option f (map_of m k)"
  by (induction m) auto

lemma expire_empty [simp]: "expire_partition timeout now empty_ack_partition = empty_ack_partition"
  by (simp add: expire_partition_def empty_ack_partition_def)

lemma ack_state_cleanup: "ack_state k (cleanup_expired timeout now trk) = expire_partition timeout now (ack_state k trk)"
  by (simp add: ack_state_def cleanup_expired_def send_all_def get_map_values split: option.split)

lemma expire_lookup:
  assumes "bt_wf (waiters st)"
  shows "map_of (waiters (expire_partition timeout now st)) off =
    (case map_of (waiters st) off of None \<Rightarrow> None
     | Some es \<Rightarrow> if filter (\<lambda>e. \<not> expired_entry timeout now e) es = [] then None
         else Some (filter (\<lambda>e. \<not> expired_entry timeout now e) es))"
proof -
  let ?f = "\<lambda>es. filter (\<lambda>e. \<not> expired_entry timeout now e) es"
  have "map_of (filter (\<lambda>w. snd w \<noteq> []) (map (\<lambda>w. (fst w, ?f (snd w))) m)) off =
    (case map_of m off of None \<Rightarrow> None | Some es \<Rightarrow> if ?f es = [] then None else Some (?f es))"
    if "distinct (map fst m)" for m
    using that
  proof (induction m)
    case (Cons e m)
    then have "map_of m (fst e) = None" by (simp add: map_of_eq_None_iff)
    with Cons show ?case by (auto split: option.splits if_splits)
  qed simp
  from this [OF bt_wf_distinct [OF assms]] show ?thesis
    by (simp add: expire_partition_def)
qed

lemma waits_ok_expire:
  assumes "waits_ok st"
  shows "waits_ok (expire_partition timeout now st)"
proof -
  have wf: "bt_wf (waiters st)" using assms by (simp add: waits_ok_def)
  then have "bt_wf (waiters (expire_partition timeout now st))" by (simp add: expire_partition_def)
  moreover have "\<not> we_quorum e \<le> replicas_at (node_offsets st) off"
    if g: "map_of (waiters (expire_partition timeout now st)) off = Some es" "e \<in> set es" for off es e
  proof -
    obtain es' where "map_of (waiters st) off = Some es'" "e \<in> set es'"
      using g expire_lookup [OF wf, of timeout now off]
      by (cases "map_of (waiters st) off") (auto split: if_splits)
    then show ?thesis by (rule waits_okD(2) [OF assms])
  qed
  moreover have "node_offsets (expire_partition timeout now st) = node_offsets st"
    by (simp add: expire_partition_def)
  ultimately show ?thesis unfolding waits_ok_def by simp
qed

lemma waiting_expire:
  assumes "bt_wf (waiters st)"
  shows "waiting (expire_partition timeout now st) off quorum tx \<Longrightarrow> waiting st off quorum tx"
    and "waiting st off quorum tx \<Longrightarrow>
      waiting (expire_partition timeout now st) off quorum tx \<or> tx \<in> set (expired_txs timeout now st)"
proof -
  show "waiting (expire_partition timeout now st) off quorum tx \<Longrightarrow> waiting st off quorum tx"
    using expire_lookup [OF assms, of timeout now off]
    by (auto simp: waiting_def Let_def split: option.splits if_splits)
  assume "waiting st off quorum tx"
  then obtain es e where e: "map_of (waiters st) off = Some es" "e \<in> set es" "we_tx e = Some tx" "we_quorum e = quorum"
    by (auto simp: waiting_def)
  show "waiting (expire_partition timeout now st) off quorum tx \<or> tx \<in> set (expired_txs timeout now st)"
  proof (cases "expired_entry timeout now e")
    case True
    have "e \<in> set (filter (expired_entry timeout now) (concat (map snd (waiters st))))"
      using True e map_of_SomeD [OF e(1)] by force
    then show ?thesis
      using e(3) by (force simp: expired_txs_def map_filter_def)
  next
    case False
    then show ?thesis
      using e expire_lookup [OF assms, of timeout now off] by (auto simp: waiting_def Let_def filter_empty_conv)
  qed
qed

lemma expire_inv:
  assumes "ack_inv ops trk"
  shows "ack_inv (ops @ [Expire timeout now]) (cleanup_expired timeout now trk)"
proof -
  let ?ops = "ops @ [Expire timeout now]" and ?trk = "cleanup_expired timeout now trk"
  note inv = ack_invD [OF assms]
  have wf: "bt_wf (waiters (ack_state k trk))" for k using inv(2) by (simp add: waits_ok_def)
  have replies: "set (it_replies ?trk) = set (it_replies trk) \<union>
      (\<lambda>tx. (tx, False)) ` (\<Union>e \<in> set (it_partitions trk). set (expired_txs timeout now (snd e)))"
    by (auto simp: cleanup_expired_def send_all_def)
  show ?thesis
  proof (rule ack_invI, goal_cases)
    case (1 k)
    have "nodes_ok ?ops k (ack_state k trk)" using inv(1) nodes_ok_other by blast
    moreover have "node_offsets (expire_partition timeout now st) = node_offsets st" for st
      by (simp add: expire_partition_def)
    ultimately show ?case unfolding ack_state_cleanup using nodes_ok_cong by blast
  next
    case (2 k)
    then show ?case unfolding ack_state_cleanup by (rule waits_ok_expire [OF inv(2)])
  next
    case (3 k off q tx)
    then have "waiting (ack_state k trk) off q tx" unfolding ack_state_cleanup by (rule waiting_expire(1) [OF wf])
    from inv(3) [OF this] show ?case by auto
  next
    case (4 t p off q tx n)
    then consider "tx \<in> fst ` set (it_replies trk)" | "waiting (ack_state (t, p) trk) off q tx"
      using inv(4) [of t p off q tx n] by auto
    then show ?case
    proof cases
      case 2
      then consider "waiting (expire_partition timeout now (ack_state (t, p) trk)) off q tx"
        | "tx \<in> set (expired_txs timeout now (ack_state (t, p) trk))" using waiting_expire(2) [OF wf] by blast
      then show ?thesis
      proof cases
        case 2
        then have "ack_state (t, p) trk \<noteq> empty_ack_partition"
          by (auto simp: expired_txs_def empty_ack_partition_def map_filter_def)
        then have "((t, p), ack_state (t, p) trk) \<in> set (it_partitions trk)"
          by (auto simp: ack_state_def split: option.splits dest: map_of_SomeD)
        with 2 show ?thesis unfolding replies by force
      qed (simp add: ack_state_cleanup)
    qed (auto simp: replies)
  next
    case (5 tx)
    then show ?case using inv(5) [of tx] justified_mono [of ops tx ?ops] by (auto simp: replies)
  qed (use inv(6) in auto)
qed

section \<open>Reports\<close>

definition released_at :: "(node_id \<times> int) list \<Rightarrow> (int \<times> wait_entry list) list \<Rightarrow> int \<Rightarrow> wait_entry list option" where
  "released_at offs ws off =
     (case map_of ws off of None \<Rightarrow> None
      | Some es \<Rightarrow> if filter (\<lambda>e. \<not> we_quorum e \<le> replicas_at offs off) es = [] then None
          else Some (filter (\<lambda>e. \<not> we_quorum e \<le> replicas_at offs off) es))"

definition reached_txs :: "(node_id \<times> int) list \<Rightarrow> (int \<times> wait_entry list) list \<Rightarrow> int \<Rightarrow> nat set" where
  "reached_txs offs ws off =
     {tx. \<exists>es e. map_of ws off = Some es \<and> e \<in> set es \<and> we_quorum e \<le> replicas_at offs off \<and> we_tx e = Some tx}"

lemma set_map_filter: "set (List.map_filter f xs) = {y. \<exists>x \<in> set xs. f x = Some y}"
  by (induction xs) (auto simp: map_filter_simps split: option.splits)

lemma release_at_run:
  assumes "bt_wf ws"
  shows "bt_wf (fst (release_at offs off (ws, ns)))"
    and "map_of (fst (release_at offs off (ws, ns))) off' = (if off' = off then released_at offs ws off else map_of ws off')"
    and "set (snd (release_at offs off (ws, ns))) = set ns \<union> reached_txs offs ws off"
  using assms
  by (auto simp: release_at_def Let_def hash_simps released_at_def reached_txs_def set_map_filter split: option.splits)

lemma release_fold:
  assumes "bt_wf ws" and "distinct cs"
  shows "bt_wf (fst (fold (release_at offs) cs (ws, ns))) \<and>
    (\<forall>off. map_of (fst (fold (release_at offs) cs (ws, ns))) off =
       (if off \<in> set cs then released_at offs ws off else map_of ws off)) \<and>
    set (snd (fold (release_at offs) cs (ws, ns))) = set ns \<union> (\<Union>off \<in> set cs. reached_txs offs ws off)"
  using assms
proof (induction cs arbitrary: ws ns)
  case (Cons c cs)
  obtain ws1 ns1 where r: "release_at offs c (ws, ns) = (ws1, ns1)" by fastforce
  note run = release_at_run [OF Cons.prems(1), of offs c ns, unfolded r fst_conv snd_conv]
  have "released_at offs ws1 off = released_at offs ws off \<and> reached_txs offs ws1 off = reached_txs offs ws off"
    if "off \<in> set cs" for off
    using that Cons.prems(2) run(2) [of off] by (auto simp: released_at_def reached_txs_def)
  then show ?case
    using Cons.IH [OF run(1), of ns1] Cons.prems(2) run(2,3) by (auto simp: r)
qed auto

lemma replicas_above:
  assumes "\<And>m. m \<in> snd ` set offs \<Longrightarrow> m < off"
  shows "replicas_at offs off = 0"
proof -
  have "filter (\<lambda>e. off \<le> snd e) offs = []"
    using assms by (force simp: filter_empty_conv)
  then show ?thesis by (simp add: replicas_at_def)
qed

lemma nodes_ok_report:
  assumes "nodes_ok ops (t, p) st" and "0 \<le> off" and "lo < 0"
  shows "\<not> the (map_of (or_insert node lo (node_offsets st)) node) < off \<Longrightarrow>
      or_insert node lo (node_offsets st) = node_offsets st \<and> nodes_ok (ops @ [Ack t p off node]) (t, p) st"
    and "the (map_of (or_insert node lo (node_offsets st)) node) < off \<Longrightarrow>
      nodes_ok (ops @ [Ack t p off node]) (t, p)
        (st\<lparr>node_offsets := AList.update node off (or_insert node lo (node_offsets st)), waiters := ws\<rparr>)"
proof -
  let ?slots = "or_insert node lo (node_offsets st)"
  note ok = assms(1) [unfolded nodes_ok_def fst_conv snd_conv]
  have d: "distinct (map fst (AList.update node off ?slots))"
    using ok by (intro distinct_insert distinct_or_insert) simp
  {
    assume n: "\<not> the (map_of ?slots node) < off"
    then obtain m where "map_of (node_offsets st) node = Some m" "off \<le> m"
      using assms(2,3) by (cases "map_of (node_offsets st) node") (auto simp: hash_simps)
    then show "?slots = node_offsets st \<and> nodes_ok (ops @ [Ack t p off node]) (t, p) st"
      using ok unfolding nodes_ok_def by (auto simp: or_insert_def)
  }
  assume lt: "the (map_of ?slots node) < off"
  have old: "m \<le> off" if "map_of (node_offsets st) node = Some m" for m
    using lt that by (simp add: hash_simps)
  have get: "map_of (AList.update node off ?slots) n = (if n = node then Some off else map_of (node_offsets st) n)" for n
    by (simp add: hash_simps split: option.split)
  have "\<exists>m \<ge> x. (if n = node then Some off else map_of (node_offsets st) n) = Some m"
    if "Ack t p x n \<in> set (ops @ [Ack t p off node])" for x n
    using that ok old by (cases "n = node") fastforce+
  then show "nodes_ok (ops @ [Ack t p off node]) (t, p)
      (st\<lparr>node_offsets := AList.update node off ?slots, waiters := ws\<rparr>)"
    using ok d unfolding nodes_ok_def fst_conv snd_conv ack_partition.select_convs ack_partition.update_convs
    by (simp add: get del: map_of_eq_Some_iff)
qed

lemma released:
  assumes "waits_ok st" and "offs \<noteq> []"
    and "fold (release_at offs) (filter (\<lambda>w. w \<le> Max (set (map snd offs))) (map fst (waiters st))) (waiters st, []) = (ws, ns)"
  shows "waits_ok (st\<lparr>node_offsets := offs, waiters := ws\<rparr>)"
    and "waiting (st\<lparr>node_offsets := offs, waiters := ws\<rparr>) x quorum tx \<Longrightarrow> waiting st x quorum tx"
    and "waiting st x quorum tx \<Longrightarrow> waiting (st\<lparr>node_offsets := offs, waiters := ws\<rparr>) x quorum tx \<or> tx \<in> set ns"
    and "tx \<in> set ns \<Longrightarrow> \<exists>x quorum. waiting st x quorum tx \<and> quorum \<le> replicas_at offs x"
proof -
  let ?cs = "filter (\<lambda>w. w \<le> Max (set (map snd offs))) (map fst (waiters st))"
  have wf: "bt_wf (waiters st)" using assms(1) by (simp add: waits_ok_def)
  have d: "distinct ?cs" using bt_wf_distinct [OF wf] by simp
  note r = release_fold [OF wf d, of offs "[]", unfolded assms(3), simplified fst_conv snd_conv]
  have get: "map_of ws y = (if y \<in> set ?cs then released_at offs (waiters st) y else map_of (waiters st) y)" for y
    using r by blast
  have above: "replicas_at offs y = 0" if "map_of (waiters st) y = Some es" "y \<notin> set ?cs" for y es
  proof (rule replicas_above)
    fix m assume "m \<in> snd ` set offs"
    then have "m \<le> Max (set (map snd offs))" by simp
    moreover have "Max (set (map snd offs)) < y"
      using that map_of_SomeD [OF that(1)] by force
    ultimately show "m < y" by simp
  qed
  have "\<not> we_quorum e \<le> replicas_at offs y" if "map_of ws y = Some es" "e \<in> set es" for y es e
  proof (cases "y \<in> set ?cs")
    case True
    then show ?thesis
      using that get [of y] by (auto simp: released_at_def split: option.splits if_splits)
  next
    case False
    then have "map_of (waiters st) y = Some es" using that(1) get [of y] by (simp split: if_splits)
    with above [OF this False] waits_okD(2) [OF assms(1) this that(2)] show ?thesis by simp
  qed
  then show "waits_ok (st\<lparr>node_offsets := offs, waiters := ws\<rparr>)"
    using r by (simp add: waits_ok_def)
  show "waiting st x quorum tx" if "waiting (st\<lparr>node_offsets := offs, waiters := ws\<rparr>) x quorum tx"
    using that get [of x] by (auto simp: waiting_def released_at_def split: option.splits if_splits)
  show "waiting (st\<lparr>node_offsets := offs, waiters := ws\<rparr>) x quorum tx \<or> tx \<in> set ns"
    if w: "waiting st x quorum tx"
  proof -
    obtain es e where e: "map_of (waiters st) x = Some es" "e \<in> set es" "we_tx e = Some tx" "we_quorum e = quorum"
      using w by (auto simp: waiting_def)
    show ?thesis
    proof (cases "x \<in> set ?cs \<and> we_quorum e \<le> replicas_at offs x")
      case True
      then have "tx \<in> reached_txs offs (waiters st) x" using e unfolding reached_txs_def by blast
      then show ?thesis using r True by blast
    next
      case False
      then show ?thesis
        using e get [of x] by (auto simp: waiting_def released_at_def filter_empty_conv)
    qed
  qed
  show "\<exists>x quorum. waiting st x quorum tx \<and> quorum \<le> replicas_at offs x" if ns: "tx \<in> set ns"
  proof -
    obtain x where "tx \<in> reached_txs offs (waiters st) x" using r ns by auto
    then show ?thesis by (auto simp: reached_txs_def waiting_def)
  qed
qed

lemma ack_inv_step:
  assumes "ack_inv ops trk" and "0 \<le> off"
  shows "ack_inv (ops @ [Ack t p off node]) (record_ack t p off node trk)"
proof -
  define lo :: int where "lo = i64_min"
  let ?ops = "ops @ [Ack t p off node]" and ?st = "ack_state (t, p) trk"
  let ?slots = "or_insert node lo (node_offsets ?st)"
  note inv = ack_invD [OF assms(1)]
  note run = record_ack_def [of t p off node trk, folded lo_def, unfolded Let_def]
  have lo: "lo < 0" by (simp add: lo_def)
  have other: "nodes_ok ?ops k (ack_state k trk)" if "k \<noteq> (t, p)" for k
  proof -
    have "Ack t p off node \<noteq> Ack (fst k) (snd k) x n" for x n using that by (cases k) auto
    then show ?thesis using inv(1) nodes_ok_other by blast
  qed
  have old: "justified ?ops tx" if "(tx, True) \<in> set (it_replies trk)" for tx
    by (rule justified_mono [OF inv(5) [OF that]]) auto
  show ?thesis
  proof (cases "the (map_of ?slots node) < off")
    case False
    then have same: "?slots = node_offsets ?st" "nodes_ok ?ops (t, p) ?st"
      using nodes_ok_report(1) [OF inv(1) assms(2) lo] by blast+
    have st: "ack_state k (record_ack t p off node trk) = ack_state k trk"
      "it_replies (record_ack t p off node trk) = it_replies trk" for k
      using False by (simp_all add: run same(1))
    show ?thesis
    proof (rule ack_invI, goal_cases)
      case (1 k)
      then show ?case using other same(2) by (cases "k = (t, p)") (auto simp: st)
    next
      case (3 k x q tx)
      then have "waiting (ack_state k trk) x q tx" by (simp add: st)
      from inv(3) [OF this] show ?case by auto
    next
      case (4 t' p' x q tx n)
      then show ?case using inv(4) [of t' p' x q tx n] by (auto simp: st)
    qed (use inv(2,6) old in \<open>auto simp: st\<close>)
  next
    case True
    define offs where "offs = AList.update node off ?slots"
    obtain ws ns where f: "fold (release_at offs)
        (filter (\<lambda>w. w \<le> Max (set (map snd offs))) (map fst (waiters ?st))) (waiters ?st, []) = (ws, ns)" by fastforce
    let ?st' = "?st\<lparr>node_offsets := offs, waiters := ws\<rparr>"
    have ne: "offs \<noteq> []" using get_insert [of node off ?slots node] by (auto simp: offs_def)
    note rel = released [OF inv(2) ne f]
    have st: "ack_state k (record_ack t p off node trk) = (if k = (t, p) then ?st' else ack_state k trk)"
      "set (it_replies (record_ack t p off node trk)) = set (it_replies trk) \<union> (\<lambda>tx. (tx, True)) ` set ns" for k
      using True f by (simp_all add: run offs_def)
    have nodes: "nodes_ok ?ops (t, p) ?st'"
      unfolding offs_def by (rule nodes_ok_report(2) [OF inv(1) assms(2) lo True])
    have new: "justified ?ops tx" if tx: "tx \<in> set ns" for tx
    proof -
      obtain x q where w: "waiting ?st x q tx" "q \<le> replicas_at offs x" using rel(4) [OF tx] by blast
      then obtain n where "Register t p x q tx n \<in> set ?ops" using inv(3) [OF w(1)] by auto
      then show ?thesis by (rule justifiedI [OF _ nodes]) (simp add: w(2))
    qed
    show ?thesis
    proof (rule ack_invI, goal_cases)
      case (1 k)
      then show ?case using other nodes by (simp add: st)
    next
      case (2 k)
      then show ?case using inv(2) [of k] rel(1) by (simp add: st)
    next
      case (3 k x q tx)
      then have "waiting (ack_state k trk) x q tx" using rel(2) by (auto simp: st split: if_splits)
      from inv(3) [OF this] show ?case by auto
    next
      case (4 t' p' x q tx n)
      then have "tx \<in> fst ` set (it_replies trk) \<or> waiting (ack_state (t', p') trk) x q tx"
        using inv(4) by simp
      then have "tx \<in> fst ` set (it_replies trk) \<or> tx \<in> set ns \<or>
          waiting (ack_state (t', p') (record_ack t p off node trk)) x q tx"
        using rel(3) [of x q tx] by (cases "(t', p') = (t, p)") (simp_all add: st(1), blast, blast)
      then show ?case unfolding st(2) by (auto simp: image_Un image_image)
    next
      case (5 tx)
      then show ?case using old new by (auto simp: st)
    qed (use inv(6) in \<open>auto simp: st\<close>)
  qed
qed

lemma ack_run_inv: "ack_ops_ok ops \<Longrightarrow> ack_inv ops (ack_run ops)"
proof (induction ops rule: rev_induct)
  case (snoc op ops)
  then have "ack_inv ops (ack_run ops)" by (fastforce simp: ack_ops_ok_def)
  then show ?case
    using snoc.prems by (cases op) (auto simp: ack_run_def register_inv expire_inv ack_inv_step ack_ops_ok_def)
qed (simp add: ack_run_def ack_inv_new)

section \<open>Correctness\<close>

text \<open>C3: an \<open>acks=all\<close> request is never acknowledged early. Whatever the order of registrations, reports and
  expiries, when a request has been answered with success, at least its quorum of distinct
  replicas have reported a position at or past the end of its batch.
\<close>

theorem acks_all_sound:
  assumes "ack_ops_ok ops" and "(tx, True) \<in> set (it_replies (ack_run ops))"
  shows "\<exists>t p off quorum now. Register t p off quorum tx now \<in> set ops \<and> quorum \<le> card (reporters ops (t, p) off)"
  using ack_invD(5) [OF ack_run_inv [OF assms(1)] assms(2)] by (simp add: justified_def)

theorem acks_all_sound_witness:
  "\<exists>t p off quorum now. Register t p off quorum 7 now \<in>
      set [Register ''orders'' 0 437 2 7 0, Ack ''orders'' 0 437 1, Ack ''orders'' 0 512 2] \<and>
    quorum \<le> card (reporters [Register ''orders'' 0 437 2 7 0, Ack ''orders'' 0 437 1, Ack ''orders'' 0 512 2] (t, p) off)"
  by (rule acks_all_sound) (auto simp: ack_ops_ok_def ack_run_def register_wait_def record_ack_def release_at_def
      ack_state_def set_ack_state_def send_all_def new_ack_tracker_def empty_ack_partition_def replicas_at_def
      or_insert_def bt_insert_def remove_key_def map_filter_def Let_def)

text \<open>C23: an \<open>acks=all\<close> request never waits for what has already happened. Once the quorum of distinct replicas
  has reported a position at or past the end of its batch, before or after the request was
  registered and at whatever offsets, the request has been answered; and without expiry the answer is success.
\<close>

theorem acks_all_complete:
  assumes "ack_ops_ok ops" and "Register t p off quorum tx now \<in> set ops"
    and "quorum \<le> card (reporters ops (t, p) off)"
  shows "(tx, True) \<in> set (it_replies (ack_run ops)) \<or>
    (tx, False) \<in> set (it_replies (ack_run ops)) \<and> (\<exists>timeout time. Expire timeout time \<in> set ops)"
proof -
  note inv = ack_invD [OF ack_run_inv [OF assms(1)]]
  have "\<not> waiting (ack_state (t, p) (ack_run ops)) off quorum tx"
    using waits_okD(3) [OF inv(2)] assms(3) replicas_at_reporters [OF inv(1), of "(t, p)" off] by metis
  then obtain ok where "(tx, ok) \<in> set (it_replies (ack_run ops))" using inv(4) [OF assms(2)] by auto
  then show ?thesis using inv(6) [of tx] by (cases ok) auto
qed

theorem acks_all_complete_witness:
  "(7, True) \<in> set (it_replies (ack_run [Ack ''orders'' 0 900 1, Ack ''orders'' 0 500 2, Register ''orders'' 0 437 2 7 0]))"
proof -
  let ?ops = "[Ack ''orders'' 0 900 1, Ack ''orders'' 0 500 2, Register ''orders'' 0 437 2 7 0]"
  have "reporters ?ops (''orders'', 0) 437 = {1, 2}" by (auto simp: reporters_def)
  then show ?thesis
    using acks_all_complete [of ?ops "''orders''" 0 437 2 7 0] by (simp add: ack_ops_ok_def)
qed

end
