(* ===== verification/Response_Pipeline.thy ===== *)
theory Response_Pipeline
  imports Ordered_Map
begin

text \<open>
  The response pipeline (\<open>chronik-server/src/response_pipeline.rs\<close>): produce requests with
  \<open>acks=1\<close> register the offset range of their batch and are answered when the write-ahead log
  reports a committed range. A request is named by the number of its reply channel;
  \<open>alive\<close> says whether the receiving end of a channel is still there, so that a send can fail.
  \<open>rp_sent\<close> is what reached the callers, \<open>rp_closed\<close> the channels that were dropped without an
  answer. The field \<open>record_errors\<close> of a response is the empty list in every response and left out.
\<close>

section \<open>State\<close>

record pending_response =
  pr_tx :: nat
  pr_registered_at :: nat
  pr_last_offset :: int
  pr_topic :: topic
  pr_partition :: int

record pipeline_response =
  rs_index :: int
  rs_error_code :: int
  rs_base_offset :: int
  rs_log_append_time :: int
  rs_log_start_offset :: int
  rs_error_message :: "string option"

record pipeline_config =
  response_timeout :: nat
  cleanup_interval :: nat
  enable_metrics :: bool

record pipeline_metrics =
  pm_registered :: int
  pm_delivered :: int
  pm_timeouts :: int
  pm_dropped :: int
  pm_pending :: int

type_synonym response_bucket = "(int \<times> pending_response) list"

record response_pipeline =
  rp_pending :: "(partition_key \<times> response_bucket) list"
  rp_config :: pipeline_config
  rp_metrics :: pipeline_metrics
  rp_sent :: "(nat \<times> pipeline_response) list"
  rp_closed :: "nat list"

definition default_pipeline_config :: pipeline_config where
  "default_pipeline_config = \<lparr>response_timeout = 30, cleanup_interval = 2, enable_metrics = True\<rparr>"

definition with_config :: "pipeline_config \<Rightarrow> response_pipeline" where
  "with_config cfg = \<lparr>rp_pending = [], rp_config = cfg,
     rp_metrics = \<lparr>pm_registered = 0, pm_delivered = 0, pm_timeouts = 0, pm_dropped = 0, pm_pending = 0\<rparr>,
     rp_sent = [], rp_closed = []\<rparr>"

definition bump :: "bool \<Rightarrow> (pipeline_metrics \<Rightarrow> pipeline_metrics) \<Rightarrow> response_pipeline \<Rightarrow> response_pipeline" where
  "bump on f rp = (if on then rp\<lparr>rp_metrics := f (rp_metrics rp)\<rparr> else rp)"

section \<open>Registering\<close>

definition register ::
  "topic \<Rightarrow> int \<Rightarrow> int \<Rightarrow> int \<Rightarrow> nat \<Rightarrow> nat \<Rightarrow> response_pipeline \<Rightarrow> response_pipeline" where
  "register t p base last_off tx now rp =
     (let r = \<lparr>pr_tx = tx, pr_registered_at = now, pr_last_offset = last_off, pr_topic = t, pr_partition = p\<rparr>;
          bucket = (case map_of (rp_pending rp) (t, p) of None \<Rightarrow> [] | Some b \<Rightarrow> b)
      in bump (enable_metrics (rp_config rp))
           (\<lambda>m. m\<lparr>pm_registered := uwrap 64 (pm_registered m + 1), pm_pending := uwrap 64 (pm_pending m + 1)\<rparr>)
           (rp\<lparr>rp_pending := AList.update (t, p) (bt_insert base r bucket) (rp_pending rp),
               rp_closed := rp_closed rp @ (case map_of bucket base of None \<Rightarrow> [] | Some old \<Rightarrow> [pr_tx old])\<rparr>))"

section \<open>Answering\<close>

definition success_response :: "int \<Rightarrow> pending_response \<Rightarrow> pipeline_response" where
  "success_response off r = \<lparr>rs_index = pr_partition r, rs_error_code = 0, rs_base_offset = off,
     rs_log_append_time = -1, rs_log_start_offset = -1, rs_error_message = None\<rparr>"

definition failure_response :: "int \<Rightarrow> string \<Rightarrow> pending_response \<Rightarrow> pipeline_response" where
  "failure_response code msg r = \<lparr>rs_index = pr_partition r, rs_error_code = code, rs_base_offset = -1,
     rs_log_append_time = -1, rs_log_start_offset = -1, rs_error_message = Some msg\<rparr>"

text \<open>
  The bodies of the delivery loops: the entry at an offset leaves the bucket and its caller, if
  alive, gets the response.
\<close>

definition deliver_at ::
  "(nat \<Rightarrow> bool) \<Rightarrow> (int \<Rightarrow> pending_response \<Rightarrow> pipeline_response) \<Rightarrow> int \<Rightarrow>
     response_bucket \<times> (nat \<times> pipeline_response) list \<times> nat \<times> nat \<Rightarrow>
     response_bucket \<times> (nat \<times> pipeline_response) list \<times> nat \<times> nat" where
  "deliver_at alive mk off acc =
     (case acc of (bucket, sent, delivered, dropped) \<Rightarrow>
        (case map_of bucket off of
           None \<Rightarrow> (bucket, sent, delivered, dropped)
         | Some r \<Rightarrow>
             if alive (pr_tx r)
             then (remove_key off bucket, sent @ [(pr_tx r, mk off r)], delivered + 1, dropped)
             else (remove_key off bucket, sent, delivered, dropped + 1)))"

definition deliver ::
  "(nat \<Rightarrow> bool) \<Rightarrow> (int \<Rightarrow> pending_response \<Rightarrow> pipeline_response) \<Rightarrow> int list \<Rightarrow> response_bucket \<Rightarrow>
     response_bucket \<times> (nat \<times> pipeline_response) list \<times> nat \<times> nat" where
  "deliver alive mk offs bucket = fold (deliver_at alive mk) offs (bucket, [], 0, 0)"

definition store_bucket :: "partition_key \<Rightarrow> response_bucket \<Rightarrow> response_pipeline \<Rightarrow> response_pipeline" where
  "store_bucket k bucket rp = rp\<lparr>rp_pending :=
     (if bucket = [] then remove_key k (rp_pending rp) else AList.update k bucket (rp_pending rp))\<rparr>"

definition offsets_in_range :: "int \<Rightarrow> int \<Rightarrow> response_bucket \<Rightarrow> int list" where
  "offsets_in_range min_offset max_offset bucket =
     map fst (filter (\<lambda>(off, r). min_offset \<le> off \<and> off \<le> max_offset \<and> pr_last_offset r \<le> max_offset) bucket)"

text \<open>
  \<open>range(min..=max)\<close> of a non-empty tree panics when the bounds are out of order, which is
  \<open>None\<close>; the panic unwinds the spawned task and leaves the pipeline as it was.
\<close>

definition notify_batch_committed ::
  "(nat \<Rightarrow> bool) \<Rightarrow> topic \<Rightarrow> int \<Rightarrow> int \<Rightarrow> int \<Rightarrow> response_pipeline \<Rightarrow> response_pipeline option" where
  "notify_batch_committed alive t p min_offset max_offset rp =
     (case map_of (rp_pending rp) (t, p) of
        None \<Rightarrow> Some rp
      | Some bucket \<Rightarrow>
          if max_offset < min_offset \<and> bucket \<noteq> [] then None
          else
            let (bucket', sent, delivered, dropped) =
                  deliver alive success_response (offsets_in_range min_offset max_offset bucket) bucket;
                on = enable_metrics (rp_config rp);
                rp1 = bump on (\<lambda>m. m\<lparr>pm_pending := uwrap 64 (pm_pending m - int (delivered + dropped)),
                        pm_delivered := uwrap 64 (pm_delivered m + int delivered),
                        pm_dropped := uwrap 64 (pm_dropped m + int dropped)\<rparr>)
                      (rp\<lparr>rp_sent := rp_sent rp @ sent\<rparr>)
            in Some (store_bucket (t, p) bucket' rp1))"

definition notify_batch_failed ::
  "(nat \<Rightarrow> bool) \<Rightarrow> topic \<Rightarrow> int \<Rightarrow> int \<Rightarrow> int \<Rightarrow> string \<Rightarrow> response_pipeline \<Rightarrow> response_pipeline option" where
  "notify_batch_failed alive t p min_offset max_offset msg rp =
     (case map_of (rp_pending rp) (t, p) of
        None \<Rightarrow> Some rp
      | Some bucket \<Rightarrow>
          if max_offset < min_offset \<and> bucket \<noteq> [] then None
          else
            let (bucket', sent, delivered, dropped) =
                  deliver alive (\<lambda>_. failure_response 1 msg) (offsets_in_range min_offset max_offset bucket) bucket;
                rp1 = bump (enable_metrics (rp_config rp))
                      (\<lambda>m. m\<lparr>pm_pending := uwrap 64 (pm_pending m - int (delivered + dropped))\<rparr>)
                      (rp\<lparr>rp_sent := rp_sent rp @ sent\<rparr>)
            in Some (store_bucket (t, p) bucket' rp1))"

section \<open>Timeouts\<close>

definition stale_offsets :: "nat \<Rightarrow> nat \<Rightarrow> response_bucket \<Rightarrow> int list" where
  "stale_offsets timeout now bucket =
     map fst (filter (\<lambda>(_, r). timeout < now - pr_registered_at r) bucket)"

definition expire_bucket ::
  "(nat \<Rightarrow> bool) \<Rightarrow> nat \<Rightarrow> partition_key \<Rightarrow> response_pipeline \<times> nat \<times> nat \<Rightarrow> response_pipeline \<times> nat \<times> nat" where
  "expire_bucket alive now k acc =
     (case acc of (rp, timed_out, gone) \<Rightarrow>
        (case map_of (rp_pending rp) k of
           None \<Rightarrow> acc
         | Some bucket \<Rightarrow>
             let stale = stale_offsets (response_timeout (rp_config rp)) now bucket
             in if stale = [] then acc
                else
                  let (bucket', sent, delivered, dropped) =
                        deliver alive (\<lambda>_. failure_response 7 ''WAL fsync timeout'') stale bucket;
                      rp1 = bump True (\<lambda>m. m\<lparr>pm_pending := uwrap 64 (pm_pending m - int (delivered + dropped))\<rparr>)
                            (rp\<lparr>rp_sent := rp_sent rp @ sent\<rparr>)
                  in (store_bucket k bucket' rp1, timed_out + delivered, gone + dropped)))"

definition cleanup_tick :: "(nat \<Rightarrow> bool) \<Rightarrow> nat \<Rightarrow> response_pipeline \<Rightarrow> response_pipeline" where
  "cleanup_tick alive now rp =
     (case fold (expire_bucket alive now) (map fst (rp_pending rp)) (rp, 0, 0) of
        (rp1, timed_out, gone) \<Rightarrow>
          bump (0 < timed_out \<or> 0 < gone)
            (\<lambda>m. m\<lparr>pm_timeouts := uwrap 64 (pm_timeouts m + int timed_out),
                   pm_dropped := uwrap 64 (pm_dropped m + int gone)\<rparr>) rp1)"

definition pipeline_pending_count :: "response_pipeline \<Rightarrow> nat" where
  "pipeline_pending_count rp = sum_list (map (\<lambda>e. length (snd e)) (rp_pending rp))"

section \<open>What is pending\<close>

definition pending_at :: "response_pipeline \<Rightarrow> partition_key \<Rightarrow> int \<Rightarrow> pending_response option" where
  "pending_at rp k off = (case map_of (rp_pending rp) k of None \<Rightarrow> None | Some b \<Rightarrow> map_of b off)"

definition pipeline_wf :: "response_pipeline \<Rightarrow> bool" where
  "pipeline_wf rp \<longleftrightarrow> distinct (map fst (rp_pending rp)) \<and> (\<forall>k b. map_of (rp_pending rp) k = Some b \<longrightarrow> bt_wf b)"

lemma bump_simps [simp]:
  "rp_pending (bump on f rp) = rp_pending rp" "rp_sent (bump on f rp) = rp_sent rp"
  "rp_closed (bump on f rp) = rp_closed rp" "rp_config (bump on f rp) = rp_config rp"
  by (simp_all add: bump_def)

lemma store_bucket_simps [simp]:
  "rp_sent (store_bucket k b rp) = rp_sent rp" "rp_closed (store_bucket k b rp) = rp_closed rp"
  "rp_config (store_bucket k b rp) = rp_config rp"
  by (simp_all add: store_bucket_def)

lemma pending_bump [simp]: "pending_at (bump on f rp) k off = pending_at rp k off"
  by (simp add: pending_at_def)

lemma pending_store:
  "pending_at (store_bucket k b rp) j off = (if j = k then map_of b off else pending_at rp j off)"
  by (simp add: pending_at_def store_bucket_def hash_simps)

lemma distinct_remove: "distinct (map fst m) \<Longrightarrow> distinct (map fst (remove_key k m))"
  by (simp add: remove_key_def distinct_map_filter)

lemma wf_store: "\<lbrakk>pipeline_wf rp; bt_wf b\<rbrakk> \<Longrightarrow> pipeline_wf (store_bucket k b rp)"
  by (auto simp: pipeline_wf_def store_bucket_def distinct_remove distinct_insert hash_simps
      simp del: map_of_eq_Some_iff split: if_splits)

lemma wf_bump [simp]: "pipeline_wf (bump on f rp) = pipeline_wf rp"
  by (simp add: pipeline_wf_def)

lemma wf_sent [simp]: "pipeline_wf (rp\<lparr>rp_sent := s\<rparr>) = pipeline_wf rp"
  by (simp add: pipeline_wf_def)

lemma deliver_run:
  assumes "bt_wf bucket" and "distinct offs"
    and "fold (deliver_at alive mk) offs (bucket, sent, n, m) = (bucket', sent', n', m')"
  shows "bt_wf bucket' \<and> (\<forall>off. map_of bucket' off = (if off \<in> set offs then None else map_of bucket off)) \<and>
    set sent' = set sent \<union> {(pr_tx r, mk off r) | off r. off \<in> set offs \<and> map_of bucket off = Some r \<and> alive (pr_tx r)}"
  using assms
proof (induction offs arbitrary: bucket sent n m)
  case (Cons off offs)
  obtain b1 s1 n1 m1 where step: "deliver_at alive mk off (bucket, sent, n, m) = (b1, s1, n1, m1)"
    by (cases "deliver_at alive mk off (bucket, sent, n, m)") auto
  have wf: "bt_wf b1" and get: "map_of b1 = (map_of bucket)(off := None)"
    and s1: "set s1 = set sent \<union> {(pr_tx r, mk off r) | r. map_of bucket off = Some r \<and> alive (pr_tx r)}"
    using step Cons.prems(1)
    by (auto simp: deliver_at_def fun_eq_iff hash_simps split: option.splits if_splits)
  show ?case
    using Cons.IH [OF wf, of s1 n1 m1] Cons.prems(2,3) step
    by (auto simp: get s1)
qed auto

lemma offsets_in_range_mem:
  "bt_wf bucket \<Longrightarrow> off \<in> set (offsets_in_range lo hi bucket) \<longleftrightarrow>
     (\<exists>r. map_of bucket off = Some r \<and> lo \<le> off \<and> off \<le> hi \<and> pr_last_offset r \<le> hi)"
  using bt_wf_distinct [of bucket] by (force simp: offsets_in_range_def)

lemma distinct_offsets: "bt_wf bucket \<Longrightarrow> distinct (offsets_in_range lo hi bucket)"
  using bt_wf_distinct [of bucket] by (simp add: offsets_in_range_def distinct_map_filter)


lemma notify_committed_run:
  assumes "pipeline_wf rp" and "lo \<le> hi"
  shows "\<exists>rp'. notify_batch_committed alive t p lo hi rp = Some rp' \<and> pipeline_wf rp' \<and>
    (\<forall>k off. pending_at rp' k off =
       (case pending_at rp k off of None \<Rightarrow> None
        | Some r \<Rightarrow> if k = (t, p) \<and> lo \<le> off \<and> off \<le> hi \<and> pr_last_offset r \<le> hi then None else Some r)) \<and>
    set (rp_sent rp') = set (rp_sent rp) \<union> {(pr_tx r, success_response off r) | off r.
       pending_at rp (t, p) off = Some r \<and> lo \<le> off \<and> off \<le> hi \<and> pr_last_offset r \<le> hi \<and> alive (pr_tx r)}"
proof (cases "map_of (rp_pending rp) (t, p)")
  case None
  then have "pending_at rp (t, p) off = None" for off by (simp add: pending_at_def)
  with assms None show ?thesis
    by (auto simp: notify_batch_committed_def split: option.splits)
next
  case (Some bucket)
  then have wf: "bt_wf bucket" using assms(1) unfolding pipeline_wf_def by blast
  let ?offs = "offsets_in_range lo hi bucket"
  obtain b' s' n' m' where d: "deliver alive success_response ?offs bucket = (b', s', n', m')"
    by (cases "deliver alive success_response ?offs bucket") auto
  note run = deliver_run [OF wf distinct_offsets [OF wf] d [unfolded deliver_def]]
  have pend: "pending_at rp (t, p) off = map_of bucket off" for off using Some by (simp add: pending_at_def)
  have get: "map_of b' off = (case map_of bucket off of None \<Rightarrow> None
      | Some r \<Rightarrow> if lo \<le> off \<and> off \<le> hi \<and> pr_last_offset r \<le> hi then None else Some r)" for off
    using run offsets_in_range_mem [OF wf, of off lo hi] by (auto split: option.splits)
  have sent: "set s' = {(pr_tx r, success_response off r) | off r.
       map_of bucket off = Some r \<and> lo \<le> off \<and> off \<le> hi \<and> pr_last_offset r \<le> hi \<and> alive (pr_tx r)}"
  proof -
    have "off \<in> set ?offs \<and> map_of bucket off = Some r \<and> alive (pr_tx r) \<longleftrightarrow>
      map_of bucket off = Some r \<and> lo \<le> off \<and> off \<le> hi \<and> pr_last_offset r \<le> hi \<and> alive (pr_tx r)" for off r
      using offsets_in_range_mem [OF wf, of off lo hi] by auto
    with run show ?thesis by simp
  qed
  obtain f where n: "notify_batch_committed alive t p lo hi rp =
      Some (store_bucket (t, p) b' (bump (enable_metrics (rp_config rp)) f (rp\<lparr>rp_sent := rp_sent rp @ s'\<rparr>)))"
    (is "_ = Some ?rp'")
    using Some d assms(2) by (simp add: notify_batch_committed_def)
  have "pipeline_wf ?rp'" using run assms(1) by (simp add: wf_store)
  moreover have "pending_at ?rp' k off = (case pending_at rp k off of None \<Rightarrow> None
      | Some r \<Rightarrow> if k = (t, p) \<and> lo \<le> off \<and> off \<le> hi \<and> pr_last_offset r \<le> hi then None else Some r)" for k off
  proof (cases "k = (t, p)")
    case True
    then show ?thesis by (simp add: pending_store get pend split: option.split)
  next
    case False
    then show ?thesis by (simp add: pending_store) (simp add: pending_at_def split: option.split)
  qed
  moreover have "set (rp_sent ?rp') = set (rp_sent rp) \<union> set s'" by simp
  ultimately show ?thesis
    unfolding n sent pend by blast
qed

section \<open>Correctness\<close>

text \<open>C29: a commit notification answers exactly the requests it covers. Every pending request of
  the partition whose offset range lies in the committed range leaves the pipeline and, if its
  caller is still there, is answered with success and its base offset; every other request, of
  this and of every other partition, stays pending, and nothing else is sent.
\<close>

theorem commit_answers_covered:
  assumes "pipeline_wf rp" and "lo \<le> hi"
  shows "\<exists>rp'. notify_batch_committed alive t p lo hi rp = Some rp' \<and>
    (\<forall>k off. pending_at rp' k off =
       (case pending_at rp k off of None \<Rightarrow> None
        | Some r \<Rightarrow> if k = (t, p) \<and> lo \<le> off \<and> off \<le> hi \<and> pr_last_offset r \<le> hi then None else Some r)) \<and>
    set (rp_sent rp') = set (rp_sent rp) \<union> {(pr_tx r, success_response off r) | off r.
       pending_at rp (t, p) off = Some r \<and> lo \<le> off \<and> off \<le> hi \<and> pr_last_offset r \<le> hi \<and> alive (pr_tx r)}"
  using notify_committed_run [OF assms] by blast

definition sample_pipeline :: response_pipeline where
  "sample_pipeline =
     register ''orders'' 0 20 29 3 0 (register ''orders'' 0 10 19 2 0 (register ''orders'' 0 0 9 1 0
       (with_config default_pipeline_config)))"

lemma register_wf: "pipeline_wf rp \<Longrightarrow> pipeline_wf (register t p base last_off tx now rp)"
  by (auto simp: pipeline_wf_def register_def Let_def distinct_insert hash_simps
      simp del: map_of_eq_Some_iff split: if_splits option.splits)

lemma with_config_wf: "pipeline_wf (with_config cfg)"
  by (simp add: pipeline_wf_def with_config_def)

theorem commit_answers_covered_witness:
  "\<exists>rp'. notify_batch_committed (\<lambda>_. True) ''orders'' 0 0 19 sample_pipeline = Some rp' \<and>
    pending_at rp' (''orders'', 0) 10 = None \<and> pending_at rp' (''orders'', 0) 20 \<noteq> None"
proof -
  have "pipeline_wf sample_pipeline" by (simp add: sample_pipeline_def register_wf with_config_wf)
  moreover have "pending_at sample_pipeline (''orders'', 0) 10 =
      Some \<lparr>pr_tx = 2, pr_registered_at = 0, pr_last_offset = 19, pr_topic = ''orders'', pr_partition = 0\<rparr>"
    "pending_at sample_pipeline (''orders'', 0) 20 =
      Some \<lparr>pr_tx = 3, pr_registered_at = 0, pr_last_offset = 29, pr_topic = ''orders'', pr_partition = 0\<rparr>"
    by (simp_all add: sample_pipeline_def pending_at_def register_def with_config_def bt_insert_def Let_def)
  ultimately show ?thesis
    using commit_answers_covered [of sample_pipeline 0 19 "\<lambda>_. True" "''orders''" 0] by auto
qed

text \<open>
  A batch without records has a last offset below its base offset; a commit of such batches
  only is a notification with an empty range, and panics when a request is waiting.
\<close>

lemma empty_range_panics:
  "\<lbrakk>pending_at rp (t, p) off = Some r; hi < lo\<rbrakk> \<Longrightarrow> notify_batch_committed alive t p lo hi rp = None"
  by (auto simp: pending_at_def notify_batch_committed_def split: option.splits)

end
