(* ===== verification/Epoch_Stamp.thy ===== *)
theory Epoch_Stamp
  imports Leader_Epoch Record_Batch
begin

text \<open>
  Stamping the leader epoch on the record batches of a produced blob
  (\<open>chronik-server/src/replication/leader_epoch.rs\<close>): a loop over the batches of a byte string
  that rewrites the epoch field of each in place. A step of the loop reads only the bytes from
  its position on, so the loop is a recursion on that suffix; it ends because a step moves on by
  at least the smallest batch.
\<close>

section \<open>The loop\<close>

definition BATCH_LENGTH_OFFSET :: nat where "BATCH_LENGTH_OFFSET = 8"
definition LEADER_EPOCH_OFFSET :: nat where "LEADER_EPOCH_OFFSET = 12"
definition MAGIC_OFFSET :: nat where "MAGIC_OFFSET = 16"
definition ATTRIBUTES_OFFSET :: nat where "ATTRIBUTES_OFFSET = 21"
definition MIN_BATCH_HEADER :: nat where "MIN_BATCH_HEADER = 23"

lemmas offset_defs = BATCH_LENGTH_OFFSET_def LEADER_EPOCH_OFFSET_def MAGIC_OFFSET_def ATTRIBUTES_OFFSET_def
  MIN_BATCH_HEADER_def

definition be_i32_at :: "nat \<Rightarrow> byte list \<Rightarrow> int" where
  "be_i32_at pos wire = be_sint (take 4 (drop pos wire))"

text \<open>The length of the version 2 batch at the front of the bytes, when the loop goes on.\<close>

definition v2_batch_end :: "byte list \<Rightarrow> nat option" where
  "v2_batch_end wire =
     (if length wire < MIN_BATCH_HEADER then None
      else let batch_length = be_i32_at BATCH_LENGTH_OFFSET wire in
        if batch_length < 9 then None
        else let e = 12 + nat batch_length in
          if length wire < e then None
          else if wire ! MAGIC_OFFSET \<noteq> 2 then None
          else Some e)"

definition set_epoch :: "int \<Rightarrow> byte list \<Rightarrow> byte list" where
  "set_epoch ep b = take LEADER_EPOCH_OFFSET b @ be_bytes 4 ep @ drop (LEADER_EPOCH_OFFSET + 4) b"

lemma v2_batch_end_bounds: "v2_batch_end wire = Some n \<Longrightarrow> 21 \<le> n \<and> n \<le> length wire \<and> 23 \<le> length wire"
  by (auto simp: v2_batch_end_def Let_def offset_defs split: if_splits)

function stamp_batches :: "int \<Rightarrow> byte list \<Rightarrow> nat \<times> byte list" where
  "stamp_batches ep wire =
     (case v2_batch_end wire of
        None \<Rightarrow> (0, wire)
      | Some n \<Rightarrow>
          let (stamped, rest) = stamp_batches ep (drop n wire)
          in (stamped + 1, set_epoch ep (take n wire) @ rest))"
  by pat_completeness auto

termination
  by (relation "measure (\<lambda>(ep, wire). length wire)") (auto dest: v2_batch_end_bounds)

declare stamp_batches.simps [simp del]

definition stamp_leader_epoch :: "int \<Rightarrow> byte list \<Rightarrow> nat \<times> byte list" where
  "stamp_leader_epoch ep wire = (if ep < 0 then (0, wire) else stamp_batches ep wire)"

definition read_leader_epoch :: "byte list \<Rightarrow> int option" where
  "read_leader_epoch wire =
     (if length wire < MIN_BATCH_HEADER \<or> wire ! MAGIC_OFFSET \<noteq> 2 then None
      else Some (be_i32_at LEADER_EPOCH_OFFSET wire))"

section \<open>The batches of a blob\<close>

text \<open>
  Specification side: the version 2 batches at the front of a blob, and what follows them.
\<close>

function batches_of :: "byte list \<Rightarrow> byte list list \<times> byte list" where
  "batches_of wire =
     (case v2_batch_end wire of
        None \<Rightarrow> ([], wire)
      | Some n \<Rightarrow> let (bs, rest) = batches_of (drop n wire) in (take n wire # bs, rest))"
  by pat_completeness auto

termination
  by (relation "measure length") (auto dest: v2_batch_end_bounds)

declare batches_of.simps [simp del]

lemma length_set_epoch [simp]: "16 \<le> length b \<Longrightarrow> length (set_epoch ep b) = length b"
  by (simp add: set_epoch_def offset_defs)

lemma set_epoch_append: "16 \<le> length b \<Longrightarrow> set_epoch ep b @ rest = set_epoch ep (b @ rest)"
  by (simp add: set_epoch_def offset_defs)

lemma v2_batch_end_set_epoch: "v2_batch_end (set_epoch ep wire) = v2_batch_end wire"
proof (cases "23 \<le> length wire")
  case True
  then have "take 4 (drop 8 (set_epoch ep wire)) = take 4 (drop 8 wire)"
    by (simp add: set_epoch_def offset_defs drop_take)
  moreover have "set_epoch ep wire ! 16 = wire ! 16"
    using True by (simp add: set_epoch_def offset_defs nth_append)
  ultimately show ?thesis
    using True by (simp add: v2_batch_end_def be_i32_at_def offset_defs Let_def)
next
  case False
  then show ?thesis by (auto simp: v2_batch_end_def set_epoch_def offset_defs)
qed


lemma batches_of_concat:
  "batches_of wire = (bs, rest) \<Longrightarrow>
     wire = concat bs @ rest \<and> v2_batch_end rest = None \<and> (\<forall>b \<in> set bs. 21 \<le> length b)"
proof (induction wire arbitrary: bs rule: batches_of.induct)
  case (1 wire)
  show ?case
  proof (cases "v2_batch_end wire")
    case None
    with 1(2) show ?thesis by (subst (asm) batches_of.simps) auto
  next
    case (Some n)
    obtain bs' rest' where d: "batches_of (drop n wire) = (bs', rest')" by fastforce
    with 1(2) Some have "bs = take n wire # bs'" "rest = rest'"
      by (subst (asm) batches_of.simps, simp)+
    with 1(1) [OF Some, of bs'] d v2_batch_end_bounds [OF Some] show ?thesis
      by (metis append_take_drop_id append.assoc concat.simps(2) length_take list.set_cases min_absorb2 set_ConsD)
  qed
qed

lemma v2_batch_end_append:
  assumes "v2_batch_end wire = Some n" and "length rest = length wire - n"
  shows "v2_batch_end (take n wire @ rest) = Some n"
proof -
  have n: "21 \<le> n" "n \<le> length wire" "23 \<le> length wire" using v2_batch_end_bounds [OF assms(1)] by auto
  then have "take 4 (drop 8 (take n wire @ rest)) = take 4 (drop 8 wire)"
    by (auto simp: drop_take min_def)
  moreover have "(take n wire @ rest) ! 16 = wire ! 16" using n by (simp add: nth_append)
  ultimately show ?thesis
    using assms n by (auto simp: v2_batch_end_def be_i32_at_def offset_defs Let_def split: if_splits)
qed

lemma length_stamped: "\<forall>b \<in> set bs. 21 \<le> length b \<Longrightarrow> length (concat (map (set_epoch ep) bs)) = length (concat bs)"
  by (induction bs) auto

lemma batches_of_Cons:
  assumes "v2_batch_end (b @ w) = Some (length b)" and "batches_of w = (bs, rest)"
  shows "batches_of (b @ w) = (b # bs, rest)"
  using assms by (subst batches_of.simps) simp

lemma stamp_batches_run:
  assumes "batches_of wire = (bs, rest)"
  shows "stamp_batches ep wire = (length bs, concat (map (set_epoch ep) bs) @ rest) \<and>
    batches_of (concat (map (set_epoch ep) bs) @ rest) = (map (set_epoch ep) bs, rest)"
  using assms
proof (induction wire arbitrary: bs rule: batches_of.induct)
  case (1 wire)
  show ?case
  proof (cases "v2_batch_end wire")
    case None
    then have "bs = []" "rest = wire" using 1(2) by (subst (asm) batches_of.simps, simp)+
    with None show ?thesis by (simp add: stamp_batches.simps [of ep wire] batches_of.simps [of wire])
  next
    case (Some n)
    obtain bs' rest' where d: "batches_of (drop n wire) = (bs', rest')" by fastforce
    with 1(2) Some have bs: "bs = take n wire # bs'" "rest = rest'"
      by (subst (asm) batches_of.simps, simp)+
    have ih: "stamp_batches ep (drop n wire) = (length bs', concat (map (set_epoch ep) bs') @ rest)"
      "batches_of (concat (map (set_epoch ep) bs') @ rest) = (map (set_epoch ep) bs', rest)"
      using 1(1) [OF Some, of bs'] d bs by auto
    let ?w = "concat (map (set_epoch ep) bs') @ rest"
    have n: "21 \<le> n" "n \<le> length wire" using v2_batch_end_bounds [OF Some] by auto
    have len: "length ?w = length (drop n wire)"
    proof -
      have "\<forall>b \<in> set bs'. 21 \<le> length b" "drop n wire = concat bs' @ rest"
        using batches_of_concat [OF d] bs by auto
      then show ?thesis by (simp add: length_stamped)
    qed
    have "v2_batch_end (set_epoch ep (take n wire) @ ?w) = Some n"
      using v2_batch_end_append [OF Some, of ?w] len n
      by (simp add: set_epoch_append v2_batch_end_set_epoch)
    then show ?thesis
      using ih n bs Some batches_of_Cons [of "set_epoch ep (take n wire)" ?w "map (set_epoch ep) bs'" rest]
      by (simp add: stamp_batches.simps [of ep wire])
  qed
qed

section \<open>Correctness\<close>

lemma set_epoch_fields:
  assumes "21 \<le> length b" and "in_signed 32 ep"
  shows "take LEADER_EPOCH_OFFSET (set_epoch ep b) = take LEADER_EPOCH_OFFSET b"
    and "drop MAGIC_OFFSET (set_epoch ep b) = drop MAGIC_OFFSET b"
    and "be_i32_at LEADER_EPOCH_OFFSET (set_epoch ep b) = ep"
  using assms by (simp_all add: set_epoch_def be_i32_at_def offset_defs be_sint_be_bytes_id)


definition sample_blob :: "byte list" where
  "sample_blob = build_end_txn_marker plain_codecs 0 7 3 Commit 1000 @ [1, 2, 3]"


section \<open>Assigning offset and epoch to a batch\<close>

text \<open>
  What the produce path does to a batch it accepts: the base offset, the first eight bytes, is
  overwritten (\<open>produce_handler.rs\<close>), then the epoch is stamped.
\<close>

definition assign_base_offset :: "int \<Rightarrow> byte list \<Rightarrow> byte list" where
  "assign_base_offset base wire = be_bytes 8 base @ drop 8 wire"

lemma v2_batch_end_encoded:
  assumes "bh_magic h = MAGIC_V2" and "9 + int (length (checked_bytes h z)) < 2 ^ 31"
  shows "v2_batch_end (batch_bytes h crc z) = Some (length (batch_bytes h crc z))"
proof -
  let ?n = "9 + int (length (checked_bytes h z))"
  have "take 4 (drop 8 (batch_bytes h crc z)) = be_bytes 4 ?n"
    by (simp add: batch_bytes_def)
  then have "be_i32_at BATCH_LENGTH_OFFSET (batch_bytes h crc z) = ?n"
    using assms(2) by (simp add: be_i32_at_def offset_defs be_sint_be_bytes_id in_signed_def)
  moreover have "batch_bytes h crc z ! 16 = 2"
    using magic_byte [of h crc z "[]"] assms(1) by (simp add: MAGIC_V2_def)
  moreover have "length (batch_bytes h crc z) = 61 + length z"
    by (simp add: batch_bytes_def length_checked_bytes)
  ultimately show ?thesis
    by (simp add: v2_batch_end_def offset_defs Let_def length_checked_bytes nat_add_distrib)
qed

lemma checked_bytes_assigned [simp]:
  "checked_bytes (h\<lparr>bh_base_offset := base\<rparr>) z = checked_bytes h z"
  "checked_bytes (h\<lparr>bh_partition_leader_epoch := ep\<rparr>) z = checked_bytes h z"
  by (simp_all add: checked_bytes_def)

lemma assign_base_offset_bytes: "assign_base_offset base (batch_bytes h crc z) = batch_bytes (h\<lparr>bh_base_offset := base\<rparr>) crc z"
  by (simp add: assign_base_offset_def batch_bytes_def)

lemma set_epoch_bytes: "set_epoch ep (batch_bytes h crc z) = batch_bytes (h\<lparr>bh_partition_leader_epoch := ep\<rparr>) crc z"
  by (simp add: set_epoch_def batch_bytes_def offset_defs)

definition assigned_batch :: "int \<Rightarrow> int \<Rightarrow> kafka_batch \<Rightarrow> kafka_batch" where
  "assigned_batch base ep b =
     b\<lparr>kb_header := (kb_header b)\<lparr>bh_base_offset := base, bh_partition_leader_epoch := ep\<rparr>\<rparr>"

text \<open>C32: the batch a leader stores is the batch the producer sent, at its offset. For the encoded
  bytes of a batch, overwriting the base offset and stamping the epoch give the bytes that encode the
  same batch with that base offset and epoch, with the checksum the producer computed.
\<close>

theorem assigned_bytes_encode:
  assumes "bh_magic (kb_header b) = MAGIC_V2" and "encode_batch cs b = Inr bs" and "int (length bs) < 2 ^ 31" and "0 \<le> ep"
  shows "\<exists>bs'. stamp_leader_epoch ep (assign_base_offset base bs) = (1, bs') \<and>
    encode_batch cs (assigned_batch base ep b) = Inr bs'"
proof -
  let ?h = "kb_header b"
  obtain z where z: "encode_records cs b = Inr z" "bs = batch_bytes ?h (crc32c cs (checked_bytes ?h z)) z"
    using assms(2) by (auto simp: encode_batch_def split: sum.splits)
  let ?h' = "?h\<lparr>bh_base_offset := base\<rparr>" and ?crc = "crc32c cs (checked_bytes ?h z)"
  have base: "assign_base_offset base bs = batch_bytes ?h' ?crc z" by (simp add: z(2) assign_base_offset_bytes)
  have len: "length (batch_bytes h c x) = 61 + length x" for h c x
    by (simp add: batch_bytes_def length_checked_bytes)
  have "v2_batch_end (batch_bytes ?h' ?crc z) = Some (length (batch_bytes ?h' ?crc z))"
    using assms(1,3) z(2) by (intro v2_batch_end_encoded) (simp_all add: len length_checked_bytes)
  then have "stamp_batches ep (batch_bytes ?h' ?crc z) = (1, set_epoch ep (batch_bytes ?h' ?crc z))"
    by (simp add: stamp_batches.simps [of ep "batch_bytes ?h' ?crc z"] stamp_batches.simps [of ep "[]"]
        v2_batch_end_def offset_defs)
  then have "stamp_leader_epoch ep (assign_base_offset base bs) =
      (1, batch_bytes (?h'\<lparr>bh_partition_leader_epoch := ep\<rparr>) ?crc z)"
    using assms(4) by (simp add: stamp_leader_epoch_def base set_epoch_bytes)
  moreover have "encode_records cs (assigned_batch base ep b) = Inr z"
    using z(1) by (simp add: encode_records_def assigned_batch_def)
  ultimately show ?thesis
    by (simp add: encode_batch_def assigned_batch_def)
qed

theorem assigned_bytes_encode_witness:
  "\<exists>bs'. stamp_leader_epoch 5 (assign_base_offset 42 (build_end_txn_marker plain_codecs 0 7 3 Commit 1000)) = (1, bs') \<and>
    encode_batch plain_codecs (assigned_batch 42 5 (marker_batch 0 7 3 Commit 1000)) = Inr bs'"
proof -
  let ?b = "marker_batch 0 7 3 Commit 1000"
  have m: "bh_magic (kb_header ?b) = MAGIC_V2"
    using marker_batch_ok [of 0 7 3 1000 Commit] by (simp add: batch_ok_def header_fields_ok_def in_signed_def)
  have z: "encode_records plain_codecs ?b = Inr (concat (map encode_record (kb_records ?b)))"
    by (simp add: encode_records_def compress_def marker_attributes(2))
  then obtain bs where bs: "encode_batch plain_codecs ?b = Inr bs" by (simp add: encode_batch_def)
  have "kb_records ?b = [\<lparr>kr_length = 0, kr_attributes = 0, kr_timestamp_delta = 0, kr_offset_delta = 0,
       kr_key = Some (marker_key Commit), kr_value = Some (be_bytes 2 0 @ be_bytes 4 0), kr_headers = []\<rparr>]"
    by (simp add: marker_batch_def add_record_def new_batch_def Let_def swrap_def)
  then have "length (concat (map encode_record (kb_records ?b))) = 17"
    by (simp add: encode_record_def record_body_def bytes_of_option_def varint_small marker_key_def)
  then have "int (length bs) < 2 ^ 31"
    using bs z by (auto simp: encode_batch_def batch_bytes_def length_checked_bytes)
  from assigned_bytes_encode [OF m bs this, of 5 42] show ?thesis
    using bs by (simp add: build_end_txn_marker_def)
qed

end
