(* ===== verification/Partition_State.thy ===== *)
theory Partition_State
  imports Metadata_Store Group_Commit Response_Pipeline
begin

text \<open>
  The offsets a broker keeps for each partition it serves
  (\<open>PartitionState\<close> in \<open>chronik-server/src/produce_handler.rs\<close>): the next offset to assign, the
  high watermark and the log start offset, with every operation that reads or moves them, and the
  commit callback that ties them to the write-ahead log and the response pipeline
  (\<open>chronik-server/src/integrated_server/builder.rs\<close>). The offsets are 64-bit unsigned atomics,
  signed in the interface. Creating a segment writer is I/O and left out.
\<close>

section \<open>Operations\<close>

record buffered_batch =
  bb_raw_bytes :: "byte list"
  bb_base_offset :: int

record partition_state =
  next_offset :: int
  high_watermark :: int
  log_start_offset :: int
  pending_batches :: "buffered_batch list"

type_synonym partition_states = "partition_key \<rightharpoonup> partition_state"

definition raise_watermark :: "int \<Rightarrow> partition_state \<Rightarrow> partition_state" where
  "raise_watermark w ps = ps\<lparr>high_watermark := max (high_watermark ps) w, next_offset := max (next_offset ps) w\<rparr>"

definition create_partition_state_with_offset :: "int \<Rightarrow> partition_state" where
  "create_partition_state_with_offset off =
     \<lparr>next_offset = uwrap 64 off, high_watermark = uwrap 64 off, log_start_offset = 0, pending_batches = []\<rparr>"

definition ensure_partition_exists :: "topic \<Rightarrow> int \<Rightarrow> int \<Rightarrow> partition_states \<Rightarrow> partition_states" where
  "ensure_partition_exists t p off m =
     (case m (t, p) of
        Some ps \<Rightarrow> if swrap 64 (next_offset ps) < off then m((t, p) \<mapsto> ps\<lparr>next_offset := uwrap 64 off\<rparr>) else m
      | None \<Rightarrow> m((t, p) \<mapsto> create_partition_state_with_offset off))"

definition apply_recovered_batch :: "topic \<Rightarrow> int \<Rightarrow> byte list \<Rightarrow> partition_states \<Rightarrow> partition_states" where
  "apply_recovered_batch t p data m =
     update_existing (\<lambda>ps. ps\<lparr>pending_batches := pending_batches ps @ [\<lparr>bb_raw_bytes = data, bb_base_offset = 0\<rparr>]\<rparr>) (t, p) m"

definition get_high_watermark :: "topic \<Rightarrow> int \<Rightarrow> partition_states \<Rightarrow> int" where
  "get_high_watermark t p m = (case m (t, p) of Some ps \<Rightarrow> swrap 64 (high_watermark ps) | None \<Rightarrow> 0)"

definition get_log_end_offset :: "topic \<Rightarrow> int \<Rightarrow> partition_states \<Rightarrow> int" where
  "get_log_end_offset t p m = (case m (t, p) of Some ps \<Rightarrow> swrap 64 (next_offset ps) | None \<Rightarrow> 0)"

definition get_log_start_offset :: "topic \<Rightarrow> int \<Rightarrow> 'b store \<Rightarrow> partition_states \<Rightarrow> int" where
  "get_log_start_offset t p st m =
     (case m (t, p) of
        Some ps \<Rightarrow> swrap 64 (log_start_offset ps)
      | None \<Rightarrow> (case get_partition_offset t (uwrap 32 p) st of Some (_, lso) \<Rightarrow> max lso 0 | None \<Rightarrow> 0))"

definition update_high_watermark :: "topic \<Rightarrow> int \<Rightarrow> int \<Rightarrow> partition_states \<Rightarrow> partition_states" where
  "update_high_watermark t p w m =
     (case m (t, p) of
        Some ps \<Rightarrow> m((t, p) \<mapsto> raise_watermark (max w 0) ps)
      | None \<Rightarrow> m((t, p) \<mapsto> create_partition_state_with_offset w))"

definition reset_offsets_after_truncation :: "topic \<Rightarrow> int \<Rightarrow> int \<Rightarrow> partition_states \<Rightarrow> partition_states" where
  "reset_offsets_after_truncation t p new_log_end m =
     (case m (t, p) of
        None \<Rightarrow> update_high_watermark t p new_log_end m
      | Some ps \<Rightarrow> m((t, p) \<mapsto> ps\<lparr>high_watermark := max new_log_end 0, next_offset := max new_log_end 0\<rparr>))"

definition restore_partition_state :: "topic \<Rightarrow> int \<Rightarrow> int \<Rightarrow> partition_states \<Rightarrow> partition_states" where
  "restore_partition_state t p hw m =
     (case m (t, p) of
        Some _ \<Rightarrow> m
      | None \<Rightarrow> m((t, p) \<mapsto> create_partition_state_with_offset (swrap 64 hw)))"

definition update_high_watermark_from_wal :: "topic \<Rightarrow> int \<Rightarrow> int \<Rightarrow> partition_states \<Rightarrow> partition_states" where
  "update_high_watermark_from_wal t p w m = update_existing (raise_watermark (max w 0)) (t, p) m"

section \<open>Loading a partition\<close>

datatype produce_error =
    MemoryLimitExceeded
  | TopicMissing
  | PartitionMissing
  | BatchTooShort
  | BatchDecodeFailed
  | InvalidProducerEpoch
  | InvalidTransactionState
  | DuplicateSequenceNumber
  | OutOfOrderSequenceNumber
  | WalWriteFailed
  | InvalidBatchForWal
  | ResponseChannelClosed
  | IsrQuorumFailed
  | InvalidAcks

definition max_or :: "int \<Rightarrow> int list \<Rightarrow> int" where
  "max_or d xs = (if xs = [] then d else Max (set xs))"

definition min_or :: "int \<Rightarrow> int list \<Rightarrow> int" where
  "min_or d xs = (if xs = [] then d else Min (set xs))"

definition initial_offsets :: "'b store_env \<Rightarrow> topic \<Rightarrow> int \<Rightarrow> 'b store \<Rightarrow> (int \<times> int) \<times> 'b store" where
  "initial_offsets env t p st =
     (case get_partition_offset t (uwrap 32 p) st of
        Some offs \<Rightarrow> (offs, st)
      | None \<Rightarrow>
          let segments = list_segments t (Some (uwrap 32 p)) st;
              hw = max_or 0 (map (\<lambda>s. swrap 64 (sg_end_offset s + 1)) segments);
              lso = min_or 0 (map sg_start_offset segments)
          in ((hw, lso), snd (update_partition_offset env t (uwrap 32 p) hw lso st)))"

definition get_or_create_partition_state ::
  "'b store_env \<Rightarrow> topic \<Rightarrow> int \<Rightarrow> 'b store \<times> partition_states \<Rightarrow>
     (produce_error + partition_state) \<times> 'b store \<times> partition_states" where
  "get_or_create_partition_state env t p sm =
     (case sm of (st, m) \<Rightarrow>
        (case m (t, p) of
           Some ps \<Rightarrow> (Inr ps, st, m)
         | None \<Rightarrow>
             (case get_topic t st of
                None \<Rightarrow> (Inl TopicMissing, st, m)
              | Some meta \<Rightarrow>
                  if partition_count (tm_config meta) \<le> uwrap 32 p then (Inl PartitionMissing, st, m)
                  else
                    let ((hw, lso), st') = initial_offsets env t p st;
                        ps = \<lparr>next_offset = uwrap 64 hw, high_watermark = uwrap 64 hw,
                              log_start_offset = uwrap 64 lso, pending_batches = []\<rparr>
                    in (Inr ps, st', m((t, p) \<mapsto> ps)))))"

section \<open>Deleting records\<close>

definition UNKNOWN_TOPIC_OR_PARTITION :: int where "UNKNOWN_TOPIC_OR_PARTITION = 3"
definition OFFSET_OUT_OF_RANGE :: int where "OFFSET_OUT_OF_RANGE = 1"

text \<open>The physical reclamation of log segments that follows is best effort and left out.\<close>

definition delete_records ::
  "'b store_env \<Rightarrow> topic \<Rightarrow> int \<Rightarrow> int \<Rightarrow> 'b store \<times> partition_states \<Rightarrow> (int + int) \<times> 'b store \<times> partition_states" where
  "delete_records env t p requested sm =
     (case get_or_create_partition_state env t p sm of
        (Inl _, st, m) \<Rightarrow> (Inl UNKNOWN_TOPIC_OR_PARTITION, st, m)
      | (Inr ps, st, m) \<Rightarrow>
          let hw = swrap 64 (high_watermark ps);
              current_lso = swrap 64 (log_start_offset ps);
              target = (if requested = -1 then hw else requested)
          in if target < 0 \<or> hw < target then (Inl OFFSET_OUT_OF_RANGE, st, m)
             else
               let new_lso = max target current_lso;
                   m1 = m((t, p) \<mapsto> ps\<lparr>log_start_offset := uwrap 64 new_lso\<rparr>)
               in (Inr new_lso, snd (update_log_start_offset env t (uwrap 32 p) new_lso st), m1))"

section \<open>The commit callback\<close>

text \<open>
  What the broker does when the write-ahead log reports a committed batch of writes: raise the watermark of
  the partition to the end of the batch and notify the response pipeline. A panic of the
  notification is confined to its task.
\<close>

definition commit_callback ::
  "(nat \<Rightarrow> bool) \<Rightarrow> topic \<Rightarrow> int \<Rightarrow> int \<Rightarrow> int \<Rightarrow> partition_states \<times> response_pipeline \<Rightarrow>
     partition_states \<times> response_pipeline" where
  "commit_callback alive t p min_offset max_offset s =
     (case s of (m, rp) \<Rightarrow>
        (update_existing (raise_watermark (max (max_offset + 1) 0)) (t, p) m,
         (case notify_batch_committed alive t p min_offset max_offset rp of None \<Rightarrow> rp | Some rp' \<Rightarrow> rp')))"

definition callback_range :: "pending_write list \<Rightarrow> int \<times> int" where
  "callback_range batch = (min_or 0 (map pw_base batch), max_or 0 (map pw_last batch))"


section \<open>The order of the offsets\<close>

definition ps_ok :: "partition_state \<Rightarrow> bool" where
  "ps_ok ps \<longleftrightarrow> 0 \<le> log_start_offset ps \<and> log_start_offset ps \<le> high_watermark ps \<and>
     high_watermark ps \<le> next_offset ps \<and> next_offset ps < 2 ^ 63"

definition offset_ok :: "int \<Rightarrow> bool" where
  "offset_ok off \<longleftrightarrow> 0 \<le> off \<and> off < 2 ^ 63"

lemma offset_ok_wrap [simp]: "offset_ok off \<Longrightarrow> uwrap 64 off = off" "offset_ok off \<Longrightarrow> swrap 64 off = off"
  by (simp_all add: offset_ok_def uwrap_id in_unsigned_def swrap_id in_signed_def)

lemma ps_okD:
  assumes "ps_ok ps"
  shows "offset_ok (next_offset ps)" "offset_ok (high_watermark ps)" "offset_ok (log_start_offset ps)"
  using assms by (auto simp: ps_ok_def offset_ok_def)

lemma raise_watermark_ok: "\<lbrakk>ps_ok ps; offset_ok w\<rbrakk> \<Longrightarrow> ps_ok (raise_watermark w ps)"
  by (auto simp: ps_ok_def offset_ok_def raise_watermark_def)

lemma create_ok: "offset_ok off \<Longrightarrow> ps_ok (create_partition_state_with_offset off)"
  by (simp add: create_partition_state_with_offset_def ps_ok_def) (simp add: offset_ok_def)

text \<open>
  The operations on one broker's partitions in any order. Truncation is not below the log
  start, and loading a partition finds ordered offsets in the metadata store.
\<close>

inductive offset_step :: "'b store_env \<Rightarrow> 'b store \<times> partition_states \<Rightarrow> 'b store \<times> partition_states \<Rightarrow> bool" for env where
  ensure: "offset_ok off \<Longrightarrow> offset_step env (st, m) (st, ensure_partition_exists t p off m)"
| recovered: "offset_step env (st, m) (st, apply_recovered_batch t p data m)"
| watermark: "offset_ok w \<Longrightarrow> offset_step env (st, m) (st, update_high_watermark t p w m)"
| from_wal: "w < 2 ^ 63 \<Longrightarrow> offset_step env (st, m) (st, update_high_watermark_from_wal t p w m)"
| restore: "offset_ok w \<Longrightarrow> offset_step env (st, m) (st, restore_partition_state t p w m)"
| reserve: "m (t, p) = Some ps \<Longrightarrow> next_offset ps + int n < 2 ^ 63 \<Longrightarrow>
    offset_step env (st, m) (st, m((t, p) \<mapsto> ps\<lparr>next_offset := uwrap 64 (next_offset ps + int n)\<rparr>))"
| load: "initial_offsets env t p st = ((hw, lso), st1) \<Longrightarrow> 0 \<le> lso \<Longrightarrow> lso \<le> hw \<Longrightarrow> hw < 2 ^ 63 \<Longrightarrow>
    offset_step env (st, m) (snd (get_or_create_partition_state env t p (st, m)))"
| delete: "m (t, p) = Some ps \<Longrightarrow> offset_step env (st, m) (snd (delete_records env t p requested (st, m)))"
| truncate: "m (t, p) = Some ps \<Longrightarrow> log_start_offset ps \<le> new_end \<Longrightarrow> new_end < 2 ^ 63 \<Longrightarrow>
    offset_step env (st, m) (st, reset_offsets_after_truncation t p new_end m)"

definition no_partitions :: "'b store \<times> partition_states \<Rightarrow> bool" where
  "no_partitions s \<longleftrightarrow> snd s = Map.empty"

lemma store_all_upd: "\<lbrakk>store_all P m; P v\<rbrakk> \<Longrightarrow> store_all P (m(k \<mapsto> v))"
  by (auto simp: store_all_def)

lemma delete_records_run:
  assumes "m (t, p) = Some ps" and "ps_ok ps"
  shows "delete_records env t p requested (st, m) =
    (let target = (if requested = -1 then high_watermark ps else requested)
     in if 0 \<le> target \<and> target \<le> high_watermark ps
        then (Inr (max target (log_start_offset ps)),
              snd (update_log_start_offset env t (uwrap 32 p) (max target (log_start_offset ps)) st),
              m((t, p) \<mapsto> ps\<lparr>log_start_offset := max target (log_start_offset ps)\<rparr>))
        else (Inl OFFSET_OUT_OF_RANGE, st, m))"
proof -
  have "offset_ok (max x (log_start_offset ps))" if "0 \<le> x" "x \<le> high_watermark ps" for x
    using that assms(2) by (auto simp: ps_ok_def offset_ok_def)
  then show ?thesis
    using assms(1) ps_okD [OF assms(2)]
    by (auto simp: delete_records_def get_or_create_partition_state_def Let_def)
qed

lemma offset_step_ok:
  assumes "offset_step env s s'" and "store_all ps_ok (snd s)"
  shows "store_all ps_ok (snd s')"
  using assms
proof cases
  case (ensure off st m t p)
  have "ps_ok (ps\<lparr>next_offset := off\<rparr>)" if "ps_ok ps" "next_offset ps < off" for ps
    using that ensure(3) by (auto simp: ps_ok_def offset_ok_def)
  then show ?thesis
    using ensure assms(2) store_allD [OF assms(2), of "(t, p)"]
    by (auto simp: ensure_partition_exists_def create_ok ps_okD intro!: store_all_upd split: option.splits)
next
  case (recovered st m t p data)
  then show ?thesis
    using assms(2) unfolding apply_recovered_batch_def
    by (auto intro!: store_all_update_existing simp: ps_ok_def)
next
  case (watermark w st m t p)
  then show ?thesis
    using assms(2) store_allD [OF assms(2), of "(t, p)"]
    by (auto simp: update_high_watermark_def max_def offset_ok_def intro!: store_all_upd raise_watermark_ok create_ok
        split: option.splits)
next
  case (from_wal w st m t p)
  then show ?thesis
    using assms(2) unfolding update_high_watermark_from_wal_def
    by (auto intro!: store_all_update_existing raise_watermark_ok simp: offset_ok_def)
next
  case (restore w st m t p)
  then show ?thesis
    using assms(2) by (auto simp: restore_partition_state_def intro!: store_all_upd create_ok split: option.splits)
next
  case (reserve m t p ps n st)
  then have "ps_ok ps" using assms(2) by (auto simp: store_all_def)
  then show ?thesis
    using reserve assms(2) by (auto intro!: store_all_upd simp: ps_ok_def uwrap_id in_unsigned_def)
next
  case (load t p st hw lso st1 m)
  then have "offset_ok hw" "offset_ok lso" by (auto simp: offset_ok_def)
  then show ?thesis
    using load assms(2)
    by (auto simp: get_or_create_partition_state_def Let_def ps_ok_def offset_ok_def intro!: store_all_upd split: option.splits)
next
  case (delete m t p ps st requested)
  then have ok: "ps_ok ps" using assms(2) by (auto simp: store_all_def)
  show ?thesis
    using delete assms(2) ok
    by (auto simp: delete_records_run [OF _ ok] Let_def ps_ok_def intro!: store_all_upd)
next
  case (truncate m t p ps new_end st)
  then have ok: "ps_ok ps" using assms(2) by (auto simp: store_all_def)
  then show ?thesis
    using truncate assms(2)
    by (auto simp: reset_offsets_after_truncation_def ps_ok_def intro!: store_all_upd)
qed

interpretation offset_run: invariant_system no_partitions "offset_step env" "\<lambda>s. store_all ps_ok (snd s)"
  by unfold_locales (auto simp: no_partitions_def intro: offset_step_ok)



text \<open>Deleting records moves the log start and nothing else. For a loaded partition the request, with -1
  meaning the high watermark, is refused exactly when it lies outside 0 and the high watermark, and
  then changes nothing; otherwise the answer and the new log start are the request, or
  the current log start if that is higher, and every other offset is as before.
\<close>

theorem delete_records_exact:
  assumes "m (t, p) = Some ps" and "ps_ok ps"
  shows "\<exists>r st' m'. delete_records env t p requested (st, m) = (r, st', m') \<and>
    (let target = (if requested = -1 then high_watermark ps else requested);
         new_start = max target (log_start_offset ps)
     in if 0 \<le> target \<and> target \<le> high_watermark ps
        then r = Inr new_start \<and> m' = m((t, p) \<mapsto> ps\<lparr>log_start_offset := new_start\<rparr>)
        else r = Inl OFFSET_OUT_OF_RANGE \<and> st' = st \<and> m' = m)"
  using delete_records_run [of m t p ps env requested st, OF assms] by (simp add: Let_def)

theorem delete_records_exact_witness:
  "\<exists>st' m'. delete_records sample_env ''orders'' 0 (-1)
      (new_store 1 False, [(''orders'', 0) \<mapsto> \<lparr>next_offset = 100, high_watermark = 79, log_start_offset = 5, pending_batches = []\<rparr>]) =
    (Inr 79, st', m') \<and> map_option log_start_offset (m' (''orders'', 0)) = Some 79"
  using delete_records_exact [of "[(''orders'', 0) \<mapsto> \<lparr>next_offset = 100, high_watermark = 79, log_start_offset = 5, pending_batches = []\<rparr>]"
      "''orders''" 0 "\<lparr>next_offset = 100, high_watermark = 79, log_start_offset = 5, pending_batches = []\<rparr>" sample_env "-1" "new_store 1 False"]
  by (auto simp: ps_ok_def Let_def)

section \<open>The commit callback and the requests it answers\<close>

lemma callback_range_covers:
  assumes "w1 \<in> set batch" and "w2 \<in> set batch"
  shows "fst (callback_range batch) \<le> pw_base w1" and "pw_last w2 \<le> snd (callback_range batch)"
  using assms by (auto simp: callback_range_def min_or_def max_or_def)

text \<open>A request can be acknowledged by a commit that does not contain its write. A request registers with
  the response pipeline before its write is queued, and the callback answers every registered request
  in the range from the smallest to the largest offset of the committed writes. So a request whose
  offsets lie between two committed writes is answered with success, whether or not its own write is in the
  committed batch, or in the log at all.
\<close>

theorem uncommitted_write_acknowledged:
  assumes "pipeline_wf rp" and "commit_drain cfg q = Some (batch, combined, ep, q')"
    and "w1 \<in> set batch" and "w2 \<in> set batch"
    and "pw_base w1 \<le> base" and "base \<le> pw_last w2"
    and "pending_at rp (t, p) base = Some r" and "pr_last_offset r \<le> pw_last w2" and "alive (pr_tx r)"
  shows "(pr_tx r, success_response base r) \<in>
    set (rp_sent (snd (commit_callback alive t p (fst (callback_range batch)) (snd (callback_range batch)) (m, rp))))"
proof -
  let ?lo = "fst (callback_range batch)" and ?hi = "snd (callback_range batch)"
  have b: "?lo \<le> base" "base \<le> ?hi" "pr_last_offset r \<le> ?hi"
    using callback_range_covers [OF assms(3,4)] assms(5,6,8) by simp_all
  then obtain rp' where "notify_batch_committed alive t p ?lo ?hi rp = Some rp'"
    "set (rp_sent rp') = set (rp_sent rp) \<union> {(pr_tx r, success_response off r) | off r.
       pending_at rp (t, p) off = Some r \<and> ?lo \<le> off \<and> off \<le> ?hi \<and> pr_last_offset r \<le> ?hi \<and> alive (pr_tx r)}"
    using notify_committed_run [OF assms(1), of ?lo ?hi alive t p] by auto
  then show ?thesis
    using assms(7,9) b by (auto simp: commit_callback_def)
qed

definition queued :: "int \<Rightarrow> int \<Rightarrow> pending_write" where
  "queued base last_off = \<lparr>pw_data = [], pw_tx = None, pw_base = base, pw_last = last_off\<rparr>"

definition two_writes :: commit_queue where
  "two_writes = (create_queue ''orders'' [] 0)\<lparr>q_pending := [queued 0 9, queued 20 29]\<rparr>"

theorem uncommitted_write_acknowledged_witness:
  "\<exists>batch combined ep q'. commit_drain (low_resource 1000) two_writes = Some (batch, combined, ep, q') \<and>
     (\<forall>w \<in> set batch \<union> set (q_pending q'). pw_last w < 10 \<or> 19 < pw_base w) \<and>
     2 \<in> fst ` set (rp_sent (snd (commit_callback (\<lambda>_. True) ''orders'' 0 (fst (callback_range batch)) (snd (callback_range batch))
       (Map.empty, sample_pipeline))))"
proof -
  let ?batch = "[queued 0 9, queued 20 29]"
  let ?r = "\<lparr>pr_tx = 2, pr_registered_at = 0, pr_last_offset = 19, pr_topic = ''orders'', pr_partition = 0\<rparr>"
  have d: "commit_drain (low_resource 1000) two_writes = Some (?batch, [], 0, two_writes\<lparr>q_pending := []\<rparr>)"
    by (simp add: commit_drain_def two_writes_def low_resource_def queued_def create_queue_def Let_def)
  have "pending_at sample_pipeline (''orders'', 0) 10 = Some ?r"
    by (simp add: sample_pipeline_def pending_at_def register_def with_config_def bt_insert_def Let_def)
  moreover have "pipeline_wf sample_pipeline" by (simp add: sample_pipeline_def register_wf with_config_wf)
  ultimately have "(pr_tx ?r, success_response 10 ?r) \<in> set (rp_sent (snd (commit_callback (\<lambda>_. True) ''orders'' 0
      (fst (callback_range ?batch)) (snd (callback_range ?batch)) (Map.empty, sample_pipeline))))"
    by (intro uncommitted_write_acknowledged [OF _ d, of _ "queued 0 9" "queued 20 29"]) (simp_all add: queued_def)
  then have "2 \<in> fst ` set (rp_sent (snd (commit_callback (\<lambda>_. True) ''orders'' 0
      (fst (callback_range ?batch)) (snd (callback_range ?batch)) (Map.empty, sample_pipeline))))" by force
  with d show ?thesis by (auto simp: queued_def)
qed

end
