(* ===== verification/Produce_Path.thy ===== *)
theory Produce_Path
  imports Partition_State Epoch_Stamp Txn_Coordinator Isr_Ack
begin

text \<open>
  The produce path of a broker (\<open>chronik-server/src/produce_handler.rs\<close>): finding the leader of a
  partition, reserving memory and offsets for a batch, rewriting its base offset and stamping its
  epoch, the idempotence check of its producer, the transaction index, the write-ahead log, and
  the acknowledgement modes. Each definition is a part that runs without another request in
  between, so that the interleavings of requests are sequences of definitions. The write-ahead log and
  the serialisation of a record for it are the argument \<open>wal_write\<close>. Search and vector indexing,
  metrics and the fetch buffer follow a successful write and are left out.
\<close>

section \<open>State\<close>

record producer_info =
  pi_epoch :: int
  pi_sequences :: "partition_key \<rightharpoonup> int"
  pi_transactional_id :: "string option"

record produce_config =
  enable_idempotence :: bool
  min_insync_replicas :: nat
  memory_limit_bytes :: int
  cfg_node_id :: node_id
  leadership_cache_ttl :: nat

record 'b produce_handler =
  pd_store :: "'b store"
  pd_partitions :: partition_states
  pd_producers :: "int \<rightharpoonup> producer_info"
  pd_epochs :: leader_epoch_store
  pd_index :: transaction_index
  pd_memory :: int
  pd_duplicates :: int
  pd_leaders :: "partition_key \<rightharpoonup> node_id \<times> nat"

section \<open>Errors\<close>

definition produce_error_code :: "produce_error \<Rightarrow> int" where
  "produce_error_code e =
     (case e of
        DuplicateSequenceNumber \<Rightarrow> 46
      | InvalidProducerEpoch \<Rightarrow> 47
      | OutOfOrderSequenceNumber \<Rightarrow> 45
      | InvalidTransactionState \<Rightarrow> 48
      | _ \<Rightarrow> 56)"

record produce_response_partition =
  rp_index :: int
  rp_error_code :: int
  rp_base_offset :: int
  rp_log_append_time :: int
  rp_log_start_offset :: int

definition error_response :: "int \<Rightarrow> int \<Rightarrow> produce_response_partition" where
  "error_response p code = \<lparr>rp_index = p, rp_error_code = code, rp_base_offset = -1, rp_log_append_time = -1,
     rp_log_start_offset = 0\<rparr>"

section \<open>Leadership\<close>

text \<open>
  The cached leader is used while it is younger than the time to live; otherwise the assignment is read
  from the metadata store and cached. The result is whether this node leads, and the leader if one is known.
\<close>

definition query_leader ::
  "produce_config \<Rightarrow> nat \<Rightarrow> topic \<Rightarrow> int \<Rightarrow> 'b produce_handler \<Rightarrow> (bool \<times> node_id option) \<times> 'b produce_handler" where
  "query_leader cfg now t p pd =
     (case List.find (\<lambda>a. pa_partition a = uwrap 32 p) (get_partition_assignments t (pd_store pd)) of
        None \<Rightarrow> ((False, None), pd)
      | Some a \<Rightarrow> ((pa_leader_id a = cfg_node_id cfg, Some (pa_leader_id a)),
                  pd\<lparr>pd_leaders := (pd_leaders pd)((t, p) \<mapsto> (pa_leader_id a, now))\<rparr>))"

definition check_leadership ::
  "produce_config \<Rightarrow> nat \<Rightarrow> topic \<Rightarrow> int \<Rightarrow> 'b produce_handler \<Rightarrow> (bool \<times> node_id option) \<times> 'b produce_handler" where
  "check_leadership cfg now t p pd =
     (case pd_leaders pd (t, p) of
        Some (leader, cached_at) \<Rightarrow>
          if now - cached_at < leadership_cache_ttl cfg
          then ((leader = cfg_node_id cfg, Some leader), pd)
          else query_leader cfg now t p pd
      | None \<Rightarrow> query_leader cfg now t p pd)"

section \<open>Producer sequences\<close>

datatype sequence_result = Seq_accepted | Seq_early | Seq_refused produce_error

definition fresh_producer :: "batch_header \<Rightarrow> string option \<Rightarrow> producer_info" where
  "fresh_producer h txn = \<lparr>pi_epoch = bh_producer_epoch h, pi_sequences = Map.empty, pi_transactional_id = txn\<rparr>"

definition current_info :: "batch_header \<Rightarrow> string option \<Rightarrow> (int \<rightharpoonup> producer_info) \<Rightarrow> producer_info" where
  "current_info h txn producers =
     (case producers (bh_producer_id h) of Some i \<Rightarrow> i | None \<Rightarrow> fresh_producer h txn)"

definition adopt_epoch :: "int \<Rightarrow> producer_info \<Rightarrow> producer_info" where
  "adopt_epoch ep info = (if ep \<noteq> pi_epoch info then info\<lparr>pi_epoch := ep, pi_sequences := Map.empty\<rparr> else info)"

definition txn_mismatch :: "string option \<Rightarrow> producer_info \<Rightarrow> bool" where
  "txn_mismatch txn info =
     (case (txn, pi_transactional_id info) of (Some a, Some b) \<Rightarrow> a \<noteq> b | _ \<Rightarrow> False)"

definition bind_txn :: "string option \<Rightarrow> producer_info \<Rightarrow> producer_info" where
  "bind_txn txn info =
     (if txn \<noteq> None \<and> pi_transactional_id info = None then info\<lparr>pi_transactional_id := txn\<rparr> else info)"

definition expected_sequence :: "partition_key \<Rightarrow> producer_info \<Rightarrow> int" where
  "expected_sequence key info = (case pi_sequences info key of Some s \<Rightarrow> swrap 32 (s + 1) | None \<Rightarrow> 0)"

text \<open>
  One turn of the validation loop, under the lock of the producer table: the epoch, the
  transactional id and the sequence of the batch, and the advance of the sequence when it is the expected one.
  \<open>n\<close> is the number of records.
\<close>

definition sequence_attempt ::
  "batch_header \<Rightarrow> nat \<Rightarrow> partition_key \<Rightarrow> string option \<Rightarrow> (int \<rightharpoonup> producer_info) \<Rightarrow>
     sequence_result \<times> (int \<rightharpoonup> producer_info)" where
  "sequence_attempt h n key txn producers =
     (let info = current_info h txn producers;
          save = (\<lambda>i. producers(bh_producer_id h \<mapsto> i))
      in if bh_producer_epoch h < pi_epoch info then (Seq_refused InvalidProducerEpoch, save info)
         else
           let info1 = adopt_epoch (bh_producer_epoch h) info
           in if txn_mismatch txn info1 then (Seq_refused InvalidTransactionState, save info1)
              else
                let info2 = bind_txn txn info1;
                    expected = expected_sequence key info2
                in if bh_base_sequence h < expected then (Seq_refused DuplicateSequenceNumber, save info2)
                   else if bh_base_sequence h = expected
                   then (Seq_accepted, save (info2\<lparr>pi_sequences :=
                           (pi_sequences info2)(key \<mapsto> swrap 32 (bh_base_sequence h + swrap 32 (int n) - 1))\<rparr>))
                   else (Seq_early, save info2))"

text \<open>
  The loop: an early batch sleeps and tries again until the deadline. \<open>others\<close> is what the other requests do to
  the table in each sleep, one entry for each sleep before the deadline passes.
\<close>

fun sequence_loop ::
  "batch_header \<Rightarrow> nat \<Rightarrow> partition_key \<Rightarrow> string option \<Rightarrow>
     ((int \<rightharpoonup> producer_info) \<Rightarrow> (int \<rightharpoonup> producer_info)) list \<Rightarrow> (int \<rightharpoonup> producer_info) \<Rightarrow>
     (produce_error + unit) \<times> (int \<rightharpoonup> producer_info)" where
  "sequence_loop h n key txn others producers =
     (case sequence_attempt h n key txn producers of
        (Seq_accepted, producers') \<Rightarrow> (Inr (), producers')
      | (Seq_refused e, producers') \<Rightarrow> (Inl e, producers')
      | (Seq_early, producers') \<Rightarrow>
          (case others of
             [] \<Rightarrow> (Inl OutOfOrderSequenceNumber, producers')
           | f # fs \<Rightarrow> sequence_loop h n key txn fs (f producers')))"

definition validate_producer_sequence ::
  "produce_config \<Rightarrow> kafka_batch \<Rightarrow> topic \<Rightarrow> int \<Rightarrow> string option \<Rightarrow>
     ((int \<rightharpoonup> producer_info) \<Rightarrow> (int \<rightharpoonup> producer_info)) list \<Rightarrow> 'b produce_handler \<Rightarrow>
     (produce_error + unit) \<times> 'b produce_handler" where
  "validate_producer_sequence cfg b t p txn others pd =
     (if \<not> enable_idempotence cfg then (Inr (), pd)
      else
        (case sequence_loop (kb_header b) (length (kb_records b)) (t, p) txn others (pd_producers pd) of
           (r, producers) \<Rightarrow>
             (r, pd\<lparr>pd_producers := producers,
                    pd_duplicates := (if r = Inl DuplicateSequenceNumber
                      then uwrap 64 (pd_duplicates pd + int (length (kb_records b))) else pd_duplicates pd)\<rparr>)))"

section \<open>Reserving\<close>

definition reserve_memory :: "produce_config \<Rightarrow> int \<Rightarrow> 'b produce_handler \<Rightarrow> 'b produce_handler option" where
  "reserve_memory cfg n pd =
     (if memory_limit_bytes cfg < pd_memory pd + n then None else Some (pd\<lparr>pd_memory := pd_memory pd + n\<rparr>))"

definition release_memory :: "int \<Rightarrow> 'b produce_handler \<Rightarrow> 'b produce_handler" where
  "release_memory n pd = pd\<lparr>pd_memory := uwrap 64 (pd_memory pd - n)\<rparr>"

definition decode_produced :: "nat \<Rightarrow> codecs \<Rightarrow> byte list \<Rightarrow> kafka_batch option" where
  "decode_produced fuel cs data =
     (case decode_batch fuel cs data of Some (Inr (b, _)) \<Rightarrow> Some b | _ \<Rightarrow> None)"

definition stamp_and_record_leader_epoch ::
  "topic \<Rightarrow> int \<Rightarrow> int \<Rightarrow> byte list \<Rightarrow> 'b produce_handler \<Rightarrow> byte list \<times> 'b produce_handler" where
  "stamp_and_record_leader_epoch t p base bytes pd =
     (case get_partition_leader_epoch t (uwrap 32 p) (pd_store pd) of
        None \<Rightarrow> (bytes, pd)
      | Some ep \<Rightarrow>
          if ep < 0 then (bytes, pd)
          else
            (case stamp_leader_epoch ep bytes of
               (n, stamped) \<Rightarrow>
                 if n = 0 then (bytes, pd)
                 else (stamped, pd\<lparr>pd_epochs := observe_append t p ep base (pd_epochs pd)\<rparr>)))"

record reserved_batch =
  rb_base :: int
  rb_batch :: kafka_batch
  rb_bytes :: "byte list"

text \<open>
  From loading the partition to the stamped bytes: the offsets are reserved by one atomic addition once
  the batch has been decoded.
\<close>

definition reserve_offsets ::
  "'b store_env \<Rightarrow> nat \<Rightarrow> codecs \<Rightarrow> topic \<Rightarrow> int \<Rightarrow> byte list \<Rightarrow> 'b produce_handler \<Rightarrow>
     (produce_error + reserved_batch) \<times> 'b produce_handler" where
  "reserve_offsets env fuel cs t p data pd =
     (case get_or_create_partition_state env t p (pd_store pd, pd_partitions pd) of
        (Inl e, st, m) \<Rightarrow> (Inl e, pd\<lparr>pd_store := st, pd_partitions := m\<rparr>)
      | (Inr ps, st, m) \<Rightarrow>
          let pd1 = pd\<lparr>pd_store := st, pd_partitions := m\<rparr>
          in if length data < 8 then (Inl BatchTooShort, pd1)
             else
               (case decode_produced fuel cs data of
                  None \<Rightarrow> (Inl BatchDecodeFailed, pd1)
                | Some temp \<Rightarrow>
                    let base = next_offset ps;
                        pd2 = pd1\<lparr>pd_partitions := m((t, p) \<mapsto>
                                ps\<lparr>next_offset := uwrap 64 (base + int (length (kb_records temp)))\<rparr>)\<rparr>;
                        bytes = (if be_sint (take 8 data) = swrap 64 base then data
                                 else assign_base_offset (swrap 64 base) data)
                    in (case (if be_sint (take 8 data) = swrap 64 base then Some temp
                              else decode_produced fuel cs bytes) of
                          None \<Rightarrow> (Inl BatchDecodeFailed, pd2)
                        | Some b \<Rightarrow>
                            let (stamped, pd3) = stamp_and_record_leader_epoch t p (swrap 64 base) bytes pd2
                            in (Inr \<lparr>rb_base = base, rb_batch = b, rb_bytes = stamped\<rparr>, pd3))))"

section \<open>Accepting\<close>

definition is_control_batch :: "kafka_batch \<Rightarrow> bool" where
  "is_control_batch b \<longleftrightarrow> bh_attributes (kb_header b) AND 0x20 \<noteq> 0"

definition accept_batch ::
  "produce_config \<Rightarrow> topic \<Rightarrow> int \<Rightarrow> string option \<Rightarrow>
     ((int \<rightharpoonup> producer_info) \<Rightarrow> (int \<rightharpoonup> producer_info)) list \<Rightarrow> reserved_batch \<Rightarrow> 'b produce_handler \<Rightarrow>
     (produce_error + unit) \<times> 'b produce_handler" where
  "accept_batch cfg t p txn others rb pd =
     (let b = rb_batch rb
      in case (if 0 \<le> bh_producer_id (kb_header b) \<and> \<not> is_control_batch b
               then validate_producer_sequence cfg b t p txn others pd else (Inr (), pd)) of
           (Inl e, pd1) \<Rightarrow> (Inl e, pd1)
         | (Inr _, pd1) \<Rightarrow>
             (Inr (), pd1\<lparr>pd_index := index_batch t p (swrap 64 (rb_base rb)) b (pd_index pd1)\<rparr>))"

definition last_offset_of :: "reserved_batch \<Rightarrow> int" where
  "last_offset_of rb = swrap 64 (rb_base rb) + int (length (kb_records (rb_batch rb))) - 1"

section \<open>Acknowledging\<close>

definition ack_watermark :: "topic \<Rightarrow> int \<Rightarrow> int \<Rightarrow> 'b produce_handler \<Rightarrow> 'b produce_handler" where
  "ack_watermark t p w pd = pd\<lparr>pd_partitions :=
     update_existing (\<lambda>ps. ps\<lparr>high_watermark := max (high_watermark ps) (uwrap 64 w)\<rparr>) (t, p) (pd_partitions pd)\<rparr>"

definition quorum_size :: "produce_config \<Rightarrow> topic \<Rightarrow> int \<Rightarrow> 'b produce_handler \<Rightarrow> nat" where
  "quorum_size cfg t p pd =
     (case List.find (\<lambda>a. pa_partition a = uwrap 32 p) (get_partition_assignments t (pd_store pd)) of
        None \<Rightarrow> 1
      | Some a \<Rightarrow> min (max (min_insync_replicas cfg) 1) (max (length (pa_replicas a)) 1))"

text \<open>How the wait for the quorum of \<open>acks=all\<close> ends.\<close>

datatype quorum_wait = Quorum_reached | Quorum_failed | Quorum_closed | Quorum_timeout

definition register_quorum ::
  "produce_config \<Rightarrow> topic \<Rightarrow> int \<Rightarrow> reserved_batch \<Rightarrow> nat \<Rightarrow> nat \<Rightarrow> 'b produce_handler \<Rightarrow> ack_tracker \<Rightarrow> ack_tracker" where
  "register_quorum cfg t p rb tx now pd trk =
     (let ack_offset = last_offset_of rb + 1
      in record_ack t p ack_offset (cfg_node_id cfg)
           (register_wait t p ack_offset (quorum_size cfg t p pd) tx now trk))"

definition success_partition :: "int \<Rightarrow> topic \<Rightarrow> reserved_batch \<Rightarrow> 'b produce_handler \<Rightarrow> produce_response_partition" where
  "success_partition p t rb pd =
     \<lparr>rp_index = p, rp_error_code = 0, rp_base_offset = swrap 64 (rb_base rb),
      rp_log_append_time =
        (if (drop_bit 3 (bh_attributes (kb_header (rb_batch rb)))) AND 7 = 1
         then bh_max_timestamp (kb_header (rb_batch rb)) else -1),
      rp_log_start_offset =
        (case pd_partitions pd (t, p) of Some ps \<Rightarrow> swrap 64 (log_start_offset ps) | None \<Rightarrow> 0)\<rparr>"

text \<open>
  The acknowledgement of a batch that is in the log, without a response pipeline: \<open>wait\<close> is how the wait for the
  quorum ends when a tracker is configured.
\<close>

definition acknowledge ::
  "int \<Rightarrow> quorum_wait option \<Rightarrow> topic \<Rightarrow> int \<Rightarrow> reserved_batch \<Rightarrow> 'b produce_handler \<Rightarrow>
     (produce_error + produce_response_partition) \<times> 'b produce_handler" where
  "acknowledge acks wait t p rb pd =
     (let pd1 = ack_watermark t p (last_offset_of rb + 1) pd;
          ok = (Inr (success_partition p t rb pd1), pd1)
      in if acks = 0 \<or> acks = 1 then ok
         else if acks = -1 then
           (case wait of
              None \<Rightarrow> ok
            | Some Quorum_reached \<Rightarrow> ok
            | Some Quorum_failed \<Rightarrow> (Inl IsrQuorumFailed, pd)
            | Some Quorum_closed \<Rightarrow> (Inl IsrQuorumFailed, pd)
            | Some Quorum_timeout \<Rightarrow> (Inr (error_response p 19), pd))
         else (Inl InvalidAcks, pd))"

section \<open>A request\<close>

text \<open>
  One partition of a request from start to end, with no other request in between but for \<open>others\<close>.
  The memory reserved at the start is released on every way out.
\<close>

definition produce_to_partition ::
  "'b store_env \<Rightarrow> nat \<Rightarrow> codecs \<Rightarrow> produce_config \<Rightarrow>
     (topic \<Rightarrow> int \<Rightarrow> byte list \<Rightarrow> int \<Rightarrow> int \<Rightarrow> int \<Rightarrow> int \<Rightarrow> 'w \<Rightarrow> (produce_error + unit) \<times> 'w) \<Rightarrow>
     quorum_wait option \<Rightarrow> ((int \<rightharpoonup> producer_info) \<Rightarrow> (int \<rightharpoonup> producer_info)) list \<Rightarrow>
     topic \<Rightarrow> int \<Rightarrow> byte list \<Rightarrow> string option \<Rightarrow> int \<Rightarrow> 'b produce_handler \<times> 'w \<Rightarrow>
     (produce_error + produce_response_partition) \<times> 'b produce_handler \<times> 'w" where
  "produce_to_partition env fuel cs cfg wal_write wait others t p data txn acks s =
     (case s of (pd, w) \<Rightarrow>
        let n = int (length data) in
        (case reserve_memory cfg n pd of
           None \<Rightarrow> (Inl MemoryLimitExceeded, pd, w)
         | Some pd1 \<Rightarrow>
             (case reserve_offsets env fuel cs t p data pd1 of
                (Inl e, pd2) \<Rightarrow> (Inl e, release_memory n pd2, w)
              | (Inr rb, pd2) \<Rightarrow>
                  (case accept_batch cfg t p txn others rb pd2 of
                     (Inl e, pd3) \<Rightarrow> (Inl e, release_memory n pd3, w)
                   | (Inr _, pd3) \<Rightarrow>
                       (case wal_write t p (rb_bytes rb) (swrap 64 (rb_base rb)) (last_offset_of rb)
                               (swrap 32 (int (length (kb_records (rb_batch rb))))) acks w of
                          (Inl e, w') \<Rightarrow> (Inl e, release_memory n pd3, w')
                        | (Inr _, w') \<Rightarrow>
                            (case acknowledge acks wait t p rb pd3 of
                               (r, pd4) \<Rightarrow> (r, release_memory n pd4, w')))))))"

definition handle_partition ::
  "'b store_env \<Rightarrow> nat \<Rightarrow> codecs \<Rightarrow> produce_config \<Rightarrow>
     (topic \<Rightarrow> int \<Rightarrow> byte list \<Rightarrow> int \<Rightarrow> int \<Rightarrow> int \<Rightarrow> int \<Rightarrow> 'w \<Rightarrow> (produce_error + unit) \<times> 'w) \<Rightarrow>
     (node_id \<Rightarrow> topic \<Rightarrow> int \<Rightarrow> byte list \<Rightarrow> int \<Rightarrow> produce_response_partition option) \<Rightarrow>
     quorum_wait option \<Rightarrow> ((int \<rightharpoonup> producer_info) \<Rightarrow> (int \<rightharpoonup> producer_info)) list \<Rightarrow>
     nat \<Rightarrow> int \<Rightarrow> topic \<Rightarrow> int \<Rightarrow> byte list \<Rightarrow> string option \<Rightarrow> int \<Rightarrow> 'b produce_handler \<times> 'w \<Rightarrow>
     produce_response_partition \<times> 'b produce_handler \<times> 'w" where
  "handle_partition env fuel cs cfg wal_write forward wait others now num_partitions t p data txn acks s =
     (case s of (pd, w) \<Rightarrow>
        if swrap 32 num_partitions \<le> p then (error_response p 3, pd, w)
        else
          (case check_leadership cfg now t p pd of
             ((False, None), pd1) \<Rightarrow> (error_response p 6, pd1, w)
           | ((False, Some leader), pd1) \<Rightarrow>
               ((case forward leader t p data acks of Some r \<Rightarrow> r | None \<Rightarrow> error_response p 6), pd1, w)
           | ((True, _), pd1) \<Rightarrow>
               (case produce_to_partition env fuel cs cfg wal_write wait others t p data txn acks (pd1, w) of
                  (Inr r, s') \<Rightarrow> (r, s')
                | (Inl e, s') \<Rightarrow> (error_response p (produce_error_code e), s'))))"


section \<open>Idempotence\<close>

text \<open>
  Specification side: attempts in the order in which they hold the lock, the batches they accept,
  and what it means for the sequences of batches to be consecutive.
\<close>

record attempt =
  at_header :: batch_header
  at_records :: nat
  at_key :: partition_key
  at_txn :: "string option"

fun accepted_attempts :: "attempt list \<Rightarrow> (int \<rightharpoonup> producer_info) \<Rightarrow> attempt list" where
  "accepted_attempts [] producers = []"
| "accepted_attempts (a # as) producers =
     (case sequence_attempt (at_header a) (at_records a) (at_key a) (at_txn a) producers of
        (Seq_accepted, producers') \<Rightarrow> a # accepted_attempts as producers'
      | (_, producers') \<Rightarrow> accepted_attempts as producers')"

definition from_producer :: "int \<Rightarrow> int \<Rightarrow> partition_key \<Rightarrow> attempt \<Rightarrow> bool" where
  "from_producer pid ep key a \<longleftrightarrow>
     bh_producer_id (at_header a) = pid \<and> bh_producer_epoch (at_header a) = ep \<and> at_key a = key"

fun consecutive :: "int \<Rightarrow> attempt list \<Rightarrow> bool" where
  "consecutive s [] \<longleftrightarrow> True"
| "consecutive s (a # as) \<longleftrightarrow> bh_base_sequence (at_header a) = s \<and> consecutive (s + int (at_records a)) as"

text \<open>
  The entry says that the next sequence of the producer session is \<open>s\<close>, or that the session is over.
\<close>

definition expects :: "int \<Rightarrow> partition_key \<Rightarrow> int \<Rightarrow> producer_info option \<Rightarrow> bool" where
  "expects ep key s info \<longleftrightarrow>
     (case info of
        None \<Rightarrow> s = 0
      | Some i \<Rightarrow> pi_epoch i < ep \<and> s = 0 \<or> ep < pi_epoch i \<or>
          pi_epoch i = ep \<and> (case pi_sequences i key of None \<Rightarrow> s = 0 | Some l \<Rightarrow> l = s - 1))"

lemma bind_txn_simps [simp]: "pi_epoch (bind_txn txn i) = pi_epoch i" "pi_sequences (bind_txn txn i) = pi_sequences i"
  by (simp_all add: bind_txn_def)

lemma adopt_epoch_epoch [simp]: "pi_epoch (adopt_epoch ep i) = ep"
  by (simp add: adopt_epoch_def)

lemma expects_current:
  assumes "expects ep key s (producers (bh_producer_id h))"
  shows "expects ep key s (Some (current_info h txn producers))"
  using assms by (auto simp: expects_def current_info_def fresh_producer_def split: option.splits)

lemma expects_bind [simp]: "expects ep key s (Some (bind_txn txn i)) = expects ep key s (Some i)"
  by (simp add: expects_def)

lemma expects_adopt:
  "\<lbrakk>expects ep key s (Some i); pi_epoch i \<le> e\<rbrakk> \<Longrightarrow> expects ep key s (Some (adopt_epoch e i))"
  by (auto simp: expects_def adopt_epoch_def)

lemma expected_sequence_expects:
  assumes "expects ep key s (Some i)" and "pi_epoch i = ep" and "0 \<le> s" and "s < 2 ^ 31"
  shows "expected_sequence key i = s"
  using assms by (auto simp: expects_def expected_sequence_def swrap_id in_signed_def split: option.splits)

lemma expects_advance:
  assumes "expects ep key s (Some i)" and "pi_epoch i = ep" and "0 \<le> s" and "s + int n < 2 ^ 31"
  shows "expects ep key (s + int n) (Some (i\<lparr>pi_sequences := (pi_sequences i)(key \<mapsto> swrap 32 (s + swrap 32 (int n) - 1))\<rparr>))"
proof -
  have "swrap 32 (int n) = int n" "swrap 32 (s + int n - 1) = s + int n - 1"
    using assms(3,4) by (simp_all add: swrap_id in_signed_def)
  then show ?thesis using assms(2) by (simp add: expects_def)
qed

lemma expects_other:
  assumes "expects ep key s (Some i)" and "pi_epoch i \<noteq> ep \<or> key' \<noteq> key"
  shows "expects ep key s (Some (i\<lparr>pi_sequences := (pi_sequences i)(key' \<mapsto> v)\<rparr>))"
  using assms by (auto simp: expects_def)

lemma attempt_run:
  assumes "sequence_attempt h n key' txn producers = (r, producers')"
    and "expects ep key s (producers pid)" and "0 \<le> s" and "s + int n < 2 ^ 31"
  defines "mine \<equiv> bh_producer_id h = pid \<and> bh_producer_epoch h = ep \<and> key' = key"
  shows "(r = Seq_accepted \<and> mine \<longrightarrow> bh_base_sequence h = s) \<and>
    expects ep key (if r = Seq_accepted \<and> mine then s + int n else s) (producers' pid)"
proof (cases "bh_producer_id h = pid")
  case False
  then have "producers' pid = producers pid"
    using assms(1) by (auto simp: sequence_attempt_def Let_def split: if_splits)
  then show ?thesis using False assms(2) by (simp add: mine_def)
next
  case True
  let ?i = "current_info h txn producers"
  let ?j = "adopt_epoch (bh_producer_epoch h) ?i"
  have i: "expects ep key s (Some ?i)" using expects_current [of ep key s producers h txn] assms(2) True by simp
  show ?thesis
  proof (cases "bh_producer_epoch h < pi_epoch ?i")
    case old: True
    then show ?thesis using assms(1) i True by (auto simp: sequence_attempt_def Let_def)
  next
    case False
    then have j: "expects ep key s (Some ?j)" using i by (intro expects_adopt) simp_all
    show ?thesis
    proof (cases "txn_mismatch txn ?j \<or> bh_base_sequence h \<noteq> expected_sequence key' (bind_txn txn ?j)")
      case refused: True
      then have "producers' pid = Some ?j \<or> producers' pid = Some (bind_txn txn ?j)" "r \<noteq> Seq_accepted"
        using assms(1) False True by (auto simp: sequence_attempt_def Let_def split: if_splits)
      then show ?thesis using j by auto
    next
      case acc: False
      let ?k = "bind_txn txn ?j"
      have r: "r = Seq_accepted" "producers' pid = Some (?k\<lparr>pi_sequences :=
          (pi_sequences ?k)(key' \<mapsto> swrap 32 (bh_base_sequence h + swrap 32 (int n) - 1))\<rparr>)"
        using assms(1) False True acc by (auto simp: sequence_attempt_def Let_def)
      have k: "expects ep key s (Some ?k)" using j by simp
      show ?thesis
      proof (cases mine)
        case m: True
        then have "expected_sequence key' ?k = s"
          using expected_sequence_expects [OF k] assms(3,4) by (simp add: mine_def)
        then have "bh_base_sequence h = s" using acc by simp
        then show ?thesis
          using r m expects_advance [OF k _ assms(3,4)] by (simp add: mine_def)
      next
        case m: False
        then have "pi_epoch ?k \<noteq> ep \<or> key' \<noteq> key" using True by (auto simp: mine_def)
        then show ?thesis using r m expects_other [OF k] by (auto simp del: bind_txn_simps)
      qed
    qed
  qed
qed

lemma accepted_consecutive:
  assumes "expects ep key s (producers pid)" and "0 \<le> s" and "s + int (sum_list (map at_records as)) < 2 ^ 31"
  shows "consecutive s (filter (from_producer pid ep key) (accepted_attempts as producers))"
  using assms
proof (induction as arbitrary: s producers)
  case (Cons a as)
  obtain r producers' where r: "sequence_attempt (at_header a) (at_records a) (at_key a) (at_txn a) producers = (r, producers')"
    by fastforce
  have lt: "s + int (at_records a) < 2 ^ 31" using Cons.prems(3) by simp
  have run: "(r = Seq_accepted \<and> from_producer pid ep key a \<longrightarrow> bh_base_sequence (at_header a) = s) \<and>
      expects ep key (if r = Seq_accepted \<and> from_producer pid ep key a then s + int (at_records a) else s) (producers' pid)"
    using attempt_run [OF r Cons.prems(1,2) lt] by (simp add: from_producer_def)
  show ?case
  proof (cases "r = Seq_accepted \<and> from_producer pid ep key a")
    case True
    then show ?thesis
      using r run Cons.IH [of "s + int (at_records a)" producers'] Cons.prems(2,3) by (simp add: add.assoc)
  next
    case False
    then have "filter (from_producer pid ep key) (accepted_attempts (a # as) producers) =
        filter (from_producer pid ep key) (accepted_attempts as producers')"
      using r by (cases r) auto
    then show ?thesis
      using False run Cons.IH [of s producers'] Cons.prems(2,3) by (simp only: if_False) simp
  qed
qed simp

text \<open>C1: idempotent production is exactly once. Whatever attempts of whatever producers hold the
  lock in whatever order, the batches accepted from one session of a producer for one partition carry
  consecutive sequences from zero: none is missing, and none is accepted twice. The bound is on the records
  sent, below the point where the sequence wraps.
\<close>

theorem idempotent_exactly_once:
  assumes "int (sum_list (map at_records as)) < 2 ^ 31"
  shows "consecutive 0 (filter (from_producer pid ep key) (accepted_attempts as Map.empty))"
  using accepted_consecutive [of ep key 0 Map.empty pid as] assms by (simp add: expects_def)

definition sample_header :: "int \<Rightarrow> int \<Rightarrow> batch_header" where
  "sample_header pid s = (kb_header (marker_batch 0 pid 0 Commit 1000))\<lparr>bh_base_sequence := s, bh_attributes := 0\<rparr>"

definition sample_attempts :: "attempt list" where
  "sample_attempts =
     map (\<lambda>(s, n). \<lparr>at_header = sample_header 7 s, at_records = n, at_key = (''orders'', 0), at_txn = None\<rparr>)
       [(0, 5), (0, 5), (9, 1), (5, 4), (9, 1)]"

theorem idempotent_exactly_once_witness:
  "consecutive 0 (filter (from_producer 7 0 (''orders'', 0)) (accepted_attempts sample_attempts Map.empty)) \<and>
   length (accepted_attempts sample_attempts Map.empty) = 3"
proof -
  have h: "bh_producer_id (sample_header 7 s) = 7" "bh_base_sequence (sample_header 7 s) = s"
    "bh_producer_epoch (sample_header 7 s) = bh_producer_epoch (sample_header 7 0)" for s
    by (simp_all add: sample_header_def marker_batch_def add_record_def new_batch_def Let_def)
  show ?thesis
    using idempotent_exactly_once [of sample_attempts 7 0 "(''orders'', 0)"]
    by (simp add: sample_attempts_def sequence_attempt_def current_info_def fresh_producer_def adopt_epoch_def
        txn_mismatch_def bind_txn_def expected_sequence_def Let_def h(1,2) h(3) [of 5] h(3) [of 9] swrap_def)
qed

text \<open>C40: a producer cannot go on past the largest sequence. Once the last accepted sequence of a session is the largest
  32-bit number, a batch that starts again at zero, as the protocol prescribes, is refused as
  out of order, however long it waits.
\<close>

theorem sequence_wrap_refused:
  assumes "producers (bh_producer_id h) = Some info" and "pi_epoch info = bh_producer_epoch h"
    and "pi_sequences info key = Some 2147483647" and "bh_base_sequence h = 0"
  shows "fst (sequence_loop h n key None (replicate k id) producers) = Inl OutOfOrderSequenceNumber"
proof -
  have a: "sequence_attempt h n key None producers = (Seq_early, producers)"
    using assms
    by (auto simp: sequence_attempt_def current_info_def adopt_epoch_def txn_mismatch_def bind_txn_def
        expected_sequence_def Let_def swrap_def fun_upd_idem)
  show ?thesis by (induction k) (simp_all add: a)
qed

theorem sequence_wrap_refused_witness:
  "fst (sequence_loop ((sample_header 7 0)\<lparr>bh_producer_epoch := 0\<rparr>) 1 (''orders'', 0) None (replicate 250 id)
     [7 \<mapsto> \<lparr>pi_epoch = 0, pi_sequences = [(''orders'', 0) \<mapsto> 2147483647], pi_transactional_id = None\<rparr>]) =
   Inl OutOfOrderSequenceNumber"
  by (rule sequence_wrap_refused [where info = "\<lparr>pi_epoch = 0, pi_sequences = [(''orders'', 0) \<mapsto> 2147483647],
        pi_transactional_id = None\<rparr>"]) (simp_all add: sample_header_def marker_batch_def add_record_def new_batch_def Let_def)


section \<open>Memory\<close>

lemma stamp_keeps [simp]:
  "pd_memory (snd (stamp_and_record_leader_epoch t p base bytes pd)) = pd_memory pd"
  "pd_producers (snd (stamp_and_record_leader_epoch t p base bytes pd)) = pd_producers pd"
  "pd_partitions (snd (stamp_and_record_leader_epoch t p base bytes pd)) = pd_partitions pd"
  "pd_store (snd (stamp_and_record_leader_epoch t p base bytes pd)) = pd_store pd"
  by (simp_all add: stamp_and_record_leader_epoch_def split: option.split prod.split)

lemma reserve_offsets_keeps [simp]:
  "pd_memory (snd (reserve_offsets env fuel cs t p data pd)) = pd_memory pd"
  "pd_producers (snd (reserve_offsets env fuel cs t p data pd)) = pd_producers pd"
  by (simp_all add: reserve_offsets_def Let_def case_prod_beta split: sum.split option.split)

lemma validate_keeps [simp]:
  "pd_memory (snd (validate_producer_sequence cfg b t p txn others pd)) = pd_memory pd"
  by (simp add: validate_producer_sequence_def case_prod_beta)

lemma accept_batch_keeps [simp]: "pd_memory (snd (accept_batch cfg t p txn others rb pd)) = pd_memory pd"
  using validate_keeps [of cfg "rb_batch rb" t p txn others pd]
  by (cases "validate_producer_sequence cfg (rb_batch rb) t p txn others pd")
    (auto simp: accept_batch_def Let_def simp del: validate_keeps split: sum.splits)

lemma acknowledge_keeps [simp]: "pd_memory (snd (acknowledge acks wait t p rb pd)) = pd_memory pd"
  by (simp add: acknowledge_def ack_watermark_def Let_def split: option.split quorum_wait.split)


definition sample_config :: produce_config where
  "sample_config = \<lparr>enable_idempotence = True, min_insync_replicas = 2, memory_limit_bytes = 1000000,
     cfg_node_id = 1, leadership_cache_ttl = 60\<rparr>"

definition sample_handler :: "metadata_event produce_handler" where
  "sample_handler = \<lparr>pd_store = new_store 1 False,
     pd_partitions = [(''orders'', 0) \<mapsto> create_partition_state_with_offset 0],
     pd_producers = Map.empty, pd_epochs = Map.empty, pd_index = Map.empty, pd_memory = 77, pd_duplicates = 0,
     pd_leaders = [(''orders'', 0) \<mapsto> (1, 100)]\<rparr>"


section \<open>Offsets\<close>

text \<open>A change of the partitions that takes no log end back.\<close>

definition no_rewind :: "partition_states \<Rightarrow> partition_states \<Rightarrow> bool" where
  "no_rewind m m' \<longleftrightarrow>
     (\<forall>k ps. m k = Some ps \<longrightarrow> (\<exists>ps'. m' k = Some ps' \<and> next_offset ps \<le> next_offset ps'))"

lemma no_rewind_refl [simp]: "no_rewind m m"
  by (simp add: no_rewind_def)

lemma no_rewind_upd:
  "(\<And>ps. m k = Some ps \<Longrightarrow> next_offset ps \<le> next_offset v) \<Longrightarrow> no_rewind m (m(k \<mapsto> v))"
  by (auto simp: no_rewind_def)

lemma no_rewind_existing:
  "(\<And>ps. next_offset ps \<le> next_offset (f ps)) \<Longrightarrow> no_rewind m (update_existing f k m)"
  by (auto simp: no_rewind_def update_existing_def split: option.splits)

lemma watermark_updates_no_rewind:
  "no_rewind m (update_high_watermark t p w m)"
  "no_rewind m (update_high_watermark_from_wal t p w m)"
  "no_rewind m (restore_partition_state t p w m)"
  "no_rewind m (apply_recovered_batch t p data m)"
  "no_rewind (pd_partitions pd) (pd_partitions (ack_watermark t p w pd))"
  by (auto simp: update_high_watermark_def update_high_watermark_from_wal_def restore_partition_state_def
      apply_recovered_batch_def ack_watermark_def raise_watermark_def
      intro!: no_rewind_upd no_rewind_existing split: option.split)

lemma get_or_create_run:
  assumes "get_or_create_partition_state env t p (st, m) = (r, st', m')"
  shows "no_rewind m m' \<and> (\<forall>ps. r = Inr ps \<longrightarrow> m' (t, p) = Some ps)"
  using assms
  by (auto simp: get_or_create_partition_state_def Let_def case_prod_beta no_rewind_def split: option.splits if_splits)

lemma reserve_offsets_run:
  assumes "reserve_offsets env fuel cs t p data pd = (Inr rb, pd')"
  shows "\<exists>temp ps m. decode_produced fuel cs data = Some temp \<and> rb_base rb = next_offset ps \<and> m (t, p) = Some ps \<and>
    no_rewind (pd_partitions pd) m \<and>
    pd_partitions pd' = m((t, p) \<mapsto> ps\<lparr>next_offset := uwrap 64 (next_offset ps + int (length (kb_records temp)))\<rparr>)"
proof -
  obtain r st m where g: "get_or_create_partition_state env t p (pd_store pd, pd_partitions pd) = (r, st, m)"
    by (metis prod_cases3)
  obtain ps where ps: "r = Inr ps" using assms g by (cases r) (auto simp: reserve_offsets_def)
  obtain temp where temp: "decode_produced fuel cs data = Some temp" "\<not> length data < 8"
    using assms g ps by (auto simp: reserve_offsets_def Let_def split: if_splits option.splits)
  have "rb_base rb = next_offset ps \<and>
    pd_partitions pd' = m((t, p) \<mapsto> ps\<lparr>next_offset := uwrap 64 (next_offset ps + int (length (kb_records temp)))\<rparr>)"
    using assms g ps temp stamp_keeps(3)
    by (auto simp: reserve_offsets_def Let_def case_prod_beta split: if_splits option.splits)
  then show ?thesis using temp get_or_create_run [OF g] ps by blast
qed

text \<open>
  Requests that reserve offsets in loaded partitions, in any order with any other operation on the offsets that takes no log
  end back; the reserved ranges are kept in the order of their reservation. Only truncation takes a log end back.
\<close>

record 'b reserve_state =
  rv_handler :: "'b produce_handler"
  rv_ranges :: "(partition_key \<times> int \<times> nat) list"

inductive reserve_step :: "'b store_env \<Rightarrow> nat \<Rightarrow> codecs \<Rightarrow> 'b reserve_state \<Rightarrow> 'b reserve_state \<Rightarrow> bool" for env fuel cs where
  reserve: "pd_partitions (rv_handler s) (t, p) \<noteq> None \<Longrightarrow>
    reserve_offsets env fuel cs t p data (rv_handler s) = (Inr rb, pd) \<Longrightarrow>
    decode_produced fuel cs data = Some b \<Longrightarrow> rb_base rb + int (length (kb_records b)) < 2 ^ 64 \<Longrightarrow> 0 \<le> rb_base rb \<Longrightarrow>
    reserve_step env fuel cs s (s\<lparr>rv_handler := pd, rv_ranges := rv_ranges s @ [((t, p), rb_base rb, length (kb_records b))]\<rparr>)"
| other: "no_rewind (pd_partitions (rv_handler s)) (pd_partitions pd) \<Longrightarrow> reserve_step env fuel cs s (s\<lparr>rv_handler := pd\<rparr>)"

definition reserve_init :: "'b reserve_state \<Rightarrow> bool" where
  "reserve_init s \<longleftrightarrow> rv_ranges s = []"

definition before :: "partition_key \<times> int \<times> nat \<Rightarrow> partition_key \<times> int \<times> nat \<Rightarrow> bool" where
  "before r r' \<longleftrightarrow> (fst r = fst r' \<longrightarrow> fst (snd r) + int (snd (snd r)) \<le> fst (snd r'))"

definition below_end :: "partition_states \<Rightarrow> partition_key \<times> int \<times> nat \<Rightarrow> bool" where
  "below_end m r \<longleftrightarrow> (\<exists>ps. m (fst r) = Some ps \<and> fst (snd r) + int (snd (snd r)) \<le> next_offset ps)"

definition reserve_inv :: "'b reserve_state \<Rightarrow> bool" where
  "reserve_inv s \<longleftrightarrow> sorted_wrt before (rv_ranges s) \<and>
     (\<forall>r \<in> set (rv_ranges s). below_end (pd_partitions (rv_handler s)) r)"

lemma below_end_mono: "\<lbrakk>below_end m r; no_rewind m m'\<rbrakk> \<Longrightarrow> below_end m' r"
  unfolding below_end_def no_rewind_def by (meson order_trans)

lemma reserve_step_inv:
  assumes "reserve_step env fuel cs s s'" and "reserve_inv s"
  shows "reserve_inv s'"
  using assms
proof cases
  case (reserve t p data rb pd b)
  obtain ps m where m: "rb_base rb = next_offset ps" "m (t, p) = Some ps" "no_rewind (pd_partitions (rv_handler s)) m"
    "pd_partitions pd = m((t, p) \<mapsto> ps\<lparr>next_offset := uwrap 64 (next_offset ps + int (length (kb_records b)))\<rparr>)"
    using reserve_offsets_run [OF reserve(3)] reserve(4) by auto
  have u: "uwrap 64 (next_offset ps + int (length (kb_records b))) = next_offset ps + int (length (kb_records b))"
    using reserve(5,6) m(1) by (simp add: uwrap_id in_unsigned_def)
  have old: "below_end m r" if "r \<in> set (rv_ranges s)" for r
    using that assms(2) m(3) below_end_mono unfolding reserve_inv_def by blast
  have "before r ((t, p), rb_base rb, length (kb_records b))" if "r \<in> set (rv_ranges s)" for r
    using old [OF that] m(1,2) by (auto simp: before_def below_end_def)
  moreover have "below_end (pd_partitions pd) r" if "r \<in> set (rv_ranges s)" for r
    using old [OF that] m(2,4) u by (cases "fst r = (t, p)") (auto simp: below_end_def)
  moreover have "below_end (pd_partitions pd) ((t, p), rb_base rb, length (kb_records b))"
    using m(1,4) u by (simp add: below_end_def)
  ultimately show ?thesis
    using assms(2) reserve(1) by (simp add: reserve_inv_def sorted_wrt_append)
next
  case (other pd)
  then show ?thesis using assms(2) below_end_mono by (auto simp: reserve_inv_def)
qed

interpretation reserve_run: invariant_system reserve_init "reserve_step env fuel cs" reserve_inv
proof
  show "reserve_inv s" if "reserve_init s" for s :: "'a reserve_state"
    using that by (simp add: reserve_init_def reserve_inv_def)
qed (rule reserve_step_inv)



section \<open>Sample batches\<close>

definition idem_batch :: "int \<Rightarrow> int \<Rightarrow> kafka_batch" where
  "idem_batch base s = (marker_batch base 7 0 Commit 1000)
     \<lparr>kb_header := (kb_header (marker_batch base 7 0 Commit 1000))\<lparr>bh_attributes := 0, bh_base_sequence := s\<rparr>\<rparr>"

definition idem_bytes :: "int \<Rightarrow> int \<Rightarrow> byte list" where
  "idem_bytes base s = (case encode_batch plain_codecs (idem_batch base s) of Inl _ \<Rightarrow> [] | Inr bs \<Rightarrow> bs)"

lemma idem_decode:
  assumes "in_signed 64 base" and "in_signed 32 s"
  shows "\<exists>b. decode_produced fuel plain_codecs (idem_bytes base s) = Some b \<and> length (kb_records b) = 1 \<and>
    bh_producer_id (kb_header b) = 7 \<and> bh_producer_epoch (kb_header b) = 0 \<and> bh_base_sequence (kb_header b) = s \<and>
    bh_attributes (kb_header b) = 0 \<and> 8 \<le> length (idem_bytes base s) \<and> be_sint (take 8 (idem_bytes base s)) = base"
proof -
  let ?m = "marker_batch base 7 0 Commit 1000" and ?b = "idem_batch base s"
  let ?z = "concat (map encode_record (kb_records ?b))"
  have "batch_ok ?m" using assms(1) by (intro marker_batch_ok) (simp_all add: in_signed_def)
  then have ok: "batch_ok ?b"
    using assms(2) by (auto simp: batch_ok_def header_fields_ok_def idem_batch_def in_unsigned_def)
  have comp: "batch_compression ?b = NoCompression" by (simp add: idem_batch_def from_attributes_def)
  have z: "encode_records plain_codecs ?b = Inr ?z" by (simp add: encode_records_def compress_def comp)
  then have bs: "encode_batch plain_codecs ?b = Inr (idem_bytes base s)" by (simp add: encode_batch_def idem_bytes_def)
  have rec: "kb_records ?b = kb_records ?m" by (simp add: idem_batch_def)
  have hdr: "bh_producer_id (kb_header ?m) = 7" "bh_producer_epoch (kb_header ?m) = 0" "bh_base_offset (kb_header ?m) = base"
    by (simp_all add: marker_batch_def add_record_def new_batch_def Let_def)
  have "length ?z = 17"
    by (simp add: rec marker_record encode_record_def record_body_def bytes_of_option_def varint_small marker_key_def)
  moreover have bytes: "idem_bytes base s = batch_bytes (kb_header ?b) (crc32c plain_codecs (checked_bytes (kb_header ?b) ?z)) ?z"
    using bs z by (simp add: encode_batch_def)
  ultimately have len: "length (idem_bytes base s) = 78" by (simp add: batch_bytes_def length_checked_bytes)
  have "decode_batch fuel plain_codecs (idem_bytes base s @ []) =
    Some (Inr (\<lparr>kb_header = stored_header (kb_header ?b) (crc32c plain_codecs (checked_bytes (kb_header ?b) ?z)) ?z,
      kb_records = map sized (kb_records ?b), compressed_records_data = Some (?z @ [])\<rparr>, length (idem_bytes base s)))"
    by (rule encoded_batch_run [where rest' = "[]", OF ok sample_txn_ok(11) z bs])
      (simp_all add: len decompress_def comp)
  moreover have "take 8 (idem_bytes base s) = be_bytes 8 base"
    using hdr(3) by (simp add: bytes batch_bytes_def) (simp add: idem_batch_def)
  ultimately show ?thesis
    using assms(1) len
    by (simp add: decode_produced_def rec marker_record stored_header_def be_sint_be_bytes_id)
      (simp add: idem_batch_def hdr)
qed

lemma idem_v2: "v2_batch_end (idem_bytes base s) = Some (length (idem_bytes base s))"
proof -
  let ?b = "idem_batch base s"
  let ?z = "concat (map encode_record (kb_records ?b))"
  have "batch_compression ?b = NoCompression" by (simp add: idem_batch_def from_attributes_def)
  then have z: "encode_records plain_codecs ?b = Inr ?z" by (simp add: encode_records_def compress_def)
  have "length ?z = 17"
    by (simp add: idem_batch_def marker_record encode_record_def record_body_def bytes_of_option_def varint_small marker_key_def)
  moreover have "bh_magic (kb_header ?b) = MAGIC_V2"
    by (simp add: idem_batch_def marker_batch_def add_record_def new_batch_def Let_def)
  ultimately show ?thesis
    using z v2_batch_end_encoded [of "kb_header ?b" ?z "crc32c plain_codecs (checked_bytes (kb_header ?b) ?z)"]
    by (simp add: idem_bytes_def encode_batch_def length_checked_bytes)
qed

lemma idem_reserve:
  assumes "pd_partitions pd (''orders'', 0) = Some ps" and "next_offset ps = base" and "0 \<le> base" and "base < 2 ^ 63"
    and "in_signed 32 s" and "get_partition_leader_epoch ''orders'' 0 (pd_store pd) = None"
  shows "\<exists>rb pd'. reserve_offsets sample_env fuel plain_codecs ''orders'' 0 (idem_bytes base s) pd = (Inr rb, pd') \<and>
    decode_produced fuel plain_codecs (idem_bytes base s) = Some (rb_batch rb) \<and> rb_base rb = base \<and>
    length (kb_records (rb_batch rb)) = 1 \<and> bh_base_sequence (kb_header (rb_batch rb)) = s \<and>
    bh_producer_id (kb_header (rb_batch rb)) = 7 \<and> bh_producer_epoch (kb_header (rb_batch rb)) = 0 \<and>
    bh_attributes (kb_header (rb_batch rb)) = 0 \<and>
    pd' = pd\<lparr>pd_partitions := (pd_partitions pd)((''orders'', 0) \<mapsto> ps\<lparr>next_offset := base + 1\<rparr>)\<rparr>"
proof -
  have "in_signed 64 base" using assms(3,4) by (simp add: in_signed_def)
  from idem_decode [OF this assms(5), of fuel] obtain b where
    b: "decode_produced fuel plain_codecs (idem_bytes base s) = Some b" "length (kb_records b) = 1"
    "bh_producer_id (kb_header b) = 7" "bh_producer_epoch (kb_header b) = 0" "bh_base_sequence (kb_header b) = s"
    "bh_attributes (kb_header b) = 0" "8 \<le> length (idem_bytes base s)" "be_sint (take 8 (idem_bytes base s)) = base"
    by blast
  have w: "swrap 64 base = base" "uwrap 64 (base + 1) = base + 1" "uwrap 32 0 = 0"
    using assms(3,4) by (simp_all add: swrap_id in_signed_def uwrap_id in_unsigned_def)
  have "pd\<lparr>pd_store := pd_store pd, pd_partitions := m\<rparr> = pd\<lparr>pd_partitions := m\<rparr>" for m by simp
  then show ?thesis
    using assms(1,2,6) b w
    by (simp add: reserve_offsets_def get_or_create_partition_state_def stamp_and_record_leader_epoch_def Let_def)
qed

lemma sample_store: "get_partition_leader_epoch ''orders'' 0 (pd_store sample_handler) = None"
  by (simp add: sample_handler_def get_partition_leader_epoch_def new_store_def new_metadata_state_def)


section \<open>Order of in-flight batches\<close>

lemma no_rewindD: "\<lbrakk>no_rewind m m'; m k = Some ps; m' k = Some ps'\<rbrakk> \<Longrightarrow> next_offset ps \<le> next_offset ps'"
  unfolding no_rewind_def by (metis option.inject)

lemma accept_in_order:
  assumes "enable_idempotence cfg" and "0 \<le> bh_producer_id (kb_header (rb_batch rb))" and "\<not> is_control_batch (rb_batch rb)"
    and "expects (bh_producer_epoch (kb_header (rb_batch rb))) (t, p) s (pd_producers pd (bh_producer_id (kb_header (rb_batch rb))))"
    and "\<forall>i. pd_producers pd (bh_producer_id (kb_header (rb_batch rb))) = Some i \<longrightarrow>
      pi_epoch i = bh_producer_epoch (kb_header (rb_batch rb)) \<and> pi_transactional_id i = None"
    and "bh_base_sequence (kb_header (rb_batch rb)) = s" and "0 \<le> s" and "s + int (length (kb_records (rb_batch rb))) < 2 ^ 31"
  shows "\<exists>pd'. accept_batch cfg t p None others rb pd = (Inr (), pd') \<and>
    expects (bh_producer_epoch (kb_header (rb_batch rb))) (t, p) (s + int (length (kb_records (rb_batch rb))))
      (pd_producers pd' (bh_producer_id (kb_header (rb_batch rb)))) \<and>
    (\<forall>i. pd_producers pd' (bh_producer_id (kb_header (rb_batch rb))) = Some i \<longrightarrow>
      pi_epoch i = bh_producer_epoch (kb_header (rb_batch rb)) \<and> pi_transactional_id i = None)"
proof -
  let ?h = "kb_header (rb_batch rb)" and ?n = "length (kb_records (rb_batch rb))"
  let ?i = "current_info ?h None (pd_producers pd)"
  have i: "pi_epoch ?i = bh_producer_epoch ?h" "pi_transactional_id ?i = None" "adopt_epoch (bh_producer_epoch ?h) ?i = ?i"
  proof -
    have "pi_epoch ?i = bh_producer_epoch ?h \<and> pi_transactional_id ?i = None"
    proof (cases "pd_producers pd (bh_producer_id ?h)")
      case (Some j)
      with assms(5) [THEN spec, of j] show ?thesis by (simp add: current_info_def)
    qed (simp add: current_info_def fresh_producer_def)
    then show "pi_epoch ?i = bh_producer_epoch ?h" "pi_transactional_id ?i = None" "adopt_epoch (bh_producer_epoch ?h) ?i = ?i"
      by (simp_all add: adopt_epoch_def)
  qed
  have e: "expects (bh_producer_epoch ?h) (t, p) s (Some ?i)" using expects_current [of _ _ _ "pd_producers pd" ?h None] assms(4) by simp
  have "expected_sequence (t, p) ?i = s" using expected_sequence_expects [OF e i(1) assms(7)] assms(8) by simp
  then have a: "sequence_attempt ?h ?n (t, p) None (pd_producers pd) =
      (Seq_accepted, (pd_producers pd)(bh_producer_id ?h \<mapsto>
        ?i\<lparr>pi_sequences := (pi_sequences ?i)((t, p) \<mapsto> swrap 32 (s + swrap 32 (int ?n) - 1))\<rparr>))"
    using i assms(6) by (simp add: sequence_attempt_def Let_def txn_mismatch_def bind_txn_def)
  let ?j = "?i\<lparr>pi_sequences := (pi_sequences ?i)((t, p) \<mapsto> swrap 32 (s + swrap 32 (int ?n) - 1))\<rparr>"
  have l: "sequence_loop ?h ?n (t, p) None others (pd_producers pd) = (Inr (), (pd_producers pd)(bh_producer_id ?h \<mapsto> ?j))"
    by (subst sequence_loop.simps) (simp only: a prod.case sequence_result.case)
  obtain pd' where "accept_batch cfg t p None others rb pd = (Inr (), pd')"
    "pd_producers pd' = (pd_producers pd)(bh_producer_id ?h \<mapsto> ?j)"
    using assms(1-3) by (simp add: accept_batch_def validate_producer_sequence_def Let_def l del: sequence_loop.simps)
  moreover have "pi_epoch ?j = bh_producer_epoch ?h" "pi_transactional_id ?j = None" using i by simp_all
  moreover note expects_advance [OF e i(1) assms(7,8)]
  ultimately show ?thesis by (metis fun_upd_same option.inject)
qed

text \<open>C38: in-flight batches of an idempotent producer can be stored out of order. Offsets are reserved before the sequence is
  validated, so when the second of two batches reserves first, both are still accepted, in
  sequence order, and the batch with the later sequences gets the lower offsets.
\<close>

theorem in_flight_batches_reordered:
  assumes "reserve_offsets env fuel cs t p second pd = (Inr rb2, pd1)"
    and "reserve_offsets env fuel cs t p first pd1 = (Inr rb1, pd2)"
    and "pd_partitions pd (t, p) = Some ps" and "decode_produced fuel cs second = Some b2" and "kb_records b2 \<noteq> []"
    and "0 \<le> next_offset ps" and "next_offset ps + int (length (kb_records b2)) < 2 ^ 64"
    and "enable_idempotence cfg" and "pd_producers pd (bh_producer_id (kb_header (rb_batch rb1))) = None"
    and "0 \<le> bh_producer_id (kb_header (rb_batch rb1))"
    and "bh_producer_id (kb_header (rb_batch rb2)) = bh_producer_id (kb_header (rb_batch rb1))"
    and "bh_producer_epoch (kb_header (rb_batch rb2)) = bh_producer_epoch (kb_header (rb_batch rb1))"
    and "\<not> is_control_batch (rb_batch rb1)" and "\<not> is_control_batch (rb_batch rb2)"
    and "bh_base_sequence (kb_header (rb_batch rb1)) = 0"
    and "bh_base_sequence (kb_header (rb_batch rb2)) = int (length (kb_records (rb_batch rb1)))"
    and "int (length (kb_records (rb_batch rb1))) + int (length (kb_records (rb_batch rb2))) < 2 ^ 31"
  shows "\<exists>pd3 pd4. accept_batch cfg t p None [] rb1 pd2 = (Inr (), pd3) \<and> accept_batch cfg t p None [] rb2 pd3 = (Inr (), pd4) \<and>
    rb_base rb2 < rb_base rb1"
proof -
  have pr: "pd_producers pd1 = pd_producers pd" "pd_producers pd2 = pd_producers pd1"
    using reserve_offsets_keeps(2) [of env fuel cs t p second pd] reserve_offsets_keeps(2) [of env fuel cs t p first pd1]
      assms(1,2) by simp_all
  let ?n1 = "int (length (kb_records (rb_batch rb1)))"
  obtain pd3 where pd3: "accept_batch cfg t p None [] rb1 pd2 = (Inr (), pd3)"
    "expects (bh_producer_epoch (kb_header (rb_batch rb1))) (t, p) (0 + ?n1) (pd_producers pd3 (bh_producer_id (kb_header (rb_batch rb1))))"
    "\<forall>i. pd_producers pd3 (bh_producer_id (kb_header (rb_batch rb1))) = Some i \<longrightarrow>
      pi_epoch i = bh_producer_epoch (kb_header (rb_batch rb1)) \<and> pi_transactional_id i = None"
    using accept_in_order [OF assms(8,10,13), of t p 0 pd2 "[]"] assms(9,15,17) pr by (auto simp: expects_def)
  obtain pd4 where "accept_batch cfg t p None [] rb2 pd3 = (Inr (), pd4)"
    using accept_in_order [of cfg rb2 t p ?n1 pd3 "[]"] assms(8,10,11,12,14,16,17) pd3(2,3) by auto
  moreover have "rb_base rb2 < rb_base rb1"
  proof -
    obtain ps2 m2 where m2: "rb_base rb2 = next_offset ps2" "m2 (t, p) = Some ps2" "no_rewind (pd_partitions pd) m2"
      "pd_partitions pd1 = m2((t, p) \<mapsto> ps2\<lparr>next_offset := uwrap 64 (next_offset ps2 + int (length (kb_records b2)))\<rparr>)"
      using reserve_offsets_run [OF assms(1)] assms(4) by auto
    have "get_or_create_partition_state env t p (pd_store pd, pd_partitions pd) = (Inr ps, pd_store pd, pd_partitions pd)"
      using assms(3) by (simp add: get_or_create_partition_state_def)
    then have base: "rb_base rb2 = next_offset ps"
      using assms(1) by (auto simp: reserve_offsets_def Let_def case_prod_beta split: if_splits option.splits)
    obtain ps1 m1 where m1: "rb_base rb1 = next_offset ps1" "m1 (t, p) = Some ps1" "no_rewind (pd_partitions pd1) m1"
      using reserve_offsets_run [OF assms(2)] by auto
    have "uwrap 64 (next_offset ps2 + int (length (kb_records b2))) \<le> next_offset ps1"
      using no_rewindD [OF m1(3) _ m1(2)] m2(4) by simp
    moreover have "uwrap 64 (next_offset ps2 + int (length (kb_records b2))) = next_offset ps2 + int (length (kb_records b2))"
      using assms(6,7) base m2(1) by (simp add: uwrap_id in_unsigned_def)
    moreover have "0 < int (length (kb_records b2))" using assms(5) by simp
    ultimately show ?thesis using m1(1) m2(1) by linarith
  qed
  ultimately show ?thesis using pd3(1) by blast
qed

theorem in_flight_batches_reordered_witness:
  "\<exists>rb1 rb2 pd1 pd2 pd3 pd4.
     reserve_offsets sample_env 4 plain_codecs ''orders'' 0 (idem_bytes 0 1) sample_handler = (Inr rb2, pd1) \<and>
     reserve_offsets sample_env 4 plain_codecs ''orders'' 0 (idem_bytes 1 0) pd1 = (Inr rb1, pd2) \<and>
     accept_batch sample_config ''orders'' 0 None [] rb1 pd2 = (Inr (), pd3) \<and>
     accept_batch sample_config ''orders'' 0 None [] rb2 pd3 = (Inr (), pd4) \<and> rb_base rb2 < rb_base rb1"
proof -
  let ?ps = "create_partition_state_with_offset 0"
  have p0: "pd_partitions sample_handler (''orders'', 0) = Some ?ps" "next_offset ?ps = 0"
    by (simp_all add: sample_handler_def create_partition_state_with_offset_def uwrap_def)
  obtain rb2 pd1 where r2: "reserve_offsets sample_env 4 plain_codecs ''orders'' 0 (idem_bytes 0 1) sample_handler = (Inr rb2, pd1)"
    "decode_produced 4 plain_codecs (idem_bytes 0 1) = Some (rb_batch rb2)" "length (kb_records (rb_batch rb2)) = 1"
    "bh_base_sequence (kb_header (rb_batch rb2)) = 1" "bh_producer_id (kb_header (rb_batch rb2)) = 7"
    "bh_producer_epoch (kb_header (rb_batch rb2)) = 0" "bh_attributes (kb_header (rb_batch rb2)) = 0"
    "pd1 = sample_handler\<lparr>pd_partitions := (pd_partitions sample_handler)((''orders'', 0) \<mapsto> ?ps\<lparr>next_offset := 0 + 1\<rparr>)\<rparr>"
    using idem_reserve [OF p0, of 1 4] sample_store by (auto simp: in_signed_def)
  have p1: "pd_partitions pd1 (''orders'', 0) = Some (?ps\<lparr>next_offset := 0 + 1\<rparr>)" "next_offset (?ps\<lparr>next_offset := 0 + 1\<rparr>) = 1"
    "get_partition_leader_epoch ''orders'' 0 (pd_store pd1) = None"
    using r2(8) sample_store by simp_all
  obtain rb1 pd2 where r1: "reserve_offsets sample_env 4 plain_codecs ''orders'' 0 (idem_bytes 1 0) pd1 = (Inr rb1, pd2)"
    "length (kb_records (rb_batch rb1)) = 1"
    "bh_base_sequence (kb_header (rb_batch rb1)) = 0" "bh_producer_id (kb_header (rb_batch rb1)) = 7"
    "bh_producer_epoch (kb_header (rb_batch rb1)) = 0" "bh_attributes (kb_header (rb_batch rb1)) = 0"
    using idem_reserve [OF p1(1,2), of 0 4] p1(3) by (auto simp: in_signed_def)
  have "kb_records (rb_batch rb2) \<noteq> []" using r2(3) by auto
  from in_flight_batches_reordered [OF r2(1) r1(1) p0(1) r2(2) this, of sample_config] show ?thesis
    using r1 r2(1,3-7) p0 by (auto simp: sample_config_def sample_handler_def is_control_batch_def)
qed

section \<open>Deposed leaders\<close>

lemma v2_batch_end_assign:
  assumes "8 \<le> length wire"
  shows "v2_batch_end (assign_base_offset base wire) = v2_batch_end wire"
proof -
  have "take 4 (drop 8 (assign_base_offset base wire)) = take 4 (drop 8 wire)" "length (assign_base_offset base wire) = length wire"
    using assms by (simp_all add: assign_base_offset_def)
  moreover have "assign_base_offset base wire ! 16 = wire ! 16" if "23 \<le> length wire"
    using that by (simp add: assign_base_offset_def nth_append)
  ultimately show ?thesis by (auto simp: v2_batch_end_def be_i32_at_def offset_defs Let_def)
qed

lemma read_stamped:
  assumes "v2_batch_end wire = Some n" and "0 \<le> ep" and "ep < 2 ^ 31"
  shows "\<exists>k stamped. stamp_leader_epoch ep wire = (k + 1, stamped) \<and> read_leader_epoch stamped = Some ep"
proof -
  have n: "21 \<le> n" "n \<le> length wire" "23 \<le> length wire" "wire ! 16 = 2"
    using assms(1) v2_batch_end_bounds [OF assms(1)] by (auto simp: v2_batch_end_def offset_defs Let_def split: if_splits)
  obtain k rest where r: "stamp_batches ep (drop n wire) = (k, rest)" by fastforce
  obtain bs tl where b: "batches_of (drop n wire) = (bs, tl)" by fastforce
  have "rest = concat (map (set_epoch ep) bs) @ tl" using stamp_batches_run [OF b, of ep] r by simp
  then have "length rest = length (concat bs @ tl)" using batches_of_concat [OF b] by (simp add: length_stamped)
  then have "length rest = length wire - n" using batches_of_concat [OF b] by (metis length_drop)
  then have s: "length (set_epoch ep (take n wire) @ rest) = length wire" using n by simp
  have "(set_epoch ep (take n wire) @ rest) ! 16 = 2"
    using n by (simp add: set_epoch_def offset_defs nth_append)
  moreover have "take 4 (drop 12 (set_epoch ep (take n wire) @ rest)) = be_bytes 4 ep"
    using n by (simp add: set_epoch_def offset_defs)
  ultimately have "read_leader_epoch (set_epoch ep (take n wire) @ rest) = Some ep"
    using n s assms(2,3) by (simp add: read_leader_epoch_def be_i32_at_def offset_defs be_sint_be_bytes_id in_signed_def)
  then show ?thesis
    using assms r by (simp add: stamp_leader_epoch_def stamp_batches.simps [of ep wire])
qed

text \<open>C39: a deposed leader writes with its successor's epoch. Within the time to live of its leadership cache, a node
  whose metadata already names another leader still takes itself for the leader, and the batches it stores carry
  the epoch of that other leader.
\<close>

theorem deposed_leader_stamps_new_epoch:
  assumes "pd_leaders pd (t, p) = Some (cfg_node_id cfg, cached_at)" and "now - cached_at < leadership_cache_ttl cfg"
    and "assignment_of (st_state (pd_store pd)) (t, uwrap 32 p) = Some a" and "pa_leader_id a \<noteq> cfg_node_id cfg"
    and "0 \<le> pa_leader_epoch a" and "pa_leader_epoch a < 2 ^ 31"
    and "pd_partitions pd (t, p) = Some ps" and "v2_batch_end data = Some n"
    and "reserve_offsets env fuel cs t p data (snd (check_leadership cfg now t p pd)) = (Inr rb, pd')"
  shows "fst (check_leadership cfg now t p pd) = (True, Some (cfg_node_id cfg)) \<and>
    read_leader_epoch (rb_bytes rb) = Some (pa_leader_epoch a)"
proof -
  have c: "check_leadership cfg now t p pd = ((True, Some (cfg_node_id cfg)), pd)"
    using assms(1,2) by (simp add: check_leadership_def)
  let ?bytes = "\<lambda>c. if c then data else assign_base_offset (swrap 64 (next_offset ps)) data"
  have v: "v2_batch_end (?bytes c) = Some n" for c
    using assms(8) v2_batch_end_bounds [OF assms(8)] by (simp add: v2_batch_end_assign)
  have "get_or_create_partition_state env t p (pd_store pd, pd_partitions pd) = (Inr ps, pd_store pd, pd_partitions pd)"
    using assms(7) by (simp add: get_or_create_partition_state_def)
  then obtain m where
    m: "rb_bytes rb = fst (stamp_and_record_leader_epoch t p (swrap 64 (next_offset ps))
      (?bytes (be_sint (take 8 data) = swrap 64 (next_offset ps))) (pd\<lparr>pd_partitions := m\<rparr>))"
    using assms(9) c by (auto simp: reserve_offsets_def Let_def case_prod_beta split: if_splits option.splits)
  let ?data = "?bytes (be_sint (take 8 data) = swrap 64 (next_offset ps))"
  obtain k stamped where st: "stamp_leader_epoch (pa_leader_epoch a) ?data = (k + 1, stamped)"
    "read_leader_epoch stamped = Some (pa_leader_epoch a)"
    using read_stamped [OF v assms(5,6)] by blast
  have "get_partition_leader_epoch t (uwrap 32 p) (pd_store (pd\<lparr>pd_partitions := m\<rparr>)) = Some (pa_leader_epoch a)"
    using assms(3) by (simp add: get_partition_leader_epoch_def)
  with m st assms(5) have "rb_bytes rb = stamped"
    by (simp only: stamp_and_record_leader_epoch_def option.case prod.case st(1)) simp
  then show ?thesis using c st(2) by simp
qed

definition deposed_handler :: "metadata_event produce_handler" where
  "deposed_handler = sample_handler\<lparr>pd_store := (new_store 1 False)\<lparr>st_state := (new_metadata_state 0)
     \<lparr>partition_assignments := [((''orders'', 0), \<lparr>pa_topic = ''orders'', pa_partition = 0, pa_broker_id = 2,
        pa_is_leader = True, pa_replicas = [1, 2], pa_leader_id = 2, pa_leader_epoch = 6, pa_isr = [2]\<rparr>)]\<rparr>\<rparr>\<rparr>"

theorem deposed_leader_stamps_new_epoch_witness:
  "\<exists>rb pd'. fst (check_leadership sample_config 130 ''orders'' 0 deposed_handler) = (True, Some 1) \<and>
    reserve_offsets sample_env 4 plain_codecs ''orders'' 0 (idem_bytes 0 0) deposed_handler = (Inr rb, pd') \<and>
    read_leader_epoch (rb_bytes rb) = Some 6"
proof -
  let ?ps = "create_partition_state_with_offset 0" and ?d = deposed_handler
  have d: "pd_leaders ?d (''orders'', 0) = Some (cfg_node_id sample_config, 100)" "130 - 100 < leadership_cache_ttl sample_config"
    "pd_partitions ?d (''orders'', 0) = Some ?ps"
    by (simp_all add: deposed_handler_def sample_handler_def sample_config_def)
  obtain a where a: "assignment_of (st_state (pd_store ?d)) (''orders'', uwrap 32 0) = Some a" "pa_leader_id a \<noteq> cfg_node_id sample_config"
    "0 \<le> pa_leader_epoch a" "pa_leader_epoch a < 2 ^ 31" "pa_leader_epoch a = 6"
    by (simp add: deposed_handler_def uwrap_def sample_config_def)
  obtain b where b: "decode_produced 4 plain_codecs (idem_bytes 0 0) = Some b" "8 \<le> length (idem_bytes 0 0)" "be_sint (take 8 (idem_bytes 0 0)) = 0"
    using idem_decode [of 0 0 4] by (auto simp: in_signed_def)
  have "next_offset ?ps = 0" by (simp add: create_partition_state_with_offset_def uwrap_def)
  then obtain rb pd' where r: "reserve_offsets sample_env 4 plain_codecs ''orders'' 0 (idem_bytes 0 0) ?d = (Inr rb, pd')"
    using b d(3) by (simp add: reserve_offsets_def get_or_create_partition_state_def Let_def swrap_def case_prod_beta)
  have c: "snd (check_leadership sample_config 130 ''orders'' 0 ?d) = ?d"
    using d(1,2) by (simp add: check_leadership_def)
  have v: "v2_batch_end (idem_bytes 0 0) = Some (length (idem_bytes 0 0))" by (rule idem_v2)
  show ?thesis
    using deposed_leader_stamps_new_epoch [OF d(1,2) a(1-4) d(3) v, of sample_env 4 plain_codecs rb pd'] r c a(5)
    by (auto simp: sample_config_def)
qed

end
