(* ===== verification/Raft_Quorum.thy ===== *)
theory Raft_Quorum
  imports Chronik_Prelude "HOL-Library.Multiset"
begin

text \<open>
  Quorums of the Raft library (\<open>raft/src/quorum/majority.rs\<close>, \<open>raft/src/quorum/joint.rs\<close>): the
  index a set of voters has committed, and the outcome of a vote. A hash set of voters is a list
  without repetitions, in the order in which the code iterates. Node ids, terms and log indexes are
  natural numbers: they grow by one at a time and do not reach the bound of their 64 bits.
\<close>

section \<open>Majorities\<close>

definition U64_MAX :: nat where "U64_MAX = 18446744073709551615"

definition majority :: "nat \<Rightarrow> nat" where
  "majority n = n div 2 + 1"

record acked_index =
  ix_index :: nat
  ix_group_id :: nat

type_synonym acked_indexer = "nat \<Rightarrow> acked_index option"

definition default_index :: acked_index where
  "default_index = \<lparr>ix_index = 0, ix_group_id = 0\<rparr>"

definition matched_indexes :: "acked_indexer \<Rightarrow> nat list \<Rightarrow> acked_index list" where
  "matched_indexes l voters =
     sort_key (\<lambda>m. - int (ix_index m)) (map (\<lambda>v. case l v of Some m \<Rightarrow> m | None \<Rightarrow> default_index) voters)"

text \<open>The loop over the matched indexes when group commit is on: the index of the first voter of a second
  group, or whether every voter had a group.\<close>

fun scan_groups :: "nat \<Rightarrow> bool \<Rightarrow> acked_index list \<Rightarrow> nat + bool" where
  "scan_groups checked single_group [] = Inr single_group"
| "scan_groups checked single_group (m # ms) =
     (if ix_group_id m = 0 then scan_groups checked False ms
      else if checked = 0 then scan_groups (ix_group_id m) single_group ms
      else if checked = ix_group_id m then scan_groups checked single_group ms
      else Inl (ix_index m))"

definition majority_committed_index :: "nat list \<Rightarrow> bool \<Rightarrow> acked_indexer \<Rightarrow> nat \<times> bool" where
  "majority_committed_index voters use_group_commit l =
     (if voters = [] then (U64_MAX, True)
      else
        let matched = matched_indexes l voters;
            quorum_index = matched ! (majority (length matched) - 1)
        in if \<not> use_group_commit then (ix_index quorum_index, False)
           else
             (case scan_groups (ix_group_id quorum_index) True matched of
                Inl i \<Rightarrow> (min i (ix_index quorum_index), True)
              | Inr True \<Rightarrow> (ix_index quorum_index, False)
              | Inr False \<Rightarrow> (ix_index (last matched), False)))"

datatype vote_result = Vote_Pending | Vote_Lost | Vote_Won

definition majority_vote_result :: "nat list \<Rightarrow> (nat \<Rightarrow> bool option) \<Rightarrow> vote_result" where
  "majority_vote_result voters check =
     (if voters = [] then Vote_Won
      else
        let yes = length (filter (\<lambda>v. check v = Some True) voters);
            missing = length (filter (\<lambda>v. check v = None) voters);
            q = majority (length voters)
        in if q \<le> yes then Vote_Won
           else if q \<le> yes + missing then Vote_Pending
           else Vote_Lost)"

section \<open>Joint configurations\<close>

record joint_config =
  incoming :: "nat list"
  outgoing :: "nat list"

definition joint_committed_index :: "joint_config \<Rightarrow> bool \<Rightarrow> acked_indexer \<Rightarrow> nat \<times> bool" where
  "joint_committed_index jc use_group_commit l =
     (let (i_idx, i_use_gc) = majority_committed_index (incoming jc) use_group_commit l;
          (o_idx, o_use_gc) = majority_committed_index (outgoing jc) use_group_commit l
      in (min i_idx o_idx, i_use_gc \<and> o_use_gc))"

definition joint_vote_result :: "joint_config \<Rightarrow> (nat \<Rightarrow> bool option) \<Rightarrow> vote_result" where
  "joint_vote_result jc check =
     (case (majority_vote_result (incoming jc) check, majority_vote_result (outgoing jc) check) of
        (Vote_Won, Vote_Won) \<Rightarrow> Vote_Won
      | (Vote_Lost, _) \<Rightarrow> Vote_Lost
      | (_, Vote_Lost) \<Rightarrow> Vote_Lost
      | _ \<Rightarrow> Vote_Pending)"

definition joint_is_singleton :: "joint_config \<Rightarrow> bool" where
  "joint_is_singleton jc \<longleftrightarrow> outgoing jc = [] \<and> length (incoming jc) = 1"

definition union_list :: "nat list \<Rightarrow> nat list \<Rightarrow> nat list" where
  "union_list xs ys = xs @ filter (\<lambda>y. y \<notin> set xs) ys"

definition joint_ids :: "joint_config \<Rightarrow> nat list" where
  "joint_ids jc = union_list (incoming jc) (outgoing jc)"

definition joint_contains :: "joint_config \<Rightarrow> nat \<Rightarrow> bool" where
  "joint_contains jc v \<longleftrightarrow> v \<in> set (incoming jc) \<or> v \<in> set (outgoing jc)"

section \<open>What the quorums mean\<close>

text \<open>
  Specification side: a majority of voters satisfies a predicate; both halves of a joint configuration do, where an
  empty half asks for nothing.
\<close>

definition most :: "nat list \<Rightarrow> (nat \<Rightarrow> bool) \<Rightarrow> bool" where
  "most voters P \<longleftrightarrow> voters = [] \<or> length voters < 2 * length (filter P voters)"

definition joint_most :: "joint_config \<Rightarrow> (nat \<Rightarrow> bool) \<Rightarrow> bool" where
  "joint_most jc P \<longleftrightarrow> most (incoming jc) P \<and> most (outgoing jc) P"

lemma joint_ids_contains: "v \<in> set (joint_ids jc) \<longleftrightarrow> joint_contains jc v"
  by (auto simp: joint_ids_def union_list_def joint_contains_def)

lemma majority_le: "majority n \<le> k \<longleftrightarrow> n < 2 * k"
  by (auto simp: majority_def)

lemma majority_vote_won: "majority_vote_result voters check = Vote_Won \<longleftrightarrow> most voters (\<lambda>v. check v = Some True)"
  by (simp add: majority_vote_result_def most_def majority_le Let_def)

lemma joint_vote_won: "joint_vote_result jc check = Vote_Won \<longleftrightarrow> joint_most jc (\<lambda>v. check v = Some True)"
  unfolding joint_vote_result_def joint_most_def majority_vote_won [symmetric]
  by (auto split: vote_result.splits)

lemma most_mono: "\<lbrakk>most voters P; \<And>v. P v \<Longrightarrow> Q v\<rbrakk> \<Longrightarrow> most voters Q"
proof -
  assume a: "most voters P" "\<And>v. P v \<Longrightarrow> Q v"
  have "length (filter P voters) \<le> length (filter Q voters)" using a(2) by (induction voters) auto
  with a(1) show ?thesis by (auto simp: most_def)
qed

lemma filter_both_nonempty:
  assumes "length voters < length (filter P voters) + length (filter Q voters)"
  shows "\<exists>v \<in> set voters. P v \<and> Q v"
proof (rule ccontr)
  assume "\<not> ?thesis"
  then have "length (filter P voters) + length (filter Q voters) \<le> length voters"
    by (induction voters) auto
  with assms show False by simp
qed

lemma most_intersect: "\<lbrakk>most voters P; most voters Q; voters \<noteq> []\<rbrakk> \<Longrightarrow> \<exists>v \<in> set voters. P v \<and> Q v"
  by (rule filter_both_nonempty) (auto simp: most_def)

lemma joint_most_intersect:
  assumes "joint_most jc P" and "joint_most jc Q" and "incoming jc \<noteq> []"
  shows "\<exists>v. joint_contains jc v \<and> P v \<and> Q v"
  using most_intersect [of "incoming jc" P Q] assms by (auto simp: joint_most_def joint_contains_def)


lemma sorted_desc_nth:
  assumes "sorted (map (\<lambda>m. - int (f m)) xs)" and "k < length xs"
  shows "n \<le> f (xs ! k) \<longleftrightarrow> k < length (filter (\<lambda>m. n \<le> f m) xs)"
  using assms
proof (induction xs arbitrary: k)
  case (Cons x xs)
  then have le: "\<forall>y \<in> set xs. f y \<le> f x" by auto
  show ?case
  proof (cases "n \<le> f x")
    case True
    with Cons show ?thesis by (cases k) auto
  next
    case False
    with le have "filter (\<lambda>m. n \<le> f m) xs = []" by (auto simp: filter_empty_conv)
    moreover have "\<not> n \<le> f ((x # xs) ! k)"
      using False le Cons.prems(2) by (cases k) (auto dest!: bspec [OF _ nth_mem])
    ultimately show ?thesis using False by simp
  qed
qed simp

lemma length_filter_sort_key: "length (filter P (sort_key f xs)) = length (filter P xs)"
proof -
  have "mset (filter P (sort_key f xs)) = mset (filter P xs)" by simp
  then show ?thesis by (rule mset_eq_length)
qed

text \<open>The acknowledged index of a voter, zero when there is none.\<close>

definition acked :: "acked_indexer \<Rightarrow> nat \<Rightarrow> nat" where
  "acked l v = (case l v of Some m \<Rightarrow> ix_index m | None \<Rightarrow> 0)"

lemma majority_committed:
  assumes "n \<le> U64_MAX"
  shows "n \<le> fst (majority_committed_index voters False l) \<longleftrightarrow> most voters (\<lambda>v. n \<le> acked l v)"
proof (cases "voters = []")
  case False
  let ?m = "matched_indexes l voters"
  let ?k = "majority (length ?m) - 1"
  have len: "length ?m = length voters" by (simp add: matched_indexes_def)
  then have k: "?k < length ?m" using False by (simp add: majority_def)
  have "sorted (map (\<lambda>m. - int (ix_index m)) ?m)" by (simp add: matched_indexes_def)
  then have "n \<le> ix_index (?m ! ?k) \<longleftrightarrow> ?k < length (filter (\<lambda>m. n \<le> ix_index m) ?m)"
    by (rule sorted_desc_nth) (rule k)
  also have "length (filter (\<lambda>m. n \<le> ix_index m) ?m) = length (filter (\<lambda>v. n \<le> acked l v) voters)"
    unfolding matched_indexes_def length_filter_sort_key filter_map length_map
    by (rule arg_cong [where f = length], rule filter_cong) (auto simp: acked_def default_index_def split: option.splits)
  finally show ?thesis
    using False len by (auto simp: majority_committed_index_def most_def Let_def majority_def)
qed (use assms in \<open>simp add: majority_committed_index_def most_def\<close>)

text \<open>Group commit only ever holds an index back.\<close>

lemma scan_groups_member: "scan_groups c s ms = Inl i \<Longrightarrow> i \<in> ix_index ` set ms"
  by (induction c s ms rule: scan_groups.induct) (auto split: if_splits)

lemma group_commit_below:
  "fst (majority_committed_index voters True l) \<le> fst (majority_committed_index voters False l)"
proof (cases "voters = []")
  case False
  let ?m = "matched_indexes l voters"
  let ?k = "majority (length ?m) - 1"
  have "length ?m = length voters" by (simp add: matched_indexes_def)
  then have "?m \<noteq> []" using False by auto
  then have k: "?k < length ?m" by (cases ?m) (auto simp: majority_def)
  have "sorted (map (\<lambda>m. - int (ix_index m)) ?m)" by (simp add: matched_indexes_def)
  then have "- int (ix_index (?m ! ?k)) \<le> - int (ix_index (?m ! (length ?m - 1)))"
    using k sorted_nth_mono [of "map (\<lambda>m. - int (ix_index m)) ?m" ?k "length ?m - 1"] by auto
  then have "ix_index (last ?m) \<le> ix_index (?m ! ?k)" using \<open>?m \<noteq> []\<close> by (simp add: last_conv_nth)
  then show ?thesis
    using False by (auto simp: majority_committed_index_def Let_def split: sum.split bool.split)
qed (simp add: majority_committed_index_def)

text \<open>C24: the committed index is exact. Without group commit, an index is at most the index a joint configuration
  commits if and only if a majority of each of its halves has acknowledged it.
\<close>

theorem joint_committed_exact:
  assumes "n \<le> U64_MAX"
  shows "n \<le> fst (joint_committed_index jc False l) \<longleftrightarrow> joint_most jc (\<lambda>v. n \<le> acked l v)"
  using assms by (simp add: joint_committed_index_def joint_most_def case_prod_beta majority_committed)

definition sample_acks :: acked_indexer where
  "sample_acks = [1 \<mapsto> \<lparr>ix_index = 5, ix_group_id = 0\<rparr>, 2 \<mapsto> \<lparr>ix_index = 4, ix_group_id = 0\<rparr>, 4 \<mapsto> \<lparr>ix_index = 9, ix_group_id = 0\<rparr>,
     3 \<mapsto> \<lparr>ix_index = 2, ix_group_id = 0\<rparr>]"

theorem joint_committed_exact_witness:
  "2 \<le> U64_MAX \<and> 2 \<le> fst (joint_committed_index \<lparr>incoming = [1, 2, 3], outgoing = [3, 4]\<rparr> False sample_acks) \<and>
   \<not> 3 \<le> fst (joint_committed_index \<lparr>incoming = [1, 2, 3], outgoing = [3, 4]\<rparr> False sample_acks)"
  using joint_committed_exact [of 2 "\<lparr>incoming = [1, 2, 3], outgoing = [3, 4]\<rparr>" sample_acks]
    joint_committed_exact [of 3 "\<lparr>incoming = [1, 2, 3], outgoing = [3, 4]\<rparr>" sample_acks]
  by (simp add: U64_MAX_def joint_most_def most_def acked_def sample_acks_def)

end
