(* ===== verification/Raft_Inflights.thy ===== *)
theory Raft_Inflights
  imports Chronik_Prelude
begin

text \<open>
  The window of in-flight messages of a follower (\<open>raft/src/tracker/inflights.rs\<close>): a ring buffer whose
  capacity can change while it is in use. A panic is \<^term>\<open>None\<close>. The capacity of the vector behind the
  buffer is not part of the state: the code only tests whether it is zero, and the vector is empty then.
\<close>

section \<open>The ring buffer\<close>

record inflights =
  if_start :: nat
  if_count :: nat
  if_buffer :: "nat list"
  if_cap :: nat
  if_incoming_cap :: "nat option"

definition new_inflights :: "nat \<Rightarrow> inflights" where
  "new_inflights cap = \<lparr>if_start = 0, if_count = 0, if_buffer = [], if_cap = cap, if_incoming_cap = None\<rparr>"

definition set_cap :: "nat \<Rightarrow> inflights \<Rightarrow> inflights option" where
  "set_cap c i =
     (if if_cap i = c then Some (i\<lparr>if_incoming_cap := None\<rparr>)
      else if if_cap i < c then
        if if_start i + if_count i \<le> if_cap i then Some (i\<lparr>if_cap := c, if_incoming_cap := None\<rparr>)
        else if if_start i \<le> length (if_buffer i) \<and> if_start i \<le> if_cap i \<and>
                if_count i - (if_cap i - if_start i) \<le> length (if_buffer i)
        then Some (i\<lparr>if_buffer := drop (if_start i) (if_buffer i) @ take (if_count i - (if_cap i - if_start i)) (if_buffer i),
                     if_start := 0, if_cap := c, if_incoming_cap := None\<rparr>)
        else None
      else if if_count i = 0 then
        Some (i\<lparr>if_cap := c, if_incoming_cap := None, if_start := 0, if_buffer := []\<rparr>)
      else Some (i\<lparr>if_incoming_cap := Some c\<rparr>))"

definition full :: "inflights \<Rightarrow> bool" where
  "full i \<longleftrightarrow> if_count i = if_cap i \<or> (case if_incoming_cap i of Some c \<Rightarrow> c \<le> if_count i | None \<Rightarrow> False)"

definition add_inflight :: "nat \<Rightarrow> inflights \<Rightarrow> inflights option" where
  "add_inflight x i =
     (if full i then None
      else
        let n = if_start i + if_count i;
            nxt = (if if_cap i \<le> n then n - if_cap i else n)
        in if length (if_buffer i) < nxt then None
           else Some (i\<lparr>if_buffer := (if nxt = length (if_buffer i) then if_buffer i @ [x] else (if_buffer i)[nxt := x]),
                        if_count := if_count i + 1\<rparr>))"

text \<open>The loop of \<open>free_to\<close> over the remaining messages: how many are freed, and the index after them.\<close>

fun free_scan :: "nat list \<Rightarrow> nat \<Rightarrow> nat \<Rightarrow> nat \<Rightarrow> nat \<Rightarrow> (nat \<times> nat) option" where
  "free_scan buffer cap to 0 idx = Some (0, idx)"
| "free_scan buffer cap to (Suc n) idx =
     (if length buffer \<le> idx then None
      else if to < buffer ! idx then Some (0, idx)
      else map_option (\<lambda>(i, j). (i + 1, j)) (free_scan buffer cap to n (if cap \<le> idx + 1 then idx + 1 - cap else idx + 1)))"

definition free_to :: "nat \<Rightarrow> inflights \<Rightarrow> inflights option" where
  "free_to to i =
     (if if_count i = 0 then Some i
      else if length (if_buffer i) \<le> if_start i then None
      else if to < if_buffer i ! if_start i then Some i
      else
        (case free_scan (if_buffer i) (if_cap i) to (if_count i) (if_start i) of
           None \<Rightarrow> None
         | Some (freed, idx) \<Rightarrow>
             let i1 = i\<lparr>if_count := if_count i - freed, if_start := idx\<rparr>
             in Some (case (if_count i1 = 0, if_incoming_cap i1) of
                  (True, Some c) \<Rightarrow> i1\<lparr>if_incoming_cap := None, if_start := 0, if_cap := c, if_buffer := []\<rparr>
                | _ \<Rightarrow> i1)))"

definition free_first_one :: "inflights \<Rightarrow> inflights option" where
  "free_first_one i =
     (if 0 < if_count i
      then if length (if_buffer i) \<le> if_start i then None else free_to (if_buffer i ! if_start i) i
      else Some i)"

definition reset_inflights :: "inflights \<Rightarrow> inflights" where
  "reset_inflights i = i\<lparr>if_count := 0, if_start := 0, if_buffer := [],
     if_cap := (case if_incoming_cap i of Some c \<Rightarrow> c | None \<Rightarrow> if_cap i), if_incoming_cap := None\<rparr>"

definition maybe_free_buffer :: "inflights \<Rightarrow> inflights" where
  "maybe_free_buffer i = (if if_count i = 0 then i\<lparr>if_start := 0, if_buffer := []\<rparr> else i)"

section \<open>The queue it implements\<close>

text \<open>
  Specification side: a queue with a capacity and, while it is being shrunk, the capacity it gets once it is empty.
\<close>

record window =
  ws_items :: "nat list"
  ws_cap :: nat
  ws_next_cap :: "nat option"

definition window_full :: "window \<Rightarrow> bool" where
  "window_full w \<longleftrightarrow> length (ws_items w) = ws_cap w \<or>
     (case ws_next_cap w of Some c \<Rightarrow> c \<le> length (ws_items w) | None \<Rightarrow> False)"

definition window_shrink :: "window \<Rightarrow> window" where
  "window_shrink w = w\<lparr>ws_cap := (case ws_next_cap w of Some c \<Rightarrow> c | None \<Rightarrow> ws_cap w), ws_next_cap := None\<rparr>"

definition window_set_cap :: "nat \<Rightarrow> window \<Rightarrow> window" where
  "window_set_cap c w =
     (if ws_items w = [] \<or> ws_cap w \<le> c then w\<lparr>ws_cap := c, ws_next_cap := None\<rparr>
      else w\<lparr>ws_next_cap := Some c\<rparr>)"

definition window_free_to :: "nat \<Rightarrow> window \<Rightarrow> window" where
  "window_free_to to w =
     (let w1 = w\<lparr>ws_items := dropWhile (\<lambda>x. x \<le> to) (ws_items w)\<rparr>
      in if ws_items w \<noteq> [] \<and> ws_items w1 = [] then window_shrink w1 else w1)"

definition slot :: "inflights \<Rightarrow> nat \<Rightarrow> nat" where
  "slot i k = (if if_cap i \<le> if_start i + k then if_start i + k - if_cap i else if_start i + k)"

definition window_of :: "inflights \<Rightarrow> window" where
  "window_of i = \<lparr>ws_items = map (\<lambda>k. if_buffer i ! slot i k) [0..<if_count i], ws_cap = if_cap i, ws_next_cap = if_incoming_cap i\<rparr>"

text \<open>The shape of the buffer: it holds every slot in use, and once the window wraps around it is as long as the capacity.\<close>

definition inflights_wf :: "inflights \<Rightarrow> bool" where
  "inflights_wf i \<longleftrightarrow> if_count i \<le> if_cap i \<and> length (if_buffer i) \<le> if_cap i \<and>
     (if_start i < if_cap i \<or> if_start i = 0) \<and>
     (if_start i + if_count i \<le> length (if_buffer i) \<or> length (if_buffer i) = if_cap i) \<and>
     (case if_incoming_cap i of Some c \<Rightarrow> c < if_cap i \<and> 0 < if_count i | None \<Rightarrow> True)"

lemma slot_bound: "\<lbrakk>inflights_wf i; k < if_count i\<rbrakk> \<Longrightarrow> slot i k < length (if_buffer i)"
  by (auto simp: inflights_wf_def slot_def split: option.splits)

lemma window_of_sel [simp]:
  "ws_cap (window_of i) = if_cap i" "ws_next_cap (window_of i) = if_incoming_cap i"
  "length (ws_items (window_of i)) = if_count i" "ws_items (window_of i) = [] \<longleftrightarrow> if_count i = 0"
  by (simp_all add: window_of_def)

lemma full_window: "full i \<longleftrightarrow> window_full (window_of i)"
  by (simp add: full_def window_full_def split: option.split)

lemma new_refines: "inflights_wf (new_inflights cap)" "window_of (new_inflights cap) = \<lparr>ws_items = [], ws_cap = cap, ws_next_cap = None\<rparr>"
  by (simp_all add: new_inflights_def inflights_wf_def window_of_def)

lemma reset_refines:
  assumes "inflights_wf i"
  shows "inflights_wf (reset_inflights i)" "window_of (reset_inflights i) = window_shrink (window_of i\<lparr>ws_items := []\<rparr>)"
  using assms by (auto simp: reset_inflights_def inflights_wf_def window_of_def window_shrink_def split: option.splits)

lemma free_buffer_refines:
  assumes "inflights_wf i"
  shows "inflights_wf (maybe_free_buffer i)" "window_of (maybe_free_buffer i) = window_of i"
  using assms by (auto simp: maybe_free_buffer_def inflights_wf_def window_of_def split: option.splits)

lemma add_refines:
  assumes "inflights_wf i" and "\<not> full i"
  obtains j where "add_inflight x i = Some j" "inflights_wf j"
    "window_of j = (window_of i)\<lparr>ws_items := ws_items (window_of i) @ [x]\<rparr>"
proof -
  let ?n = "slot i (if_count i)"
  let ?b = "if ?n = length (if_buffer i) then if_buffer i @ [x] else (if_buffer i)[?n := x]"
  let ?j = "i\<lparr>if_buffer := ?b, if_count := if_count i + 1\<rparr>"
  have lt: "if_count i < if_cap i" using assms by (auto simp: full_def inflights_wf_def)
  have le: "?n \<le> length (if_buffer i)" using assms(1) lt by (auto simp: inflights_wf_def slot_def)
  then have j: "add_inflight x i = Some ?j"
    using assms(2) by (simp add: add_inflight_def slot_def Let_def)
  have wf: "inflights_wf ?j"
    using assms(1) lt by (auto simp: inflights_wf_def slot_def split: option.splits)
  have "?b ! slot i k = if_buffer i ! slot i k" if k: "k < if_count i" for k
  proof -
    have "slot i k \<noteq> ?n" using k lt assms(1) by (auto simp: slot_def inflights_wf_def)
    then show ?thesis using slot_bound [OF assms(1) k] by (auto simp: nth_append)
  qed
  moreover have "?b ! ?n = x" using le by (auto simp: nth_append)
  moreover have "slot ?j k = slot i k" for k by (simp add: slot_def)
  ultimately have "window_of ?j = (window_of i)\<lparr>ws_items := ws_items (window_of i) @ [x]\<rparr>"
    by (simp add: window_of_def)
  with j wf show ?thesis by (rule that)
qed


lemma slot_Suc:
  assumes "inflights_wf i" and "k < if_count i"
  shows "(if if_cap i \<le> slot i k + 1 then slot i k + 1 - if_cap i else slot i k + 1) = slot i (k + 1)"
  using assms by (auto simp: slot_def inflights_wf_def)

lemma free_scan_run:
  fixes to :: nat
  assumes "inflights_wf i" and "k + n = if_count i"
  defines "f \<equiv> length (takeWhile (\<lambda>x. x \<le> to) (map (\<lambda>j. if_buffer i ! slot i j) [k..<if_count i]))"
  shows "free_scan (if_buffer i) (if_cap i) to n (slot i k) = Some (f, slot i (k + f))"
  using assms(2) unfolding f_def
proof (induction n arbitrary: k)
  case (Suc n)
  then have k: "k < if_count i" by simp
  then have "[k..<if_count i] = k # [k + 1..<if_count i]" by (simp add: upt_conv_Cons)
  moreover have "free_scan (if_buffer i) (if_cap i) to n (slot i (k + 1)) =
      Some (length (takeWhile (\<lambda>x. x \<le> to) (map (\<lambda>j. if_buffer i ! slot i j) [k + 1..<if_count i])),
        slot i (k + 1 + length (takeWhile (\<lambda>x. x \<le> to) (map (\<lambda>j. if_buffer i ! slot i j) [k + 1..<if_count i]))))"
    using Suc.prems by (intro Suc.IH) simp
  ultimately show ?case
    using slot_bound [OF assms(1) k] slot_Suc [OF assms(1) k] by (simp add: not_less)
qed simp

lemma freed_window:
  assumes "inflights_wf i" and "f \<le> if_count i"
  defines "j \<equiv> i\<lparr>if_count := if_count i - f, if_start := slot i f\<rparr>"
  shows "ws_items (window_of j) = drop f (ws_items (window_of i))"
    and "if_count i - f \<noteq> 0 \<or> if_incoming_cap i = None \<Longrightarrow> inflights_wf j"
proof -
  have "slot j k = slot i (f + k)" if "f + k < if_count i" for k
    using assms(1) that by (auto simp: j_def slot_def inflights_wf_def)
  then have "map (\<lambda>k. if_buffer i ! slot j k) [0..<if_count i - f] = map (\<lambda>k. if_buffer i ! slot i (f + k)) [0..<if_count i - f]"
    by (intro map_cong) auto
  also have "\<dots> = map (\<lambda>k. if_buffer i ! slot i k) [f..<if_count i]"
    using assms(2) by (intro nth_equalityI) auto
  finally show "ws_items (window_of j) = drop f (ws_items (window_of i))"
    by (simp add: j_def window_of_def drop_map)
  show "inflights_wf j" if "if_count i - f \<noteq> 0 \<or> if_incoming_cap i = None"
    using assms(1,2) that by (auto simp: j_def inflights_wf_def slot_def split: option.splits)
qed

lemma free_to_refines:
  assumes "inflights_wf i"
  obtains j where "free_to to i = Some j" "inflights_wf j" "window_of j = window_free_to to (window_of i)"
proof (cases "if_count i = 0")
  case True
  then have "window_free_to to (window_of i) = window_of i" by (simp add: window_free_to_def window_of_def Let_def)
  with True assms show ?thesis by (intro that [of i]) (simp_all add: free_to_def)
next
  case False
  let ?xs = "ws_items (window_of i)"
  define f where "f = length (takeWhile (\<lambda>x. x \<le> to) ?xs)"
  have s: "slot i 0 = if_start i" "if_start i < length (if_buffer i)"
    using assms False slot_bound [OF assms, of 0] by (auto simp: slot_def inflights_wf_def)
  have xs: "?xs = if_buffer i ! if_start i # map (\<lambda>k. if_buffer i ! slot i k) [1..<if_count i]"
    using False s by (simp add: window_of_def upt_conv_Cons)
  show ?thesis
  proof (cases "to < if_buffer i ! if_start i")
    case True
    then have "window_free_to to (window_of i) = window_of i" by (simp add: window_free_to_def xs Let_def)
    with True False s assms show ?thesis by (intro that [of i]) (simp_all add: free_to_def)
  next
    case le: False
    have "free_scan (if_buffer i) (if_cap i) to (if_count i) (if_start i) = Some (f, slot i f)"
      using free_scan_run [OF assms, of 0 "if_count i" to] s by (simp add: f_def window_of_def)
    moreover define i1 where "i1 = i\<lparr>if_count := if_count i - f, if_start := slot i f\<rparr>"
    ultimately have run: "free_to to i = Some (case (if_count i1 = 0, if_incoming_cap i1) of
        (True, Some c) \<Rightarrow> i1\<lparr>if_incoming_cap := None, if_start := 0, if_cap := c, if_buffer := []\<rparr> | _ \<Rightarrow> i1)"
      using False le s by (simp add: free_to_def Let_def split: bool.split option.split)
    have "f \<le> if_count i" using length_takeWhile_le [of _ ?xs] by (simp add: f_def)
    note w = freed_window [OF assms this, folded i1_def]
    have d: "ws_items (window_of i1) = dropWhile (\<lambda>x. x \<le> to) ?xs" using w(1) by (simp add: f_def dropWhile_eq_drop)
    have spec: "window_free_to to (window_of i) = (if if_count i1 = 0 then window_shrink (window_of i1) else window_of i1)"
    proof -
      have "(window_of i)\<lparr>ws_items := ws_items (window_of i1)\<rparr> = window_of i1" by (simp add: window_of_def i1_def)
      then show ?thesis using False d window_of_sel(4) [of i1] by (simp add: window_free_to_def Let_def)
    qed
    show ?thesis
    proof (cases "if_count i1 = 0 \<and> if_incoming_cap i1 \<noteq> None")
      case True
      then obtain c where c: "if_incoming_cap i1 = Some c" by blast
      let ?j = "i1\<lparr>if_incoming_cap := None, if_start := 0, if_cap := c, if_buffer := []\<rparr>"
      have "window_of ?j = window_shrink (window_of i1)" using True c by (simp add: window_of_def window_shrink_def)
      moreover have "inflights_wf ?j" using True by (simp add: inflights_wf_def)
      ultimately show ?thesis using True c spec run by (intro that [of ?j]) simp_all
    next
      case no: False
      then have "window_free_to to (window_of i) = window_of i1" using spec by (auto simp: window_shrink_def window_of_def)
      moreover have "inflights_wf i1" using w(2) no by (auto simp: i1_def)
      moreover have "free_to to i = Some i1" using run no by (auto split: option.splits bool.splits)
      ultimately show ?thesis by (intro that [of i1]) simp_all
    qed
  qed
qed

lemma set_cap_refines:
  assumes "inflights_wf i"
  obtains j where "set_cap c i = Some j" "inflights_wf j" "window_of j = window_set_cap c (window_of i)"
proof (cases "if_cap i < c \<and> if_cap i < if_start i + if_count i")
  case True
  let ?b = "drop (if_start i) (if_buffer i) @ take (if_count i - (if_cap i - if_start i)) (if_buffer i)"
  let ?j = "i\<lparr>if_buffer := ?b, if_start := 0, if_cap := c, if_incoming_cap := None\<rparr>"
  have b: "length (if_buffer i) = if_cap i" "if_start i < if_cap i" "if_count i \<le> if_cap i"
    using assms True by (auto simp: inflights_wf_def)
  then have "set_cap c i = Some ?j" using True by (simp add: set_cap_def)
  moreover have "inflights_wf ?j" using True b by (auto simp: inflights_wf_def)
  moreover have "map (\<lambda>k. ?b ! slot ?j k) [0..<if_count i] = map (\<lambda>k. if_buffer i ! slot i k) [0..<if_count i]"
    using True b by (intro map_cong) (auto simp: slot_def nth_append add.commute)
  then have "window_of ?j = window_set_cap c (window_of i)"
    using True by (simp add: window_of_def window_set_cap_def)
  ultimately show ?thesis by (rule that)
next
  case False
  show ?thesis
  proof (cases "if_cap i < c")
    case True
    let ?j = "i\<lparr>if_cap := c, if_incoming_cap := None\<rparr>"
    have "set_cap c i = Some ?j" using True False by (simp add: set_cap_def)
    moreover have "inflights_wf ?j" using assms True False by (auto simp: inflights_wf_def)
    moreover have "map (\<lambda>k. if_buffer i ! slot ?j k) [0..<if_count i] = map (\<lambda>k. if_buffer i ! slot i k) [0..<if_count i]"
      using True False by (intro map_cong) (auto simp: slot_def)
    then have "window_of ?j = window_set_cap c (window_of i)"
      using True by (simp add: window_of_def window_set_cap_def)
    ultimately show ?thesis by (rule that)
  next
    case ge: False
    then show ?thesis
      using assms
      by (intro that [of "if if_cap i = c then i\<lparr>if_incoming_cap := None\<rparr>
            else if if_count i = 0 then i\<lparr>if_cap := c, if_incoming_cap := None, if_start := 0, if_buffer := []\<rparr>
            else i\<lparr>if_incoming_cap := Some c\<rparr>"])
        (auto simp: set_cap_def inflights_wf_def window_of_def window_set_cap_def slot_def split: option.splits)
  qed
qed


section \<open>Runs\<close>

datatype window_op = Op_add nat | Op_free_to nat | Op_free_first | Op_reset | Op_set_cap nat | Op_free_buffer

text \<open>
  An operation on the buffer, as its clients call it: a message is only added to a window that is not full
  (\<open>is_paused\<close> in \<open>raft/src/tracker/progress.rs\<close>).
\<close>

definition run_op :: "window_op \<Rightarrow> inflights \<Rightarrow> inflights option" where
  "run_op p i =
     (case p of
        Op_add x \<Rightarrow> if full i then Some i else add_inflight x i
      | Op_free_to to \<Rightarrow> free_to to i
      | Op_free_first \<Rightarrow> free_first_one i
      | Op_reset \<Rightarrow> Some (reset_inflights i)
      | Op_set_cap c \<Rightarrow> set_cap c i
      | Op_free_buffer \<Rightarrow> Some (maybe_free_buffer i))"

definition spec_op :: "window_op \<Rightarrow> window \<Rightarrow> window" where
  "spec_op p w =
     (case p of
        Op_add x \<Rightarrow> if window_full w then w else w\<lparr>ws_items := ws_items w @ [x]\<rparr>
      | Op_free_to to \<Rightarrow> window_free_to to w
      | Op_free_first \<Rightarrow> (case ws_items w of [] \<Rightarrow> w | x # _ \<Rightarrow> window_free_to x w)
      | Op_reset \<Rightarrow> window_shrink (w\<lparr>ws_items := []\<rparr>)
      | Op_set_cap c \<Rightarrow> window_set_cap c w
      | Op_free_buffer \<Rightarrow> w)"

fun run_ops :: "window_op list \<Rightarrow> inflights \<Rightarrow> inflights option" where
  "run_ops [] i = Some i"
| "run_ops (p # ps) i = (case run_op p i of None \<Rightarrow> None | Some j \<Rightarrow> run_ops ps j)"

lemma free_first_refines:
  assumes "inflights_wf i"
  shows "\<exists>j. free_first_one i = Some j \<and> inflights_wf j \<and> window_of j = spec_op Op_free_first (window_of i)"
proof (cases "if_count i = 0")
  case True
  then show ?thesis using assms by (simp add: free_first_one_def spec_op_def window_of_def)
next
  case False
  then have "ws_items (window_of i) = if_buffer i ! if_start i # map (\<lambda>k. if_buffer i ! slot i k) [1..<if_count i]"
    "if_start i < length (if_buffer i)"
    using assms slot_bound [OF assms, of 0] by (auto simp: window_of_def upt_conv_Cons slot_def inflights_wf_def)
  then show ?thesis
    using False free_to_refines [OF assms, of "if_buffer i ! if_start i"]
    by (auto simp: free_first_one_def spec_op_def)
qed

lemma run_op_refines:
  assumes "inflights_wf i"
  shows "\<exists>j. run_op p i = Some j \<and> inflights_wf j \<and> window_of j = spec_op p (window_of i)"
proof (cases p)
  case (Op_add x)
  then show ?thesis
    using add_refines [OF assms, of x] assms by (cases "full i") (auto simp: run_op_def spec_op_def full_window [symmetric])
next
  case (Op_free_to to)
  then show ?thesis using free_to_refines [OF assms, of to] by (auto simp: run_op_def spec_op_def)
next
  case Op_free_first
  then show ?thesis using free_first_refines [OF assms] by (simp add: run_op_def)
next
  case Op_reset
  then show ?thesis using reset_refines [OF assms] by (simp add: run_op_def spec_op_def)
next
  case (Op_set_cap c)
  then show ?thesis using set_cap_refines [OF assms, of c] by (auto simp: run_op_def spec_op_def)
next
  case Op_free_buffer
  then show ?thesis using free_buffer_refines [OF assms] by (simp add: run_op_def spec_op_def)
qed


end
