(* ===== verification/Raft_Progress.thy ===== *)
theory Raft_Progress
  imports Raft_Quorum Raft_Inflights
begin

text \<open>
  What a Raft leader knows about its followers (\<open>raft/src/tracker/progress.rs\<close>, \<open>raft/src/tracker.rs\<close>): how far
  each one's log matches, what to send next and how fast, the configuration of the group and the votes of
  an election. A hash map is an association list in the order of its iteration; a panic is \<^term>\<open>None\<close>.
\<close>

section \<open>The progress of a follower\<close>

definition INVALID_ID :: nat where "INVALID_ID = 0"
definition INVALID_INDEX :: nat where "INVALID_INDEX = 0"

datatype progress_state = Probe | Replicate | Snapshotting

record progress =
  pg_matched :: nat
  pg_next_idx :: nat
  pg_state :: progress_state
  pg_paused :: bool
  pg_pending_snapshot :: nat
  pg_pending_request_snapshot :: nat
  pg_recent_active :: bool
  pg_ins :: inflights
  pg_commit_group_id :: nat
  pg_committed_index :: nat

definition new_progress :: "nat \<Rightarrow> nat \<Rightarrow> progress" where
  "new_progress next_idx ins_size =
     \<lparr>pg_matched = 0, pg_next_idx = next_idx, pg_state = Probe, pg_paused = False, pg_pending_snapshot = 0,
      pg_pending_request_snapshot = 0, pg_recent_active = False, pg_ins = new_inflights ins_size,
      pg_commit_group_id = 0, pg_committed_index = 0\<rparr>"

definition reset_state :: "progress_state \<Rightarrow> progress \<Rightarrow> progress" where
  "reset_state st pr = pr\<lparr>pg_paused := False, pg_pending_snapshot := 0, pg_state := st, pg_ins := reset_inflights (pg_ins pr)\<rparr>"

definition reset_progress :: "nat \<Rightarrow> progress \<Rightarrow> progress" where
  "reset_progress next_idx pr =
     pr\<lparr>pg_matched := 0, pg_next_idx := next_idx, pg_state := Probe, pg_paused := False, pg_pending_snapshot := 0,
        pg_pending_request_snapshot := INVALID_INDEX, pg_recent_active := False, pg_ins := reset_inflights (pg_ins pr)\<rparr>"

definition become_probe :: "progress \<Rightarrow> progress" where
  "become_probe pr =
     (if pg_state pr = Snapshotting
      then (reset_state Probe pr)\<lparr>pg_next_idx := max (pg_matched pr + 1) (pg_pending_snapshot pr + 1)\<rparr>
      else (reset_state Probe pr)\<lparr>pg_next_idx := pg_matched pr + 1\<rparr>)"

definition become_replicate :: "progress \<Rightarrow> progress" where
  "become_replicate pr = (reset_state Replicate pr)\<lparr>pg_next_idx := pg_matched pr + 1\<rparr>"

definition become_snapshot :: "nat \<Rightarrow> progress \<Rightarrow> progress" where
  "become_snapshot snapshot_idx pr = (reset_state Snapshotting pr)\<lparr>pg_pending_snapshot := snapshot_idx\<rparr>"

definition snapshot_failure :: "progress \<Rightarrow> progress" where
  "snapshot_failure pr = pr\<lparr>pg_pending_snapshot := 0\<rparr>"

definition is_snapshot_caught_up :: "progress \<Rightarrow> bool" where
  "is_snapshot_caught_up pr \<longleftrightarrow> pg_state pr = Snapshotting \<and> pg_pending_snapshot pr \<le> pg_matched pr"

definition resume :: "progress \<Rightarrow> progress" where
  "resume pr = pr\<lparr>pg_paused := False\<rparr>"

definition pause :: "progress \<Rightarrow> progress" where
  "pause pr = pr\<lparr>pg_paused := True\<rparr>"

definition maybe_update :: "nat \<Rightarrow> progress \<Rightarrow> bool \<times> progress" where
  "maybe_update n pr =
     (let need_update = pg_matched pr < n;
          pr1 = (if need_update then resume (pr\<lparr>pg_matched := n\<rparr>) else pr)
      in (need_update, if pg_next_idx pr1 < n + 1 then pr1\<lparr>pg_next_idx := n + 1\<rparr> else pr1))"

definition update_committed :: "nat \<Rightarrow> progress \<Rightarrow> progress" where
  "update_committed c pr = (if pg_committed_index pr < c then pr\<lparr>pg_committed_index := c\<rparr> else pr)"

definition optimistic_update :: "nat \<Rightarrow> progress \<Rightarrow> progress" where
  "optimistic_update n pr = pr\<lparr>pg_next_idx := n + 1\<rparr>"

definition maybe_decr_to :: "nat \<Rightarrow> nat \<Rightarrow> nat \<Rightarrow> progress \<Rightarrow> bool \<times> progress" where
  "maybe_decr_to rejected match_hint request_snapshot pr =
     (if pg_state pr = Replicate then
        if rejected < pg_matched pr \<or> (rejected = pg_matched pr \<and> request_snapshot = INVALID_INDEX) then (False, pr)
        else if request_snapshot = INVALID_INDEX then (True, pr\<lparr>pg_next_idx := pg_matched pr + 1\<rparr>)
        else (True, pr\<lparr>pg_pending_request_snapshot := request_snapshot\<rparr>)
      else if (pg_next_idx pr = 0 \<or> pg_next_idx pr - 1 \<noteq> rejected) \<and> request_snapshot = INVALID_INDEX then (False, pr)
      else if request_snapshot = INVALID_INDEX then
        (True, resume (pr\<lparr>pg_next_idx := max (min rejected (match_hint + 1)) (pg_matched pr + 1)\<rparr>))
      else if pg_pending_request_snapshot pr = INVALID_INDEX
        then (True, resume (pr\<lparr>pg_pending_request_snapshot := request_snapshot\<rparr>))
      else (True, resume pr))"

definition is_paused :: "progress \<Rightarrow> bool" where
  "is_paused pr = (case pg_state pr of Probe \<Rightarrow> pg_paused pr | Replicate \<Rightarrow> full (pg_ins pr) | Snapshotting \<Rightarrow> True)"

definition update_state :: "nat \<Rightarrow> progress \<Rightarrow> progress option" where
  "update_state last_idx pr =
     (case pg_state pr of
        Replicate \<Rightarrow>
          let pr1 = optimistic_update last_idx pr
          in map_option (\<lambda>i. pr1\<lparr>pg_ins := i\<rparr>) (add_inflight last_idx (pg_ins pr1))
      | Probe \<Rightarrow> Some (pause pr)
      | Snapshotting \<Rightarrow> None)"

section \<open>The tracker\<close>

record tracker_config =
  tc_voters :: joint_config
  tc_learners :: "nat list"
  tc_learners_next :: "nat list"
  tc_auto_leave :: bool

record progress_tracker =
  pt_progress :: "(nat \<times> progress) list"
  pt_conf :: tracker_config
  pt_votes :: "(nat \<times> bool) list"
  pt_max_inflight :: nat
  pt_group_commit :: bool

record conf_state =
  cs_voters :: "nat list"
  cs_learners :: "nat list"
  cs_voters_outgoing :: "nat list"
  cs_learners_next :: "nat list"
  cs_auto_leave :: bool

definition empty_config :: tracker_config where
  "empty_config = \<lparr>tc_voters = \<lparr>incoming = [], outgoing = []\<rparr>, tc_learners = [], tc_learners_next = [], tc_auto_leave = False\<rparr>"

definition to_conf_state :: "tracker_config \<Rightarrow> conf_state" where
  "to_conf_state c = \<lparr>cs_voters = incoming (tc_voters c), cs_learners = tc_learners c,
     cs_voters_outgoing = outgoing (tc_voters c), cs_learners_next = tc_learners_next c, cs_auto_leave = tc_auto_leave c\<rparr>"

definition new_tracker :: "nat \<Rightarrow> progress_tracker" where
  "new_tracker max_inflight = \<lparr>pt_progress = [], pt_conf = empty_config, pt_votes = [],
     pt_max_inflight = max_inflight, pt_group_commit = False\<rparr>"

definition clear_tracker :: "progress_tracker \<Rightarrow> progress_tracker" where
  "clear_tracker t = t\<lparr>pt_progress := [], pt_conf := empty_config, pt_votes := []\<rparr>"

definition tracker_is_singleton :: "progress_tracker \<Rightarrow> bool" where
  "tracker_is_singleton t \<longleftrightarrow> joint_is_singleton (tc_voters (pt_conf t))"

definition get_progress :: "nat \<Rightarrow> progress_tracker \<Rightarrow> progress option" where
  "get_progress v t = map_of (pt_progress t) v"

definition set_progress :: "nat \<Rightarrow> progress \<Rightarrow> progress_tracker \<Rightarrow> progress_tracker" where
  "set_progress v pr t = t\<lparr>pt_progress := AList.update v pr (pt_progress t)\<rparr>"

definition progress_acked :: "progress_tracker \<Rightarrow> acked_indexer" where
  "progress_acked t v = map_option (\<lambda>pr. \<lparr>ix_index = pg_matched pr, ix_group_id = pg_commit_group_id pr\<rparr>) (get_progress v t)"

definition maximal_committed_index :: "progress_tracker \<Rightarrow> nat \<times> bool" where
  "maximal_committed_index t = joint_committed_index (tc_voters (pt_conf t)) (pt_group_commit t) (progress_acked t)"

definition reset_votes :: "progress_tracker \<Rightarrow> progress_tracker" where
  "reset_votes t = t\<lparr>pt_votes := []\<rparr>"

definition record_vote :: "nat \<Rightarrow> bool \<Rightarrow> progress_tracker \<Rightarrow> progress_tracker" where
  "record_vote v vote t = t\<lparr>pt_votes := or_insert v vote (pt_votes t)\<rparr>"

definition tracker_vote_result :: "progress_tracker \<Rightarrow> vote_result" where
  "tracker_vote_result t = joint_vote_result (tc_voters (pt_conf t)) (map_of (pt_votes t))"

definition tally_votes :: "progress_tracker \<Rightarrow> nat \<times> nat \<times> vote_result" where
  "tally_votes t =
     (let counted = filter (\<lambda>(v, _). joint_contains (tc_voters (pt_conf t)) v) (pt_votes t)
      in (length (filter snd counted), length (filter (\<lambda>e. \<not> snd e) counted), tracker_vote_result t))"

definition has_quorum :: "nat list \<Rightarrow> progress_tracker \<Rightarrow> bool" where
  "has_quorum potential t \<longleftrightarrow>
     joint_vote_result (tc_voters (pt_conf t)) (\<lambda>v. if v \<in> set potential then Some True else None) = Vote_Won"

definition quorum_recently_active :: "nat \<Rightarrow> progress_tracker \<Rightarrow> bool \<times> progress_tracker" where
  "quorum_recently_active perspective_of t =
     (let active = map fst (filter (\<lambda>(v, pr). v = perspective_of \<or> pg_recent_active pr) (pt_progress t));
          t1 = t\<lparr>pt_progress := map (\<lambda>(v, pr). (v, pr\<lparr>pg_recent_active := (v = perspective_of)\<rparr>)) (pt_progress t)\<rparr>
      in (has_quorum active t1, t1))"

datatype map_change_type = Change_Add | Change_Remove

type_synonym map_change = "(nat \<times> map_change_type) list"

definition apply_map_change :: "nat \<Rightarrow> nat \<times> map_change_type \<Rightarrow> progress_tracker \<Rightarrow> progress_tracker" where
  "apply_map_change next_idx c t =
     (case c of
        (v, Change_Add) \<Rightarrow> set_progress v ((new_progress next_idx (pt_max_inflight t))\<lparr>pg_recent_active := True\<rparr>) t
      | (v, Change_Remove) \<Rightarrow> t\<lparr>pt_progress := remove_key v (pt_progress t)\<rparr>)"

definition apply_conf :: "tracker_config \<Rightarrow> map_change \<Rightarrow> nat \<Rightarrow> progress_tracker \<Rightarrow> progress_tracker" where
  "apply_conf conf changes next_idx t = fold (apply_map_change next_idx) changes (t\<lparr>pt_conf := conf\<rparr>)"

section \<open>Invariants\<close>

text \<open>A leader never believes more to be matched than it has sent.\<close>

definition progress_ok :: "progress \<Rightarrow> bool" where
  "progress_ok pr \<longleftrightarrow> pg_matched pr < pg_next_idx pr \<and> inflights_wf (pg_ins pr)"

lemma new_progress_ok: "0 < n \<Longrightarrow> progress_ok (new_progress n k)"
  by (simp add: progress_ok_def new_progress_def new_refines)

lemma reset_progress_ok: "\<lbrakk>0 < n; progress_ok pr\<rbrakk> \<Longrightarrow> progress_ok (reset_progress n pr)"
  by (simp add: progress_ok_def reset_progress_def reset_refines)

lemma become_ok:
  assumes "progress_ok pr"
  shows "progress_ok (become_probe pr)" "progress_ok (become_replicate pr)" "progress_ok (become_snapshot n pr)"
  using assms by (simp_all add: progress_ok_def become_probe_def become_replicate_def become_snapshot_def reset_state_def reset_refines max_def)

lemma maybe_update_ok: "progress_ok pr \<Longrightarrow> progress_ok (snd (maybe_update n pr))"
  by (auto simp: progress_ok_def maybe_update_def resume_def Let_def)

lemma maybe_decr_to_ok: "progress_ok pr \<Longrightarrow> progress_ok (snd (maybe_decr_to r h s pr))"
  by (auto simp: progress_ok_def maybe_decr_to_def resume_def)

lemma update_state_ok:
  assumes "progress_ok pr" and "\<not> is_paused pr" and "pg_matched pr \<le> n"
  shows "\<exists>pr'. update_state n pr = Some pr' \<and> progress_ok pr'"
proof (cases "pg_state pr")
  case Replicate
  then have "\<not> full (pg_ins pr)" using assms(2) by (simp add: is_paused_def)
  moreover have "inflights_wf (pg_ins pr)" using assms(1) by (simp add: progress_ok_def)
  ultimately obtain j where "add_inflight n (pg_ins pr) = Some j" "inflights_wf j" by (metis add_refines)
  then show ?thesis
    using assms Replicate by (auto simp: progress_ok_def update_state_def optimistic_update_def Let_def)
qed (use assms in \<open>auto simp: progress_ok_def update_state_def pause_def is_paused_def\<close>)

lemma matched_grows: "pg_matched (snd (maybe_update n pr)) = max (pg_matched pr) n"
  by (simp add: maybe_update_def resume_def Let_def)

end
