(* ===== verification/Raft_Confchange.thy ===== *)
theory Raft_Confchange
  imports Raft_Progress
begin

text \<open>
  Changes of the configuration of a Raft group (\<open>raft/src/confchange/changer.rs\<close>, \<open>raft/src/confchange/restore.rs\<close>):
  single changes, and entering and leaving a joint configuration. The changes to the progress map are
  collected and applied once the new configuration has been checked.
\<close>

section \<open>Changing a configuration\<close>

datatype conf_change_error =
    Already_joint
  | Zero_voter_joint
  | Not_joint
  | Simple_in_joint
  | Many_voters_changed
  | Removed_all_voters
  | No_progress_voter nat
  | No_progress_learner nat
  | Learner_outgoing nat
  | Learner_incoming nat
  | No_progress_next nat
  | Next_not_outgoing nat
  | Next_not_joint
  | Auto_leave_not_joint

datatype conf_change_type = AddNode | RemoveNode | AddLearnerNode

datatype conf_change_transition = Transition_Auto | Transition_Implicit | Transition_Explicit

record conf_change_single =
  cc_change_type :: conf_change_type
  cc_node_id :: nat

record conf_change_v2 =
  v2_transition :: conf_change_transition
  v2_changes :: "conf_change_single list"
  v2_context :: "byte list"

record conf_change =
  v1_id :: nat
  v1_change_type :: conf_change_type
  v1_node_id :: nat
  v1_context :: "byte list"

definition into_v2 :: "conf_change \<Rightarrow> conf_change_v2" where
  "into_v2 cc =
     \<lparr>v2_transition = Transition_Auto, v2_changes = [\<lparr>cc_change_type = v1_change_type cc, cc_node_id = v1_node_id cc\<rparr>],
      v2_context = v1_context cc\<rparr>"

definition cc_enter_joint :: "conf_change_v2 \<Rightarrow> bool option" where
  "cc_enter_joint cc =
     (if v2_transition cc \<noteq> Transition_Auto \<or> 1 < length (v2_changes cc)
      then Some (v2_transition cc \<noteq> Transition_Explicit) else None)"

definition cc_leave_joint :: "conf_change_v2 \<Rightarrow> bool" where
  "cc_leave_joint cc \<longleftrightarrow> v2_transition cc = Transition_Auto \<and> v2_changes cc = []"

definition is_joint :: "tracker_config \<Rightarrow> bool" where
  "is_joint c \<longleftrightarrow> outgoing (tc_voters c) \<noteq> []"

text \<open>The progress map with the changes collected so far: the last change of a node decides.\<close>

definition incr_contains :: "(nat \<times> progress) list \<Rightarrow> map_change \<Rightarrow> nat \<Rightarrow> bool" where
  "incr_contains base changes v =
     (case List.find (\<lambda>c. fst c = v) (rev changes) of
        Some (_, Change_Remove) \<Rightarrow> False
      | Some (_, Change_Add) \<Rightarrow> True
      | None \<Rightarrow> map_of base v \<noteq> None)"

type_synonym conf_edit = "tracker_config \<times> map_change"

definition set_incoming :: "(nat list \<Rightarrow> nat list) \<Rightarrow> tracker_config \<Rightarrow> tracker_config" where
  "set_incoming f c = c\<lparr>tc_voters := (tc_voters c)\<lparr>incoming := f (incoming (tc_voters c))\<rparr>\<rparr>"

definition init_progress :: "nat \<Rightarrow> bool \<Rightarrow> conf_edit \<Rightarrow> conf_edit" where
  "init_progress v is_learner s =
     (case s of (c, changes) \<Rightarrow>
        ((if is_learner then c\<lparr>tc_learners := List.insert v (tc_learners c)\<rparr> else set_incoming (List.insert v) c),
         changes @ [(v, Change_Add)]))"

definition make_voter :: "(nat \<times> progress) list \<Rightarrow> nat \<Rightarrow> conf_edit \<Rightarrow> conf_edit" where
  "make_voter base v s =
     (case s of (c, changes) \<Rightarrow>
        if \<not> incr_contains base changes v then init_progress v False s
        else ((set_incoming (List.insert v) c)\<lparr>tc_learners := removeAll v (tc_learners c),
                tc_learners_next := removeAll v (tc_learners_next c)\<rparr>, changes))"

definition make_learner :: "(nat \<times> progress) list \<Rightarrow> nat \<Rightarrow> conf_edit \<Rightarrow> conf_edit" where
  "make_learner base v s =
     (case s of (c, changes) \<Rightarrow>
        if \<not> incr_contains base changes v then init_progress v True s
        else if v \<in> set (tc_learners c) then s
        else
          let c1 = (set_incoming (removeAll v) c)\<lparr>tc_learners := removeAll v (tc_learners c),
                     tc_learners_next := removeAll v (tc_learners_next c)\<rparr>
          in (if v \<in> set (outgoing (tc_voters c1))
              then c1\<lparr>tc_learners_next := List.insert v (tc_learners_next c1)\<rparr>
              else c1\<lparr>tc_learners := List.insert v (tc_learners c1)\<rparr>, changes))"

definition remove_node :: "(nat \<times> progress) list \<Rightarrow> nat \<Rightarrow> conf_edit \<Rightarrow> conf_edit" where
  "remove_node base v s =
     (case s of (c, changes) \<Rightarrow>
        if \<not> incr_contains base changes v then s
        else
          let c1 = (set_incoming (removeAll v) c)\<lparr>tc_learners := removeAll v (tc_learners c),
                     tc_learners_next := removeAll v (tc_learners_next c)\<rparr>
          in (c1, if v \<in> set (outgoing (tc_voters c1)) then changes else changes @ [(v, Change_Remove)]))"

definition apply_single :: "(nat \<times> progress) list \<Rightarrow> conf_change_single \<Rightarrow> conf_edit \<Rightarrow> conf_edit" where
  "apply_single base cc s =
     (if cc_node_id cc = 0 then s
      else (case cc_change_type cc of
              AddNode \<Rightarrow> make_voter base (cc_node_id cc) s
            | AddLearnerNode \<Rightarrow> make_learner base (cc_node_id cc) s
            | RemoveNode \<Rightarrow> remove_node base (cc_node_id cc) s))"

definition apply_singles ::
  "(nat \<times> progress) list \<Rightarrow> conf_change_single list \<Rightarrow> conf_edit \<Rightarrow> conf_change_error + conf_edit" where
  "apply_singles base ccs s =
     (let s1 = fold (apply_single base) ccs s
      in if incoming (tc_voters (fst s1)) = [] then Inl Removed_all_voters else Inr s1)"

section \<open>Checking a configuration\<close>

definition check_learner :: "(nat \<times> progress) list \<Rightarrow> conf_edit \<Rightarrow> nat \<Rightarrow> conf_change_error option" where
  "check_learner base s v =
     (case s of (c, changes) \<Rightarrow>
        if \<not> incr_contains base changes v then Some (No_progress_learner v)
        else if v \<in> set (outgoing (tc_voters c)) then Some (Learner_outgoing v)
        else if v \<in> set (incoming (tc_voters c)) then Some (Learner_incoming v)
        else None)"

definition check_next :: "(nat \<times> progress) list \<Rightarrow> conf_edit \<Rightarrow> nat \<Rightarrow> conf_change_error option" where
  "check_next base s v =
     (case s of (c, changes) \<Rightarrow>
        if \<not> incr_contains base changes v then Some (No_progress_next v)
        else if v \<notin> set (outgoing (tc_voters c)) then Some (Next_not_outgoing v)
        else None)"

definition first_error :: "('a \<Rightarrow> 'e option) \<Rightarrow> 'a list \<Rightarrow> 'e option" where
  "first_error f xs = (case List.find (\<lambda>x. f x \<noteq> None) xs of None \<Rightarrow> None | Some x \<Rightarrow> f x)"

definition check_invariants :: "(nat \<times> progress) list \<Rightarrow> conf_edit \<Rightarrow> conf_change_error option" where
  "check_invariants base s =
     (case s of (c, changes) \<Rightarrow>
        (case first_error (\<lambda>v. if incr_contains base changes v then None else Some (No_progress_voter v)) (joint_ids (tc_voters c)) of
           Some e \<Rightarrow> Some e
         | None \<Rightarrow>
             (case first_error (check_learner base s) (tc_learners c) of
                Some e \<Rightarrow> Some e
              | None \<Rightarrow>
                  (case first_error (check_next base s) (tc_learners_next c) of
                     Some e \<Rightarrow> Some e
                   | None \<Rightarrow>
                       if is_joint c then None
                       else if tc_learners_next c \<noteq> [] then Some Next_not_joint
                       else if tc_auto_leave c then Some Auto_leave_not_joint
                       else None))))"

definition checked :: "(nat \<times> progress) list \<Rightarrow> conf_edit \<Rightarrow> conf_change_error + conf_edit" where
  "checked base s = (case check_invariants base s of Some e \<Rightarrow> Inl e | None \<Rightarrow> Inr s)"

definition check_and_copy :: "progress_tracker \<Rightarrow> conf_change_error + conf_edit" where
  "check_and_copy t = checked (pt_progress t) (pt_conf t, [])"

section \<open>The three kinds of change\<close>

definition enter_joint :: "bool \<Rightarrow> conf_change_single list \<Rightarrow> progress_tracker \<Rightarrow> conf_change_error + conf_edit" where
  "enter_joint auto_leave ccs t =
     (if is_joint (pt_conf t) then Inl Already_joint
      else
        (case check_and_copy t of
           Inl e \<Rightarrow> Inl e
         | Inr (c, changes) \<Rightarrow>
             if incoming (tc_voters c) = [] then Inl Zero_voter_joint
             else
               let c1 = c\<lparr>tc_voters := (tc_voters c)\<lparr>outgoing := union_list (outgoing (tc_voters c)) (incoming (tc_voters c))\<rparr>\<rparr>
               in (case apply_singles (pt_progress t) ccs (c1, changes) of
                     Inl e \<Rightarrow> Inl e
                   | Inr (c2, changes2) \<Rightarrow> checked (pt_progress t) (c2\<lparr>tc_auto_leave := auto_leave\<rparr>, changes2))))"

definition leave_joint :: "progress_tracker \<Rightarrow> conf_change_error + conf_edit" where
  "leave_joint t =
     (if \<not> is_joint (pt_conf t) then Inl Not_joint
      else
        (case check_and_copy t of
           Inl e \<Rightarrow> Inl e
         | Inr (c, changes) \<Rightarrow>
             if outgoing (tc_voters c) = [] then Inl Not_joint
             else
               let c1 = c\<lparr>tc_learners := union_list (tc_learners c) (tc_learners_next c), tc_learners_next := []\<rparr>;
                   gone = filter (\<lambda>v. v \<notin> set (incoming (tc_voters c1)) \<and> v \<notin> set (tc_learners c1)) (outgoing (tc_voters c1))
               in checked (pt_progress t)
                    (c1\<lparr>tc_voters := (tc_voters c1)\<lparr>outgoing := []\<rparr>, tc_auto_leave := False\<rparr>,
                     changes @ map (\<lambda>v. (v, Change_Remove)) gone)))"

definition symmetric_difference_count :: "nat list \<Rightarrow> nat list \<Rightarrow> nat" where
  "symmetric_difference_count xs ys =
     length (filter (\<lambda>x. x \<notin> set ys) xs) + length (filter (\<lambda>y. y \<notin> set xs) ys)"

definition simple_change :: "conf_change_single list \<Rightarrow> progress_tracker \<Rightarrow> conf_change_error + conf_edit" where
  "simple_change ccs t =
     (if is_joint (pt_conf t) then Inl Simple_in_joint
      else
        (case check_and_copy t of
           Inl e \<Rightarrow> Inl e
         | Inr s \<Rightarrow>
             (case apply_singles (pt_progress t) ccs s of
                Inl e \<Rightarrow> Inl e
              | Inr (c1, changes1) \<Rightarrow>
                  if 1 < symmetric_difference_count (incoming (tc_voters c1)) (incoming (tc_voters (pt_conf t)))
                  then Inl Many_voters_changed
                  else checked (pt_progress t) (c1, changes1))))"

definition change_conf :: "conf_change_v2 \<Rightarrow> progress_tracker \<Rightarrow> conf_change_error + conf_edit" where
  "change_conf cc t =
     (if cc_leave_joint cc then leave_joint t
      else (case cc_enter_joint cc of
              Some auto_leave \<Rightarrow> enter_joint auto_leave (v2_changes cc) t
            | None \<Rightarrow> simple_change (v2_changes cc) t))"

section \<open>Restoring a configuration\<close>

definition single :: "conf_change_type \<Rightarrow> nat \<Rightarrow> conf_change_single" where
  "single ty v = \<lparr>cc_change_type = ty, cc_node_id = v\<rparr>"

definition to_conf_change_single :: "conf_state \<Rightarrow> conf_change_single list \<times> conf_change_single list" where
  "to_conf_change_single cs =
     (map (single AddNode) (cs_voters_outgoing cs),
      map (single RemoveNode) (cs_voters_outgoing cs) @ map (single AddNode) (cs_voters cs) @
      map (single AddLearnerNode) (cs_learners cs) @ map (single AddLearnerNode) (cs_learners_next cs))"

fun restore_singles :: "nat \<Rightarrow> conf_change_single list \<Rightarrow> progress_tracker \<Rightarrow> conf_change_error + progress_tracker" where
  "restore_singles next_idx [] t = Inr t"
| "restore_singles next_idx (cc # ccs) t =
     (case simple_change [cc] t of
        Inl e \<Rightarrow> Inl e
      | Inr (c, changes) \<Rightarrow> restore_singles next_idx ccs (apply_conf c changes next_idx t))"

definition restore_conf :: "nat \<Rightarrow> conf_state \<Rightarrow> progress_tracker \<Rightarrow> conf_change_error + progress_tracker" where
  "restore_conf next_idx cs t =
     (let (out, inc) = to_conf_change_single cs
      in if out = [] then restore_singles next_idx inc t
         else
           (case restore_singles next_idx out t of
              Inl e \<Rightarrow> Inl e
            | Inr t1 \<Rightarrow>
                (case enter_joint (cs_auto_leave cs) inc t1 of
                   Inl e \<Rightarrow> Inl e
                 | Inr (c, changes) \<Rightarrow> Inr (apply_conf c changes next_idx t1))))"

definition eq_without_order :: "nat list \<Rightarrow> nat list \<Rightarrow> bool" where
  "eq_without_order xs ys \<longleftrightarrow> length xs = length ys \<and> list_all (\<lambda>x. x \<in> set ys) xs"

definition conf_state_eq :: "conf_state \<Rightarrow> conf_state \<Rightarrow> bool" where
  "conf_state_eq a b \<longleftrightarrow> eq_without_order (cs_voters a) (cs_voters b) \<and> eq_without_order (cs_learners a) (cs_learners b) \<and>
     eq_without_order (cs_voters_outgoing a) (cs_voters_outgoing b) \<and>
     eq_without_order (cs_learners_next a) (cs_learners_next b) \<and> cs_auto_leave a = cs_auto_leave b"


section \<open>Overlap of quorums\<close>

lemma apply_single_voters:
  "outgoing (tc_voters (fst (apply_single base cc s))) = outgoing (tc_voters (fst s))"
  "distinct (incoming (tc_voters (fst s))) \<Longrightarrow> distinct (incoming (tc_voters (fst (apply_single base cc s))))"
  by (auto simp: apply_single_def make_voter_def make_learner_def remove_node_def init_progress_def set_incoming_def Let_def
      distinct_removeAll split: prod.splits conf_change_type.splits)

lemma apply_singles_voters:
  assumes "apply_singles base ccs s = Inr s'"
  shows "outgoing (tc_voters (fst s')) = outgoing (tc_voters (fst s))"
    and "distinct (incoming (tc_voters (fst s))) \<Longrightarrow> distinct (incoming (tc_voters (fst s')))"
    and "incoming (tc_voters (fst s')) \<noteq> []"
proof -
  have "outgoing (tc_voters (fst (fold (apply_single base) ccs s))) = outgoing (tc_voters (fst s)) \<and>
      (distinct (incoming (tc_voters (fst s))) \<longrightarrow> distinct (incoming (tc_voters (fst (fold (apply_single base) ccs s)))))"
    by (induction ccs arbitrary: s) (simp_all add: apply_single_voters)
  then show "outgoing (tc_voters (fst s')) = outgoing (tc_voters (fst s))"
    "distinct (incoming (tc_voters (fst s))) \<Longrightarrow> distinct (incoming (tc_voters (fst s')))"
    "incoming (tc_voters (fst s')) \<noteq> []"
    using assms by (auto simp: apply_singles_def Let_def split: if_splits)
qed

lemma checked_Inr: "checked base s = Inr s' \<longleftrightarrow> s' = s \<and> check_invariants base s = None"
  by (auto simp: checked_def split: option.splits)

lemma subset_overlap:
  assumes "distinct xs" and "distinct ys" and "set xs \<subseteq> set ys" and "length ys \<le> length xs + 1"
    and "most xs P" and "most ys Q" and "xs \<noteq> []"
  shows "\<exists>v. P v \<and> Q v"
proof -
  have "length (filter P xs) = card {v \<in> set xs. P v}" "length (filter P ys) = card {v \<in> set ys. P v}"
    using assms(1,2) by (simp_all add: distinct_card [symmetric])
  moreover have "card {v \<in> set xs. P v} \<le> card {v \<in> set ys. P v}" using assms(3) by (intro card_mono) auto
  moreover have "length xs < 2 * length (filter P xs)" "length ys < 2 * length (filter Q ys)"
    using assms(3,5-7) by (auto simp: most_def)
  ultimately have "length ys < length (filter P ys) + length (filter Q ys)" using assms(4) by linarith
  then show ?thesis using filter_both_nonempty by blast
qed

lemma simple_overlap:
  assumes "distinct xs" and "distinct ys" and "symmetric_difference_count ys xs \<le> 1"
    and "most xs P" and "most ys Q" and "xs \<noteq> []" and "ys \<noteq> []"
  shows "\<exists>v. P v \<and> Q v"
proof -
  have c: "length (filter (\<lambda>x. x \<notin> set ys) xs) = card (set xs - set ys)" "length (filter (\<lambda>y. y \<notin> set xs) ys) = card (set ys - set xs)"
    using assms(1,2) by (simp_all add: distinct_card [symmetric] set_diff_eq)
  have len: "length xs = card (set xs)" "length ys = card (set ys)" using assms(1,2) by (simp_all add: distinct_card)
  show ?thesis
  proof (cases "set xs - set ys = {}")
    case True
    then have "set xs \<subseteq> set ys" by blast
    moreover have "card (set ys) \<le> card (set xs) + card (set ys - set xs)"
      using card_Diff_subset [of "set xs" "set ys"] calculation by (simp add: card_mono)
    ultimately show ?thesis
      using subset_overlap [OF assms(1,2)] assms(3-6) c len by (auto simp: symmetric_difference_count_def)
  next
    case False
    then have "0 < card (set xs - set ys)" by (simp add: card_gt_0_iff)
    then have d: "card (set ys - set xs) = 0" "card (set xs - set ys) = 1"
      using assms(3) c unfolding symmetric_difference_count_def by linarith+
    then have "set ys \<subseteq> set xs" by (metis Diff_eq_empty_iff card_0_eq finite_Diff finite_set)
    moreover have "card (set xs) \<le> card (set ys) + 1"
      using card_Diff_subset [of "set ys" "set xs"] calculation d(2) by auto
    ultimately show ?thesis
      using subset_overlap [OF assms(2,1), of Q P] assms(4,5,7) len by auto
  qed
qed

text \<open>C10: consecutive configurations overlap. Whatever change of the configuration the code accepts, a quorum of the old
  configuration and a quorum of the new one have a member in common, whether the change is a simple one or
  enters or leaves a joint configuration.
\<close>

theorem conf_change_quorums_overlap:
  assumes "change_conf cc t = Inr (c', changes)" and "distinct (incoming (tc_voters (pt_conf t)))"
    and "incoming (tc_voters (pt_conf t)) \<noteq> []"
    and "joint_most (tc_voters (pt_conf t)) P" and "joint_most (tc_voters c') Q"
  shows "\<exists>v. P v \<and> Q v"
proof -
  let ?old = "tc_voters (pt_conf t)"
  consider (leave) "leave_joint t = Inr (c', changes)" | (enter) al where "enter_joint al (v2_changes cc) t = Inr (c', changes)"
    | (simple) "simple_change (v2_changes cc) t = Inr (c', changes)"
    using assms(1) by (auto simp: change_conf_def split: if_splits option.splits)
  then show ?thesis
  proof cases
    case leave
    then have "incoming (tc_voters c') = incoming ?old"
      by (auto simp: leave_joint_def check_and_copy_def checked_Inr Let_def split: if_splits sum.splits)
    then show ?thesis using most_intersect [of "incoming ?old" P Q] assms(3-5) by (auto simp: joint_most_def)
  next
    case enter
    then have "outgoing (tc_voters c') = incoming ?old"
      by (auto simp: enter_joint_def check_and_copy_def checked_Inr is_joint_def union_list_def Let_def
          dest!: apply_singles_voters(1) split: if_splits sum.splits prod.splits)
    then show ?thesis using most_intersect [of "incoming ?old" P Q] assms(3-5) by (auto simp: joint_most_def)
  next
    case simple
    then obtain s where s: "apply_singles (pt_progress t) (v2_changes cc) (pt_conf t, []) = Inr s" "fst s = c'"
      "symmetric_difference_count (incoming (tc_voters c')) (incoming ?old) \<le> 1"
      by (auto simp: simple_change_def check_and_copy_def checked_Inr not_less split: if_splits sum.splits prod.splits)
    then show ?thesis
      using apply_singles_voters(2,3) [OF s(1)] simple_overlap [of "incoming ?old" "incoming (tc_voters c')" P Q] assms(2-5)
      by (auto simp: joint_most_def)
  qed
qed


definition three_voters :: progress_tracker where
  "three_voters = (new_tracker 4)\<lparr>
     pt_conf := empty_config\<lparr>tc_voters := \<lparr>incoming = [1, 2, 3], outgoing = []\<rparr>\<rparr>,
     pt_progress := map (\<lambda>v. (v, new_progress 1 4)) [1, 2, 3]\<rparr>"

theorem conf_change_quorums_overlap_witness:
  "\<exists>c' changes v. change_conf \<lparr>v2_transition = Transition_Auto, v2_changes = [single AddNode 4], v2_context = []\<rparr> three_voters = Inr (c', changes) \<and>
     joint_most (tc_voters c') (\<lambda>v. v \<in> {2, 3, 4}) \<and> v \<in> {1, 3} \<and> v \<in> {2, 3, 4}"
proof -
  let ?cc = "\<lparr>v2_transition = Transition_Auto, v2_changes = [single AddNode 4], v2_context = []\<rparr>"
  obtain c' changes where c: "change_conf ?cc three_voters = Inr (c', changes)" "joint_most (tc_voters c') (\<lambda>v. v \<in> {2, 3, 4})"
    by (simp add: change_conf_def cc_leave_joint_def cc_enter_joint_def simple_change_def is_joint_def three_voters_def new_tracker_def
        check_and_copy_def checked_def check_invariants_def first_error_def joint_ids_def union_list_def empty_config_def incr_contains_def
        apply_singles_def apply_single_def make_voter_def init_progress_def set_incoming_def single_def symmetric_difference_count_def
        joint_most_def most_def List.insert_def)
  have t: "distinct (incoming (tc_voters (pt_conf three_voters)))" "incoming (tc_voters (pt_conf three_voters)) \<noteq> []"
    "joint_most (tc_voters (pt_conf three_voters)) (\<lambda>v. v \<in> {1, 3})"
    by (simp_all add: three_voters_def joint_most_def most_def)
  show ?thesis using conf_change_quorums_overlap [OF c(1) t c(2)] c by blast
qed

end
