(* ===== verification/Raft_Storage.thy ===== *)
theory Raft_Storage
  imports Raft_Confchange
begin

text \<open>
  The storage of the Raft log (\<open>chronik-wal/src/raft_storage_impl.rs\<close>) and its use at the start of a node
  (\<open>initialize_wal_storage\<close> in \<open>chronik-server/src/raft_cluster.rs\<close>). Entries and states are kept in memory and
  appended to a write-ahead log; at a restart the log is read back. \<open>rs_wal\<close> is the payloads of that log in
  order, \<open>rs_files\<close> the snapshot files. The protobuf encoding of the messages is generated code of a library and a
  parameter, carried in the field \<open>rs_codec\<close>. A panic is \<^term>\<open>None\<close>.
\<close>

section \<open>Messages of the log\<close>

datatype entry_type = EntryNormal | EntryConfChange | EntryConfChangeV2

record raft_entry =
  en_type :: entry_type
  en_term :: nat
  en_index :: nat
  en_data :: "byte list"
  en_context :: "byte list"

record raft_snapshot =
  sn_data :: "byte list"
  sn_index :: nat
  sn_term :: nat
  sn_conf :: conf_state

record hard_state =
  hs_term :: nat
  hs_vote :: nat
  hs_commit :: nat

definition default_entry :: raft_entry where
  "default_entry = \<lparr>en_type = EntryNormal, en_term = 0, en_index = 0, en_data = [], en_context = []\<rparr>"

definition default_conf_state :: conf_state where
  "default_conf_state = \<lparr>cs_voters = [], cs_learners = [], cs_voters_outgoing = [], cs_learners_next = [], cs_auto_leave = False\<rparr>"

definition default_snapshot :: raft_snapshot where
  "default_snapshot = \<lparr>sn_data = [], sn_index = 0, sn_term = 0, sn_conf = default_conf_state\<rparr>"

definition default_hard_state :: hard_state where
  "default_hard_state = \<lparr>hs_term = 0, hs_vote = 0, hs_commit = 0\<rparr>"

record proto_codec =
  encode_entry :: "raft_entry \<Rightarrow> byte list"
  encode_hard_state :: "hard_state \<Rightarrow> byte list"
  encode_conf_state :: "conf_state \<Rightarrow> byte list"
  decode_entry :: "byte list \<Rightarrow> raft_entry option"
  decode_hard_state :: "byte list \<Rightarrow> hard_state option"
  decode_conf_state :: "byte list \<Rightarrow> conf_state option"
  decode_conf_change :: "byte list \<Rightarrow> conf_change option"
  decode_conf_change_v2 :: "byte list \<Rightarrow> conf_change_v2 option"

text \<open>
  What the code relies on of the encoding, and one consequence of protobuf's rules that it overlooks: fields are identified
  by their number and wire type alone, and the three integer fields of a hard state have the numbers and the type of
  the first three fields of an entry.
\<close>

definition codec_ok :: "(nat \<Rightarrow> entry_type) \<Rightarrow> proto_codec \<Rightarrow> bool" where
  "codec_ok ty_of_term cd \<longleftrightarrow> (\<forall>e. decode_entry cd (encode_entry cd e) = Some e) \<and>
     (\<forall>hs. decode_entry cd (encode_hard_state cd hs) =
        Some \<lparr>en_type = ty_of_term (hs_term hs), en_term = hs_vote hs, en_index = hs_commit hs, en_data = [], en_context = []\<rparr>)"

section \<open>State\<close>

datatype storage_error =
    Compacted | Unavailable | LogTemporarilyUnavailable | SnapshotOutOfDate | SnapshotTemporarilyUnavailable | Storage_other

record raft_storage =
  rs_entries :: "raft_entry list"
  rs_hard :: hard_state
  rs_conf :: conf_state
  rs_snapshot :: raft_snapshot
  rs_first_index :: nat
  rs_wal :: "byte list list"
  rs_files :: "(string \<times> raft_snapshot) list"
  rs_codec :: proto_codec

definition new_raft_storage :: "proto_codec \<Rightarrow> byte list list \<Rightarrow> (string \<times> raft_snapshot) list \<Rightarrow> raft_storage" where
  "new_raft_storage cd wal files =
     \<lparr>rs_entries = [], rs_hard = default_hard_state, rs_conf = default_conf_state, rs_snapshot = default_snapshot,
      rs_first_index = 1, rs_wal = wal, rs_files = files, rs_codec = cd\<rparr>"

definition MAX_UNSTABLE_ENTRIES :: nat where "MAX_UNSTABLE_ENTRIES = 50000"

section \<open>Recovery\<close>

text \<open>Entries sorted by index, of each index the one with the highest term.\<close>

definition dedup_step :: "raft_entry \<Rightarrow> raft_entry list \<times> nat \<Rightarrow> raft_entry list \<times> nat" where
  "dedup_step e s =
     (case s of (deduped, last_index) \<Rightarrow>
        if en_index e \<noteq> last_index then (deduped @ [e], en_index e)
        else if en_term (last deduped) < en_term e then (butlast deduped @ [e], last_index)
        else (deduped, last_index))"

definition dedup_entries :: "raft_entry list \<Rightarrow> raft_entry list" where
  "dedup_entries es = fst (fold dedup_step es ([], 0))"

definition process_recovered_entries :: "raft_entry list \<Rightarrow> nat \<Rightarrow> raft_entry list" where
  "process_recovered_entries es snapshot_index =
     (let sorted_es = sort_key en_index es;
          kept = (if 0 < snapshot_index then filter (\<lambda>e. snapshot_index < en_index e) sorted_es else sorted_es)
      in take MAX_UNSTABLE_ENTRIES (dedup_entries kept))"

definition parse_record ::
  "proto_codec \<Rightarrow> byte list \<Rightarrow> raft_entry list \<times> hard_state option \<times> conf_state option \<Rightarrow>
     raft_entry list \<times> hard_state option \<times> conf_state option" where
  "parse_record cd data s =
     (case s of (es, hs, cs) \<Rightarrow>
        if data = [] then s
        else
          (case decode_entry cd data of
             Some e \<Rightarrow> if 0 < en_index e then (es @ [e], hs, cs) else s
           | None \<Rightarrow>
               (case decode_hard_state cd data of
                  Some h \<Rightarrow> if 0 < hs_term h \<or> 0 < hs_vote h \<or> 0 < hs_commit h then (es, Some h, cs) else s
                | None \<Rightarrow>
                    (case decode_conf_state cd data of
                       Some c \<Rightarrow> if cs_voters c \<noteq> [] then (es, hs, Some c) else s
                     | None \<Rightarrow> s))))"

definition parse_wal_records :: "proto_codec \<Rightarrow> byte list list \<Rightarrow> raft_entry list \<times> hard_state option \<times> conf_state option" where
  "parse_wal_records cd wal = fold (parse_record cd) wal ([], None, None)"

fun decimal :: "nat \<Rightarrow> string" where
  "decimal n = (if n < 10 then [char_of (48 + n)] else decimal (n div 10) @ [char_of (48 + n mod 10)])"

definition snapshot_file_name :: "raft_snapshot \<Rightarrow> string" where
  "snapshot_file_name s = ''snapshot_'' @ decimal (sn_index s) @ ''_'' @ decimal (sn_term s) @ ''.snap''"

definition load_latest_snapshot :: "raft_storage \<Rightarrow> raft_snapshot option \<times> raft_storage" where
  "load_latest_snapshot st =
     (if rs_files st = [] then (None, st)
      else
        let s = the (map_of (rs_files st) (last (sort (map fst (rs_files st)))))
        in (Some s, st\<lparr>rs_snapshot := s\<rparr>))"

definition restore_raft_state :: "hard_state option \<Rightarrow> conf_state option \<Rightarrow> raft_storage \<Rightarrow> raft_storage" where
  "restore_raft_state hs cs st =
     st\<lparr>rs_hard := (case hs of Some h \<Rightarrow> h | None \<Rightarrow> rs_hard st),
        rs_conf := (case cs of Some c \<Rightarrow> c | None \<Rightarrow> rs_conf st)\<rparr>"

definition recover :: "raft_storage \<Rightarrow> raft_storage" where
  "recover st =
     (let (snap, st1) = load_latest_snapshot st;
          snapshot_index = (case snap of Some s \<Rightarrow> sn_index s | None \<Rightarrow> 0)
      in if rs_wal st1 = [] then st1
         else
           let (es, hs, cs) = parse_wal_records (rs_codec st1) (rs_wal st1);
               processed = process_recovered_entries es snapshot_index;
               st2 = (if processed \<noteq> [] then st1\<lparr>rs_entries := processed, rs_first_index := en_index (hd processed)\<rparr>
                      else if 0 < snapshot_index then st1\<lparr>rs_first_index := snapshot_index + 1\<rparr>
                      else st1)
           in restore_raft_state hs cs st2)"

definition set_raft_state :: "hard_state \<Rightarrow> conf_state \<Rightarrow> raft_storage \<Rightarrow> raft_storage" where
  "set_raft_state hs cs st = st\<lparr>rs_hard := hs, rs_conf := cs\<rparr>"

definition clear_entries :: "raft_storage \<Rightarrow> raft_storage" where
  "clear_entries st = st\<lparr>rs_entries := [], rs_first_index := 1\<rparr>"

definition has_recovered_state :: "raft_storage \<Rightarrow> bool" where
  "has_recovered_state st \<longleftrightarrow> 0 < hs_term (rs_hard st) \<or> 0 < hs_vote (rs_hard st) \<or> 0 < hs_commit (rs_hard st)"

definition initialize_wal_storage :: "nat list \<Rightarrow> raft_storage \<Rightarrow> raft_storage" where
  "initialize_wal_storage all_nodes st =
     (let st1 = recover st
      in if \<not> has_recovered_state st1 \<or> cs_voters (rs_conf st1) = []
         then clear_entries (set_raft_state default_hard_state (default_conf_state\<lparr>cs_voters := all_nodes\<rparr>) st1)
         else st1)"

section \<open>Writing\<close>

definition put_entry :: "nat \<Rightarrow> raft_entry \<Rightarrow> raft_entry list option \<Rightarrow> raft_entry list option" where
  "put_entry first_index e log =
     (case log of
        None \<Rightarrow> None
      | Some es \<Rightarrow>
          if en_index e < first_index then None
          else
            let k = en_index e - first_index;
                es1 = (if length es \<le> k then es @ replicate (k + 1 - length es) default_entry else es)
            in Some (es1[k := e]))"

definition append_entries :: "raft_entry list \<Rightarrow> raft_storage \<Rightarrow> raft_storage option" where
  "append_entries es st =
     (if es = [] then Some st
      else
        (case fold (put_entry (rs_first_index st)) es (Some (rs_entries st)) of
           None \<Rightarrow> None
         | Some log \<Rightarrow>
             let trim = (if MAX_UNSTABLE_ENTRIES < length log \<and> rs_first_index st = sn_index (rs_snapshot st) + 1
                         then length log - MAX_UNSTABLE_ENTRIES else 0)
             in Some (st\<lparr>rs_entries := drop trim log, rs_first_index := rs_first_index st + trim,
                         rs_wal := rs_wal st @ map (encode_entry (rs_codec st)) es\<rparr>)))"

definition persist_hard_state :: "hard_state \<Rightarrow> raft_storage \<Rightarrow> raft_storage" where
  "persist_hard_state hs st = st\<lparr>rs_hard := hs, rs_wal := rs_wal st @ [encode_hard_state (rs_codec st) hs]\<rparr>"

definition persist_conf_state :: "conf_state \<Rightarrow> raft_storage \<Rightarrow> raft_storage" where
  "persist_conf_state cs st = st\<lparr>rs_conf := cs, rs_wal := rs_wal st @ [encode_conf_state (rs_codec st) cs]\<rparr>"

definition create_snapshot :: "byte list \<Rightarrow> nat \<Rightarrow> nat \<Rightarrow> raft_storage \<Rightarrow> raft_snapshot" where
  "create_snapshot data applied_index applied_term st =
     \<lparr>sn_data = data, sn_index = applied_index, sn_term = applied_term, sn_conf = rs_conf st\<rparr>"

definition save_snapshot :: "raft_snapshot \<Rightarrow> raft_storage \<Rightarrow> raft_storage" where
  "save_snapshot s st = st\<lparr>rs_files := AList.update (snapshot_file_name s) s (rs_files st), rs_snapshot := s\<rparr>"

definition truncate_log_to_snapshot :: "nat \<Rightarrow> raft_storage \<Rightarrow> raft_storage" where
  "truncate_log_to_snapshot snapshot_index st =
     (let new_first = snapshot_index + 1
      in if new_first \<le> rs_first_index st then st
         else
           let n = new_first - rs_first_index st
           in st\<lparr>rs_entries := (if length (rs_entries st) \<le> n then [] else drop n (rs_entries st)), rs_first_index := new_first\<rparr>)"

section \<open>Reading\<close>

definition read_entries_from_wal :: "nat \<Rightarrow> nat \<Rightarrow> raft_storage \<Rightarrow> storage_error + raft_entry list" where
  "read_entries_from_wal low high st =
     (if high \<le> low then Inr []
      else if rs_wal st = [] then Inl Unavailable
      else
        let found = filter (\<lambda>e. 0 < en_index e \<and> low \<le> en_index e \<and> en_index e < high)
                      (List.map_filter (decode_entry (rs_codec st)) (rs_wal st))
        in Inr (dedup_entries (sort_key en_index found)))"

fun size_limit :: "nat \<Rightarrow> nat \<Rightarrow> raft_entry list \<Rightarrow> nat" where
  "size_limit max_size used [] = 0"
| "size_limit max_size used (e # es) =
     (let used1 = used + (24 + length (en_data e))
      in if max_size < used1 then 0 else Suc (size_limit max_size used1 es))"

definition store_entries ::
  "nat \<Rightarrow> nat \<Rightarrow> nat option \<Rightarrow> raft_storage \<Rightarrow> (storage_error + raft_entry list) option" where
  "store_entries low high max_size st =
     (if high \<le> low then Some (Inr [])
      else if rs_entries st = [] then Some (Inr [])
      else if low < rs_first_index st then
        Some (case read_entries_from_wal low high st of Inr es \<Rightarrow> Inr es | Inl _ \<Rightarrow> Inl Unavailable)
      else if length (rs_entries st) + rs_first_index st < high then None
      else
        let es = take (high - low) (drop (low - rs_first_index st) (rs_entries st))
        in Some (Inr (case max_size of None \<Rightarrow> es | Some m \<Rightarrow> take (size_limit m 0 es) es)))"

definition store_term :: "nat \<Rightarrow> raft_storage \<Rightarrow> storage_error + nat" where
  "store_term idx st =
     (if idx = sn_index (rs_snapshot st) then Inr (sn_term (rs_snapshot st))
      else if idx < rs_first_index st then
        (case read_entries_from_wal idx (idx + 1) st of
           Inr (e # _) \<Rightarrow> Inr (en_term e)
         | _ \<Rightarrow> Inr (sn_term (rs_snapshot st)))
      else if length (rs_entries st) \<le> idx - rs_first_index st then Inl Unavailable
      else Inr (en_term (rs_entries st ! (idx - rs_first_index st))))"

definition store_first_index :: "raft_storage \<Rightarrow> nat" where
  "store_first_index st = rs_first_index st"

definition store_last_index :: "raft_storage \<Rightarrow> nat" where
  "store_last_index st =
     (if rs_entries st = [] then rs_first_index st - 1 else rs_first_index st + length (rs_entries st) - 1)"

definition store_snapshot :: "nat \<Rightarrow> nat \<Rightarrow> raft_storage \<Rightarrow> storage_error + raft_snapshot" where
  "store_snapshot request_index to st = Inr (rs_snapshot st)"


section \<open>Appending\<close>

fun contiguous :: "nat \<Rightarrow> raft_entry list \<Rightarrow> bool" where
  "contiguous n [] \<longleftrightarrow> True"
| "contiguous n (e # es) \<longleftrightarrow> en_index e = n \<and> contiguous (Suc n) es"

lemma contiguous_append: "contiguous n (xs @ ys) \<longleftrightarrow> contiguous n xs \<and> contiguous (n + length xs) ys"
  by (induction xs arbitrary: n) simp_all

lemma contiguous_nth: "\<lbrakk>contiguous n es; k < length es\<rbrakk> \<Longrightarrow> en_index (es ! k) = n + k"
  by (induction es arbitrary: n k) (auto simp: less_Suc_eq_0_disj)

lemma contiguous_take: "contiguous n es \<Longrightarrow> contiguous n (take k es)"
  by (metis append_take_drop_id contiguous_append)

lemma contiguous_drop: "contiguous n es \<Longrightarrow> contiguous (n + k) (drop k es)"
proof (induction es arbitrary: n k)
  case (Cons e es)
  then show ?case
    by (cases k) (fastforce simp: add.commute)+
qed simp

lemma put_entries_run:
  assumes "contiguous n es" and "f \<le> n" and "n \<le> f + length log"
  shows "fold (put_entry f) es (Some log) = Some (take (n - f) log @ es @ drop (n - f + length es) log)"
  using assms
proof (induction es arbitrary: n log)
  case (Cons e es)
  let ?k = "n - f"
  let ?log = "take ?k log @ [e] @ drop (?k + 1) log"
  have "put_entry f e (Some log) = Some ?log"
  proof (cases "?k < length log")
    case True
    then show ?thesis using Cons.prems by (simp add: put_entry_def upd_conv_take_nth_drop Let_def)
  next
    case False
    then have "?k = length log" using Cons.prems by simp
    then show ?thesis using Cons.prems by (simp add: put_entry_def Let_def)
  qed
  moreover have "fold (put_entry f) es (Some ?log) = Some (take (Suc n - f) ?log @ es @ drop (Suc n - f + length es) ?log)"
    using Cons.prems by (intro Cons.IH) auto
  moreover have "take (Suc n - f) ?log = take ?k log @ [e]" "drop (Suc n - f + length es) ?log = drop (?k + Suc (length es)) log"
    using Cons.prems by (simp_all add: Suc_diff_le min_def add.commute)
  ultimately show ?case by (simp add: add.commute)
qed simp

text \<open>
  What an append does to a log that is short enough not to be trimmed: the entries replace those at their indexes.
  Entries after them stay, also when the new ones conflict with them.
\<close>

lemma append_entries_run:
  assumes "es \<noteq> []" and "contiguous n es" and "rs_first_index st \<le> n" and "n \<le> rs_first_index st + length (rs_entries st)"
    and "length (rs_entries st) + length es \<le> MAX_UNSTABLE_ENTRIES"
  shows "append_entries es st =
    Some (st\<lparr>rs_entries := take (n - rs_first_index st) (rs_entries st) @ es @ drop (n - rs_first_index st + length es) (rs_entries st),
             rs_wal := rs_wal st @ map (encode_entry (rs_codec st)) es\<rparr>)"
proof -
  let ?log = "take (n - rs_first_index st) (rs_entries st) @ es @ drop (n - rs_first_index st + length es) (rs_entries st)"
  have "length ?log \<le> MAX_UNSTABLE_ENTRIES" using assms(4,5) by simp
  then show ?thesis
    using put_entries_run [OF assms(2-4)] assms(1) by (simp add: append_entries_def Let_def)
qed

text \<open>The interface asks for at least one entry when the range has any, but an entry above the size limit is withheld.\<close>

lemma oversized_entry_withheld:
  assumes "low < high" and "rs_first_index st \<le> low" and "high \<le> length (rs_entries st) + rs_first_index st"
    and "m < 24 + length (en_data (rs_entries st ! (low - rs_first_index st)))"
  shows "store_entries low high (Some m) st = Some (Inr [])"
proof -
  let ?es = "take (high - low) (drop (low - rs_first_index st) (rs_entries st))"
  obtain e es where es: "?es = e # es" using assms(1-3) by (cases ?es) auto
  have "e = ?es ! 0" by (simp add: es)
  also have "\<dots> = rs_entries st ! (low - rs_first_index st)" using assms(1-3) by simp
  finally have "size_limit m 0 ?es = 0" using assms(4) by (simp add: es Let_def)
  then show ?thesis using assms(1-3) by (auto simp: store_entries_def Let_def)
qed

section \<open>Restarting\<close>

text \<open>What the node does with its storage while it runs: the message loop calls no other writing operation.\<close>

datatype storage_op =
    Store_entries "raft_entry list" | Store_hard hard_state | Store_snapshot raft_snapshot | Store_truncate nat

fun store_op :: "storage_op \<Rightarrow> raft_storage \<Rightarrow> raft_storage option" where
  "store_op (Store_entries es) st = append_entries es st"
| "store_op (Store_hard hs) st = Some (persist_hard_state hs st)"
| "store_op (Store_snapshot s) st = Some (save_snapshot s st)"
| "store_op (Store_truncate i) st = Some (truncate_log_to_snapshot i st)"

fun store_ops :: "storage_op list \<Rightarrow> raft_storage \<Rightarrow> raft_storage option" where
  "store_ops [] st = Some st"
| "store_ops (p # ps) st = (case store_op p st of None \<Rightarrow> None | Some st1 \<Rightarrow> store_ops ps st1)"

definition restart_storage :: "nat list \<Rightarrow> raft_storage \<Rightarrow> raft_storage" where
  "restart_storage all_nodes st = initialize_wal_storage all_nodes (new_raft_storage (rs_codec st) (rs_wal st) (rs_files st))"

definition entry_like :: "proto_codec \<Rightarrow> byte list \<Rightarrow> bool" where
  "entry_like cd data \<longleftrightarrow> decode_entry cd data \<noteq> None"

lemma codec_ok_entry_like:
  assumes "codec_ok ty cd"
  shows "entry_like cd (encode_entry cd e)" and "entry_like cd (encode_hard_state cd hs)"
  using assms by (simp_all add: codec_ok_def entry_like_def)

lemma store_op_entry_like:
  assumes "codec_ok ty (rs_codec st)" and "store_op p st = Some st'" and "list_all (entry_like (rs_codec st)) (rs_wal st)"
  shows "rs_codec st' = rs_codec st \<and> list_all (entry_like (rs_codec st)) (rs_wal st')"
  using assms(2,3)
  by (cases p)
     (auto simp: append_entries_def persist_hard_state_def save_snapshot_def truncate_log_to_snapshot_def Let_def list_all_iff
        codec_ok_entry_like [OF assms(1)] split: if_splits option.splits)

lemma store_ops_entry_like:
  assumes "codec_ok ty (rs_codec st)" and "store_ops ps st = Some st'" and "list_all (entry_like (rs_codec st)) (rs_wal st)"
  shows "rs_codec st' = rs_codec st \<and> list_all (entry_like (rs_codec st)) (rs_wal st')"
  using assms
proof (induction ps arbitrary: st)
  case (Cons p ps)
  then obtain st1 where st1: "store_op p st = Some st1" "store_ops ps st1 = Some st'" by (auto split: option.splits)
  then show ?case using store_op_entry_like [OF Cons.prems(1) st1(1) Cons.prems(3)] Cons.IH [of st1] Cons.prems(1) by simp
qed simp

lemma parse_entry_like:
  "list_all (entry_like cd) wal \<Longrightarrow> \<exists>es'. fold (parse_record cd) wal (es, None, None) = (es', None, None)"
proof (induction wal arbitrary: es)
  case (Cons data wal)
  then obtain e where "decode_entry cd data = Some e" by (auto simp: entry_like_def)
  then have "\<exists>es1. parse_record cd data (es, None, None) = (es1, None, None)" by (simp add: parse_record_def)
  then show ?case using Cons by auto
qed simp

lemma recover_entry_like:
  assumes "list_all (entry_like cd) wal"
  shows "rs_hard (recover (new_raft_storage cd wal files)) = default_hard_state"
    and "rs_wal (recover (new_raft_storage cd wal files)) = wal"
  using parse_entry_like [OF assms, of "[]"]
  by (auto simp: recover_def restore_raft_state_def parse_wal_records_def load_latest_snapshot_def new_raft_storage_def Let_def
      split: prod.splits if_splits)

text \<open>C11: whatever a node has written, a restart forgets it. Records of the hard state decode as entries, so recovery never
  finds a hard state, no configuration is ever written, and the start of a node then resets what was recovered: term, vote and
  commit index are zero again and the log is empty.
\<close>

theorem restart_forgets:
  assumes "codec_ok ty cd" and "store_ops ps (new_raft_storage cd [] []) = Some st"
  shows "rs_hard (restart_storage all_nodes st) = default_hard_state \<and>
    rs_entries (restart_storage all_nodes st) = [] \<and> store_last_index (restart_storage all_nodes st) = 0"
proof -
  have "rs_codec st = cd \<and> list_all (entry_like cd) (rs_wal st)"
    using store_ops_entry_like [of ty "new_raft_storage cd [] []" ps st] assms by (simp add: new_raft_storage_def)
  then show ?thesis
    using recover_entry_like(1) [of cd "rs_wal st" "rs_files st"]
    by (simp add: restart_storage_def initialize_wal_storage_def has_recovered_state_def Let_def default_hard_state_def
        clear_entries_def set_raft_state_def store_last_index_def)
qed

text \<open>
  An instance of the encoding: the varint-free layout keeps one byte list per field, which is enough of protobuf's rules for
  the assumption to hold.
\<close>

definition unary :: "nat \<Rightarrow> byte list" where "unary n = replicate n 1 @ [0]"

fun ununary :: "nat \<Rightarrow> byte list \<Rightarrow> (nat \<times> byte list) option" where
  "ununary n [] = None"
| "ununary n (b # bs) = (if b = 0 then Some (n, bs) else ununary (Suc n) bs)"

definition entry_type_of :: "nat \<Rightarrow> entry_type" where
  "entry_type_of n = (if n = 1 then EntryConfChange else if n = 2 then EntryConfChangeV2 else EntryNormal)"

fun entry_type_number :: "entry_type \<Rightarrow> nat" where
  "entry_type_number EntryNormal = 0"
| "entry_type_number EntryConfChange = 1"
| "entry_type_number EntryConfChangeV2 = 2"

definition sample_codec :: proto_codec where
  "sample_codec =
     \<lparr>encode_entry = (\<lambda>e. unary (entry_type_number (en_type e)) @ unary (en_term e) @ unary (en_index e) @
        unary (length (en_data e)) @ en_data e @ en_context e),
      encode_hard_state = (\<lambda>hs. unary (hs_term hs) @ unary (hs_vote hs) @ unary (hs_commit hs) @ unary 0),
      encode_conf_state = (\<lambda>cs. []),
      decode_entry = (\<lambda>bs. case ununary 0 bs of None \<Rightarrow> None | Some (t, bs) \<Rightarrow>
        (case ununary 0 bs of None \<Rightarrow> None | Some (m, bs) \<Rightarrow>
        (case ununary 0 bs of None \<Rightarrow> None | Some (i, bs) \<Rightarrow>
        (case ununary 0 bs of None \<Rightarrow> None | Some (n, bs) \<Rightarrow>
          Some \<lparr>en_type = entry_type_of t, en_term = m, en_index = i, en_data = take n bs, en_context = drop n bs\<rparr>)))),
      decode_hard_state = (\<lambda>bs. None), decode_conf_state = (\<lambda>bs. None),
      decode_conf_change = (\<lambda>bs. None), decode_conf_change_v2 = (\<lambda>bs. None)\<rparr>"

lemma ununary_unary [simp]: "ununary n (unary k @ bs) = Some (n + k, bs)"
  by (induction k arbitrary: n) (simp_all add: unary_def)

lemma ununary_unary_Nil [simp]: "ununary n (unary k) = Some (n + k, [])"
  using ununary_unary [of n k "[]"] by simp

lemma entry_type_of_number [simp]: "entry_type_of (entry_type_number t) = t"
  by (cases t) (simp_all add: entry_type_of_def)

lemma sample_codec_ok: "codec_ok entry_type_of sample_codec"
  by (simp add: codec_ok_def sample_codec_def)

definition sample_ops :: "storage_op list" where
  "sample_ops = [Store_hard \<lparr>hs_term = 3, hs_vote = 2, hs_commit = 0\<rparr>,
     Store_entries [\<lparr>en_type = EntryNormal, en_term = 3, en_index = 1, en_data = [7], en_context = []\<rparr>],
     Store_hard \<lparr>hs_term = 3, hs_vote = 2, hs_commit = 1\<rparr>]"

definition sample_storage :: raft_storage where
  "sample_storage = the (store_ops sample_ops (new_raft_storage sample_codec [] []))"

lemma sample_storage_run: "store_ops sample_ops (new_raft_storage sample_codec [] []) = Some sample_storage"
  by (simp add: sample_storage_def sample_ops_def append_entries_def put_entry_def new_raft_storage_def persist_hard_state_def
      MAX_UNSTABLE_ENTRIES_def Let_def)

theorem restart_forgets_witness:
  "codec_ok entry_type_of sample_codec \<and> rs_hard sample_storage = \<lparr>hs_term = 3, hs_vote = 2, hs_commit = 1\<rparr> \<and>
   rs_hard (restart_storage [1, 2, 3] sample_storage) = default_hard_state \<and> rs_entries (restart_storage [1, 2, 3] sample_storage) = []"
proof -
  have "rs_hard sample_storage = \<lparr>hs_term = 3, hs_vote = 2, hs_commit = 1\<rparr>"
    by (simp add: sample_storage_def sample_ops_def append_entries_def put_entry_def new_raft_storage_def persist_hard_state_def
        MAX_UNSTABLE_ENTRIES_def Let_def)
  then show ?thesis
    using restart_forgets [OF sample_codec_ok sample_storage_run, of "[1, 2, 3]"] sample_codec_ok by simp
qed

text \<open>Snapshot files are ordered by name, not by index: the snapshot at index 999 counts as later than the one at 1000.\<close>

lemma latest_snapshot_by_name:
  "fst (load_latest_snapshot
     (save_snapshot (default_snapshot\<lparr>sn_index := 1000, sn_term := 1\<rparr>)
       (save_snapshot (default_snapshot\<lparr>sn_index := 999, sn_term := 1\<rparr>) (new_raft_storage cd [] [])))) =
   Some (default_snapshot\<lparr>sn_index := 999, sn_term := 1\<rparr>)"
  by (simp add: load_latest_snapshot_def save_snapshot_def new_raft_storage_def default_snapshot_def snapshot_file_name_def
      less_char_def char_of_def Let_def)

end
