(* ===== verification/Raft_Log.thy ===== *)
theory Raft_Log
  imports Raft_Storage
begin

text \<open>
  The log of a Raft node (\<open>raft/src/raft_log.rs\<close>, \<open>raft/src/log_unstable.rs\<close>, \<open>limit_size\<close> and
  \<open>entry_approximate_size\<close> of \<open>raft/src/util.rs\<close>) over the storage of \<open>Raft_Storage\<close>: entries that are not yet
  persisted shadow the stored ones from \<open>us_offset\<close> on. A panic (\<open>fatal!\<close>, \<open>assert!\<close>, a slice out of range) is
  \<^term>\<open>None\<close>; an error of the storage is the left side of a sum.
\<close>

section \<open>Entries not yet persisted\<close>

definition entry_approximate_size :: "raft_entry \<Rightarrow> nat" where
  "entry_approximate_size e = length (en_data e) + length (en_context e) + 12"

record unstable =
  us_snapshot :: "raft_snapshot option"
  us_entries :: "raft_entry list"
  us_size :: nat
  us_offset :: nat

definition new_unstable :: "nat \<Rightarrow> unstable" where
  "new_unstable off = \<lparr>us_snapshot = None, us_entries = [], us_size = 0, us_offset = off\<rparr>"

definition maybe_first_index :: "unstable \<Rightarrow> nat option" where
  "maybe_first_index u = map_option (\<lambda>s. sn_index s + 1) (us_snapshot u)"

definition maybe_last_index :: "unstable \<Rightarrow> nat option" where
  "maybe_last_index u =
     (if us_entries u = [] then map_option sn_index (us_snapshot u) else Some (us_offset u + length (us_entries u) - 1))"

definition maybe_term :: "nat \<Rightarrow> unstable \<Rightarrow> nat option" where
  "maybe_term idx u =
     (if idx < us_offset u then
        (case us_snapshot u of
           None \<Rightarrow> None
         | Some s \<Rightarrow> if idx = sn_index s then Some (sn_term s) else None)
      else
        (case maybe_last_index u of
           None \<Rightarrow> None
         | Some la \<Rightarrow> if la < idx then None else Some (en_term (us_entries u ! (idx - us_offset u)))))"

definition us_stable_entries :: "nat \<Rightarrow> nat \<Rightarrow> unstable \<Rightarrow> unstable option" where
  "us_stable_entries idx trm u =
     (if us_snapshot u \<noteq> None then None
      else if us_entries u = [] then None
      else
        let e = last (us_entries u)
        in if en_index e \<noteq> idx \<or> en_term e \<noteq> trm then None
           else Some (u\<lparr>us_offset := en_index e + 1, us_entries := [], us_size := 0\<rparr>))"

definition us_stable_snap :: "nat \<Rightarrow> unstable \<Rightarrow> unstable option" where
  "us_stable_snap idx u =
     (case us_snapshot u of
        None \<Rightarrow> None
      | Some s \<Rightarrow> if sn_index s \<noteq> idx then None else Some (u\<lparr>us_snapshot := None\<rparr>))"

definition us_restore :: "raft_snapshot \<Rightarrow> unstable \<Rightarrow> unstable" where
  "us_restore s u = u\<lparr>us_entries := [], us_size := 0, us_offset := sn_index s + 1, us_snapshot := Some s\<rparr>"

definition us_check_bounds :: "nat \<Rightarrow> nat \<Rightarrow> unstable \<Rightarrow> bool" where
  "us_check_bounds lo hi u \<longleftrightarrow> lo \<le> hi \<and> us_offset u \<le> lo \<and> hi \<le> us_offset u + length (us_entries u)"

definition truncate_and_append :: "raft_entry list \<Rightarrow> unstable \<Rightarrow> unstable option" where
  "truncate_and_append ents u =
     (case ents of
        [] \<Rightarrow> None
      | e # _ \<Rightarrow>
          let after = en_index e;
              add = (\<lambda>u. u\<lparr>us_entries := us_entries u @ ents, us_size := us_size u + sum_list (map entry_approximate_size ents)\<rparr>)
          in if after = us_offset u + length (us_entries u) then Some (add u)
             else if after \<le> us_offset u then Some (add (u\<lparr>us_offset := after, us_entries := [], us_size := 0\<rparr>))
             else if \<not> us_check_bounds (us_offset u) after u then None
             else
               let k = after - us_offset u
               in Some (add (u\<lparr>us_size := us_size u - sum_list (map entry_approximate_size (drop k (us_entries u))),
                              us_entries := take k (us_entries u)\<rparr>)))"

definition us_slice :: "nat \<Rightarrow> nat \<Rightarrow> unstable \<Rightarrow> raft_entry list option" where
  "us_slice lo hi u =
     (if us_check_bounds lo hi u then Some (take (hi - lo) (drop (lo - us_offset u) (us_entries u))) else None)"

section \<open>The log\<close>

record raft_log =
  lg_store :: raft_storage
  lg_unstable :: unstable
  lg_committed :: nat
  lg_persisted :: nat
  lg_applied :: nat
  lg_unpersisted_limit :: nat

definition new_raft_log :: "nat \<Rightarrow> raft_storage \<Rightarrow> raft_log" where
  "new_raft_log limit st =
     \<lparr>lg_store = st, lg_unstable = new_unstable (store_last_index st + 1), lg_committed = store_first_index st - 1,
      lg_persisted = store_last_index st, lg_applied = store_first_index st - 1, lg_unpersisted_limit = limit\<rparr>"

definition log_first_index :: "raft_log \<Rightarrow> nat" where
  "log_first_index lg = (case maybe_first_index (lg_unstable lg) of Some i \<Rightarrow> i | None \<Rightarrow> store_first_index (lg_store lg))"

definition log_last_index :: "raft_log \<Rightarrow> nat" where
  "log_last_index lg = (case maybe_last_index (lg_unstable lg) of Some i \<Rightarrow> i | None \<Rightarrow> store_last_index (lg_store lg))"

definition log_term :: "nat \<Rightarrow> raft_log \<Rightarrow> storage_error + nat" where
  "log_term idx lg =
     (if idx < log_first_index lg - 1 \<or> log_last_index lg < idx then Inr 0
      else (case maybe_term idx (lg_unstable lg) of Some t \<Rightarrow> Inr t | None \<Rightarrow> store_term idx (lg_store lg)))"

definition log_last_term :: "raft_log \<Rightarrow> nat option" where
  "log_last_term lg = (case log_term (log_last_index lg) lg of Inr t \<Rightarrow> Some t | Inl _ \<Rightarrow> None)"

definition match_term :: "nat \<Rightarrow> nat \<Rightarrow> raft_log \<Rightarrow> bool" where
  "match_term idx trm lg = (case log_term idx lg of Inr t \<Rightarrow> t = trm | Inl _ \<Rightarrow> False)"

fun find_conflict :: "raft_entry list \<Rightarrow> raft_log \<Rightarrow> nat" where
  "find_conflict [] lg = 0"
| "find_conflict (e # es) lg = (if match_term (en_index e) (en_term e) lg then find_conflict es lg else en_index e)"

text \<open>The loop of \<open>find_conflict_by_term\<close>; stepping below index zero is an underflow.\<close>

fun conflict_scan :: "nat \<Rightarrow> raft_log \<Rightarrow> nat \<Rightarrow> (nat \<times> nat option) option" where
  "conflict_scan trm lg idx =
     (case log_term idx lg of
        Inl _ \<Rightarrow> Some (idx, None)
      | Inr t \<Rightarrow>
          if trm < t then (case idx of 0 \<Rightarrow> None | Suc i \<Rightarrow> conflict_scan trm lg i)
          else Some (idx, Some t))"

definition find_conflict_by_term :: "nat \<Rightarrow> nat \<Rightarrow> raft_log \<Rightarrow> (nat \<times> nat option) option" where
  "find_conflict_by_term idx trm lg = (if log_last_index lg < idx then Some (idx, None) else conflict_scan trm lg idx)"

definition commit_to :: "nat \<Rightarrow> raft_log \<Rightarrow> raft_log" where
  "commit_to to_commit lg =
     (if to_commit \<le> lg_committed lg then lg
      else if log_last_index lg < to_commit then lg\<lparr>lg_committed := log_last_index lg\<rparr>
      else lg\<lparr>lg_committed := to_commit\<rparr>)"

definition log_append :: "raft_entry list \<Rightarrow> raft_log \<Rightarrow> raft_log option" where
  "log_append ents lg =
     (case ents of
        [] \<Rightarrow> Some lg
      | e # _ \<Rightarrow>
          if en_index e = 0 \<or> en_index e - 1 < lg_committed lg then None
          else map_option (\<lambda>u. lg\<lparr>lg_unstable := u\<rparr>) (truncate_and_append ents (lg_unstable lg)))"

definition maybe_append :: "nat \<Rightarrow> nat \<Rightarrow> nat \<Rightarrow> raft_entry list \<Rightarrow> raft_log \<Rightarrow> ((nat \<times> nat) option \<times> raft_log) option" where
  "maybe_append idx trm committed ents lg =
     (if \<not> match_term idx trm lg then Some (None, lg)
      else
        let conflict_idx = find_conflict ents lg;
            last_new_index = idx + length ents;
            finish = (\<lambda>lg. Some (Some (conflict_idx, last_new_index), commit_to (min committed last_new_index) lg))
        in if conflict_idx = 0 then finish lg
           else if conflict_idx \<le> lg_committed lg then None
           else if conflict_idx < idx + 1 \<or> length ents < conflict_idx - (idx + 1) then None
           else
             (case log_append (drop (conflict_idx - (idx + 1)) ents) lg of
                None \<Rightarrow> None
              | Some lg1 \<Rightarrow> finish (if conflict_idx - 1 < lg_persisted lg1 then lg1\<lparr>lg_persisted := conflict_idx - 1\<rparr> else lg1)))"

definition applied_to :: "nat \<Rightarrow> raft_log \<Rightarrow> raft_log option" where
  "applied_to idx lg =
     (if idx = 0 then Some lg
      else if lg_committed lg < idx \<or> idx < lg_applied lg then None
      else Some (lg\<lparr>lg_applied := idx\<rparr>))"

definition stable_entries :: "nat \<Rightarrow> nat \<Rightarrow> raft_log \<Rightarrow> raft_log option" where
  "stable_entries idx trm lg = map_option (\<lambda>u. lg\<lparr>lg_unstable := u\<rparr>) (us_stable_entries idx trm (lg_unstable lg))"

definition stable_snap :: "nat \<Rightarrow> raft_log \<Rightarrow> raft_log option" where
  "stable_snap idx lg = map_option (\<lambda>u. lg\<lparr>lg_unstable := u\<rparr>) (us_stable_snap idx (lg_unstable lg))"

definition is_up_to_date :: "nat \<Rightarrow> nat \<Rightarrow> raft_log \<Rightarrow> bool option" where
  "is_up_to_date last_index trm lg =
     map_option (\<lambda>t. t < trm \<or> trm = t \<and> log_last_index lg \<le> last_index) (log_last_term lg)"

definition NO_LIMIT :: nat where "NO_LIMIT = U64_MAX"

fun limit_count :: "proto_codec \<Rightarrow> nat \<Rightarrow> nat \<Rightarrow> raft_entry list \<Rightarrow> nat" where
  "limit_count cd mx used [] = 0"
| "limit_count cd mx used (e # es) =
     (let used1 = used + length (encode_entry cd e)
      in if used = 0 \<or> used1 \<le> mx then Suc (limit_count cd mx used1 es) else 0)"

definition limit_size :: "proto_codec \<Rightarrow> nat option \<Rightarrow> raft_entry list \<Rightarrow> raft_entry list" where
  "limit_size cd mx es =
     (if length es \<le> 1 then es
      else
        (case mx of
           None \<Rightarrow> es
         | Some m \<Rightarrow> if m = NO_LIMIT then es else take (limit_count cd m 0 es) es))"

definition log_check_bounds :: "nat \<Rightarrow> nat \<Rightarrow> raft_log \<Rightarrow> storage_error option option" where
  "log_check_bounds low high lg =
     (if high < low then None
      else if low < log_first_index lg then Some (Some Compacted)
      else if log_first_index lg + (log_last_index lg + 1 - log_first_index lg) < high then None
      else Some None)"

definition log_slice :: "nat \<Rightarrow> nat \<Rightarrow> nat option \<Rightarrow> raft_log \<Rightarrow> (storage_error + raft_entry list) option" where
  "log_slice low high max_size lg =
     (let off = us_offset (lg_unstable lg);
          with_unstable = (\<lambda>ents.
            map_option (\<lambda>us. Inr (limit_size (rs_codec (lg_store lg)) max_size (ents @ us)))
              (if off < high then us_slice (max low off) high (lg_unstable lg) else Some []))
      in case log_check_bounds low high lg of
           None \<Rightarrow> None
         | Some (Some err) \<Rightarrow> Some (Inl err)
         | Some None \<Rightarrow>
             if low = high then Some (Inr [])
             else if low < off then
               (case store_entries low (min high off) max_size (lg_store lg) of
                  None \<Rightarrow> None
                | Some (Inl Compacted) \<Rightarrow> Some (Inl Compacted)
                | Some (Inl LogTemporarilyUnavailable) \<Rightarrow> Some (Inl LogTemporarilyUnavailable)
                | Some (Inl _) \<Rightarrow> None
                | Some (Inr ents) \<Rightarrow> if length ents < min high off - low then Some (Inr ents) else with_unstable ents)
             else with_unstable [])"

definition log_entries :: "nat \<Rightarrow> nat option \<Rightarrow> raft_log \<Rightarrow> (storage_error + raft_entry list) option" where
  "log_entries idx max_size lg =
     (if log_last_index lg < idx then Some (Inr []) else log_slice idx (log_last_index lg + 1) max_size lg)"

definition applied_index_upper_bound :: "raft_log \<Rightarrow> nat" where
  "applied_index_upper_bound lg = min (lg_committed lg) (lg_persisted lg + lg_unpersisted_limit lg)"

definition has_next_entries_since :: "nat \<Rightarrow> raft_log \<Rightarrow> bool" where
  "has_next_entries_since since lg \<longleftrightarrow> max (since + 1) (log_first_index lg) < applied_index_upper_bound lg + 1"

definition next_entries_since :: "nat \<Rightarrow> nat option \<Rightarrow> raft_log \<Rightarrow> raft_entry list option option" where
  "next_entries_since since max_size lg =
     (let off = max (since + 1) (log_first_index lg);
          high = applied_index_upper_bound lg + 1
      in if off < high
         then (case log_slice off high max_size lg of Some (Inr es) \<Rightarrow> Some (Some es) | _ \<Rightarrow> None)
         else Some None)"

definition next_entries :: "nat option \<Rightarrow> raft_log \<Rightarrow> raft_entry list option option" where
  "next_entries max_size lg = next_entries_since (lg_applied lg) max_size lg"

definition has_next_entries :: "raft_log \<Rightarrow> bool" where
  "has_next_entries lg = has_next_entries_since (lg_applied lg) lg"

definition log_snapshot :: "nat \<Rightarrow> nat \<Rightarrow> raft_log \<Rightarrow> storage_error + raft_snapshot" where
  "log_snapshot request_index to lg =
     (case us_snapshot (lg_unstable lg) of
        Some s \<Rightarrow> if request_index \<le> sn_index s then Inr s else store_snapshot request_index to (lg_store lg)
      | None \<Rightarrow> store_snapshot request_index to (lg_store lg))"

definition maybe_commit :: "nat \<Rightarrow> nat \<Rightarrow> raft_log \<Rightarrow> bool \<times> raft_log" where
  "maybe_commit max_index trm lg =
     (if lg_committed lg < max_index \<and> log_term max_index lg = Inr trm then (True, commit_to max_index lg) else (False, lg))"

definition maybe_persist :: "nat \<Rightarrow> nat \<Rightarrow> raft_log \<Rightarrow> bool \<times> raft_log" where
  "maybe_persist idx trm lg =
     (let first_update_index = (case us_snapshot (lg_unstable lg) of Some s \<Rightarrow> sn_index s | None \<Rightarrow> us_offset (lg_unstable lg))
      in if lg_persisted lg < idx \<and> idx < first_update_index \<and> store_term idx (lg_store lg) = Inr trm
         then (True, lg\<lparr>lg_persisted := idx\<rparr>) else (False, lg))"

definition maybe_persist_snap :: "nat \<Rightarrow> raft_log \<Rightarrow> (bool \<times> raft_log) option" where
  "maybe_persist_snap idx lg =
     (if lg_persisted lg < idx then
        (if lg_committed lg < idx \<or> us_offset (lg_unstable lg) \<le> idx then None else Some (True, lg\<lparr>lg_persisted := idx\<rparr>))
      else Some (False, lg))"

definition log_restore :: "raft_snapshot \<Rightarrow> raft_log \<Rightarrow> raft_log option" where
  "log_restore s lg =
     (if sn_index s < lg_committed lg then None
      else Some (lg\<lparr>lg_persisted := min (lg_persisted lg) (lg_committed lg), lg_committed := sn_index s,
                    lg_unstable := us_restore s (lg_unstable lg)\<rparr>))"

definition commit_info :: "raft_log \<Rightarrow> (nat \<times> nat) option" where
  "commit_info lg = (case log_term (lg_committed lg) lg of Inr t \<Rightarrow> Some (lg_committed lg, t) | Inl _ \<Rightarrow> None)"

text \<open>
  The loop of \<open>scan\<close>: the callback threads a state and says whether to go on. Each round advances \<open>lo\<close> by the length of a
  non-empty slice, so the loop ends.
\<close>

function log_scan ::
  "nat \<Rightarrow> nat \<Rightarrow> nat \<Rightarrow> ('s \<Rightarrow> raft_entry list \<Rightarrow> bool \<times> 's) \<Rightarrow> 's \<Rightarrow> raft_log \<Rightarrow> (storage_error + 's) option" where
  "log_scan lo hi page_size v s lg =
     (if hi \<le> lo then Some (Inr s)
      else
        (case log_slice lo hi (Some page_size) lg of
           None \<Rightarrow> None
         | Some (Inl err) \<Rightarrow> Some (Inl err)
         | Some (Inr ents) \<Rightarrow>
             if ents = [] then Some (Inl Storage_other)
             else
               let (go_on, s1) = v s ents
               in if go_on then log_scan (lo + length ents) hi page_size v s1 lg else Some (Inr s1)))"
  by pat_completeness auto
termination
  by (relation "measure (\<lambda>(lo, hi, p, v, s, lg). hi - lo)") (auto intro!: diff_less_mono2)

declare log_scan.simps [simp del]
declare conflict_scan.simps [simp del]

section \<open>The log as one sequence\<close>

definition lookup_at :: "nat \<Rightarrow> raft_entry list \<Rightarrow> nat \<Rightarrow> raft_entry option" where
  "lookup_at base es i = (if base \<le> i \<and> i - base < length es then Some (es ! (i - base)) else None)"

definition log_at :: "raft_log \<Rightarrow> nat \<Rightarrow> raft_entry option" where
  "log_at lg i =
     (let u = lg_unstable lg
      in if us_offset u \<le> i \<and> us_entries u \<noteq> [] then lookup_at (us_offset u) (us_entries u) i
         else if us_snapshot u \<noteq> None then None
         else lookup_at (rs_first_index (lg_store lg)) (rs_entries (lg_store lg)) i)"

definition store_wf :: "raft_storage \<Rightarrow> bool" where
  "store_wf st \<longleftrightarrow> sn_index (rs_snapshot st) < rs_first_index st \<and> contiguous (rs_first_index st) (rs_entries st)"

definition unstable_wf :: "raft_storage \<Rightarrow> unstable \<Rightarrow> bool" where
  "unstable_wf st u \<longleftrightarrow> contiguous (us_offset u) (us_entries u) \<and> us_size u = sum_list (map entry_approximate_size (us_entries u)) \<and>
     (case us_snapshot u of
        Some s \<Rightarrow> us_offset u = sn_index s + 1
      | None \<Rightarrow> rs_first_index st \<le> us_offset u \<and> us_offset u \<le> store_last_index st + 1 \<and>
                (us_entries u = [] \<longrightarrow> us_offset u = store_last_index st + 1))"

definition log_wf :: "raft_log \<Rightarrow> bool" where
  "log_wf lg \<longleftrightarrow> store_wf (lg_store lg) \<and> unstable_wf (lg_store lg) (lg_unstable lg) \<and>
     log_first_index lg \<le> lg_committed lg + 1 \<and> lg_committed lg \<le> log_last_index lg \<and> lg_persisted lg < us_offset (lg_unstable lg)"

lemmas log_wf_defs = log_wf_def store_wf_def unstable_wf_def
lemmas log_index_defs =
  log_first_index_def log_last_index_def maybe_first_index_def maybe_last_index_def store_first_index_def store_last_index_def

lemma store_last_index_eq:
  "store_wf st \<Longrightarrow> store_last_index st + 1 = rs_first_index st + length (rs_entries st)"
  by (auto simp: store_last_index_def store_wf_def)

lemma log_last_index_eq:
  assumes "log_wf lg"
  shows "log_last_index lg + 1 = us_offset (lg_unstable lg) + length (us_entries (lg_unstable lg))"
  using assms by (auto simp: log_wf_defs log_last_index_def maybe_last_index_def split: option.splits)

lemma log_first_index_pos: "log_wf lg \<Longrightarrow> 0 < log_first_index lg"
  by (auto simp: log_wf_defs log_index_defs split: option.splits)

lemma log_first_le_offset: "log_wf lg \<Longrightarrow> log_first_index lg \<le> us_offset (lg_unstable lg)"
  by (auto simp: log_wf_defs log_index_defs split: option.splits)

lemma lookup_at_ex: "\<lbrakk>base \<le> i; i < base + length es\<rbrakk> \<Longrightarrow> \<exists>e. lookup_at base es i = Some e"
  by (simp add: lookup_at_def less_diff_conv2)

lemma lookup_at_last: "\<lbrakk>es \<noteq> []; n + 1 = base + length es\<rbrakk> \<Longrightarrow> lookup_at base es n = Some (last es)"
  by (cases "length es") (auto simp: lookup_at_def last_conv_nth)

lemma lookup_at_index: "\<lbrakk>contiguous base es; lookup_at base es i = Some e\<rbrakk> \<Longrightarrow> en_index e = i"
  by (auto simp: lookup_at_def contiguous_nth split: if_splits)

lemma log_at_ex:
  assumes "log_wf lg" and "log_first_index lg \<le> i" and "i \<le> log_last_index lg"
  shows "\<exists>e. log_at lg i = Some e"
proof (cases "us_offset (lg_unstable lg) \<le> i")
  case True
  then show ?thesis
    using log_last_index_eq [OF assms(1)] assms(3) lookup_at_ex [of "us_offset (lg_unstable lg)" i "us_entries (lg_unstable lg)"]
    by (auto simp: log_at_def Let_def)
next
  case False
  then have "us_snapshot (lg_unstable lg) = None"
    using assms by (auto simp: log_wf_defs log_index_defs split: option.splits)
  then show ?thesis
    using False assms store_last_index_eq [of "lg_store lg"]
      lookup_at_ex [of "rs_first_index (lg_store lg)" i "rs_entries (lg_store lg)"]
    by (auto simp: log_at_def Let_def log_wf_defs log_first_index_def maybe_first_index_def store_first_index_def)
qed

lemma log_at_bounds:
  assumes "log_wf lg" and "log_at lg i = Some e"
  shows "log_first_index lg \<le> i \<and> i \<le> log_last_index lg \<and> en_index e = i"
proof (cases "us_offset (lg_unstable lg) \<le> i \<and> us_entries (lg_unstable lg) \<noteq> []")
  case True
  then have "lookup_at (us_offset (lg_unstable lg)) (us_entries (lg_unstable lg)) i = Some e"
    using assms(2) by (simp add: log_at_def Let_def)
  then show ?thesis
    using True log_last_index_eq [OF assms(1)] log_first_le_offset [OF assms(1)] assms(1)
      lookup_at_index [of "us_offset (lg_unstable lg)" "us_entries (lg_unstable lg)" i e]
    by (auto simp: log_wf_defs lookup_at_def split: if_splits)
next
  case False
  then have at: "us_snapshot (lg_unstable lg) = None"
      "lookup_at (rs_first_index (lg_store lg)) (rs_entries (lg_store lg)) i = Some e"
    using assms(2) by (auto simp: log_at_def Let_def split: if_splits)
  then have "i \<le> log_last_index lg"
    using False log_last_index_eq [OF assms(1)] store_last_index_eq [of "lg_store lg"] assms(1)
    by (cases "us_entries (lg_unstable lg) = []") (auto simp: log_wf_defs lookup_at_def split: if_splits)
  then show ?thesis
    using at assms(1) lookup_at_index [of "rs_first_index (lg_store lg)" "rs_entries (lg_store lg)" i e]
    by (auto simp: log_wf_defs lookup_at_def log_first_index_def maybe_first_index_def store_first_index_def split: if_splits)
qed

lemma log_term_at:
  assumes "log_wf lg" and "log_at lg i = Some e"
  shows "log_term i lg = Inr (en_term e)"
proof (cases "us_offset (lg_unstable lg) \<le> i \<and> us_entries (lg_unstable lg) \<noteq> []")
  case True
  then show ?thesis
    using log_at_bounds [OF assms] assms log_last_index_eq [OF assms(1)]
    by (auto simp: log_term_def maybe_term_def log_at_def lookup_at_def maybe_last_index_def Let_def split: if_splits)
next
  case False
  then have at: "us_snapshot (lg_unstable lg) = None"
      "lookup_at (rs_first_index (lg_store lg)) (rs_entries (lg_store lg)) i = Some e"
    using assms(2) by (auto simp: log_at_def Let_def split: if_splits)
  then have "maybe_term i (lg_unstable lg) = None" using False by (auto simp: maybe_term_def maybe_last_index_def)
  moreover have "store_term i (lg_store lg) = Inr (en_term e)"
    using at(2) assms(1) by (auto simp: store_term_def lookup_at_def log_wf_defs split: if_splits)
  ultimately show ?thesis using log_at_bounds [OF assms] by (auto simp: log_term_def)
qed

lemma match_term_at:
  assumes "log_wf lg" and "log_first_index lg \<le> i" and "0 < t"
  shows "match_term i t lg \<longleftrightarrow> (\<exists>e. log_at lg i = Some e \<and> en_term e = t)"
proof (cases "i \<le> log_last_index lg")
  case True
  then show ?thesis using log_at_ex [OF assms(1,2)] log_term_at [OF assms(1)] by (auto simp: match_term_def)
next
  case False
  then show ?thesis
    using log_at_bounds [OF assms(1), of i] assms(3) by (auto simp: match_term_def log_term_def)
qed

section \<open>Appending\<close>

lemma lookup_at_take:
  "lookup_at base (take k es) i = (if i < base + k then lookup_at base es i else None)"
  by (auto simp: lookup_at_def)

lemma lookup_at_append:
  "lookup_at base (xs @ ys) i = (if i < base + length xs then lookup_at base xs i else lookup_at (base + length xs) ys i)"
  by (auto simp: lookup_at_def nth_append)

lemma truncate_and_append_run:
  assumes "contiguous c es" and "es \<noteq> []" and "us_offset u \<le> c" and "c \<le> us_offset u + length (us_entries u)"
    and "us_size u = sum_list (map entry_approximate_size (us_entries u))"
  shows "\<exists>u'. truncate_and_append es u = Some u' \<and> us_snapshot u' = us_snapshot u \<and> us_offset u' = us_offset u \<and>
    us_entries u' = take (c - us_offset u) (us_entries u) @ es \<and> us_size u' = sum_list (map entry_approximate_size (us_entries u'))"
proof -
  let ?k = "c - us_offset u"
  have size: "us_size u - sum_list (map entry_approximate_size (drop ?k (us_entries u))) =
      sum_list (map entry_approximate_size (take ?k (us_entries u)))"
    unfolding assms(5) by (subst (1) append_take_drop_id [of ?k, symmetric]) (simp only: map_append sum_list_append add_diff_cancel_right')
  obtain e es' where es: "es = e # es'" using assms(2) by (cases es) auto
  then have e: "en_index e = c" using assms(1) by simp
  consider "c = us_offset u + length (us_entries u)" | "c = us_offset u" "c < us_offset u + length (us_entries u)"
    | "us_offset u < c" "c < us_offset u + length (us_entries u)"
    using assms(3,4) by linarith
  then show ?thesis
  proof cases
    case 1
    then show ?thesis using assms(5) by (simp add: truncate_and_append_def es e Let_def)
  next
    case 2
    then show ?thesis by (simp add: truncate_and_append_def es e Let_def)
  next
    case 3
    then show ?thesis using size by (simp add: truncate_and_append_def es e Let_def us_check_bounds_def)
  qed
qed

text \<open>Appending at \<open>c\<close>, above the committed entries, replaces everything from \<open>c\<close> on.\<close>

definition appended_at :: "nat \<Rightarrow> raft_entry list \<Rightarrow> raft_log \<Rightarrow> raft_log \<Rightarrow> bool" where
  "appended_at c es lg lg' \<longleftrightarrow>
     (\<forall>i. log_at lg' i = (if i < c then log_at lg i else lookup_at c es i)) \<and> log_last_index lg' + 1 = c + length es \<and>
     log_first_index lg' = log_first_index lg \<and> lg_committed lg' = lg_committed lg \<and> lg_persisted lg' = lg_persisted lg \<and>
     lg_applied lg' = lg_applied lg \<and> log_wf (lg'\<lparr>lg_persisted := min (lg_persisted lg) (c - 1)\<rparr>)"

lemma append_below_offset:
  assumes wf: "log_wf lg" and es: "contiguous c es" "es \<noteq> []" and c: "lg_committed lg < c" "c < us_offset (lg_unstable lg)"
  shows "\<exists>u. truncate_and_append es (lg_unstable lg) = Some u \<and> appended_at c es lg (lg\<lparr>lg_unstable := u\<rparr>)"
proof -
  let ?u = "lg_unstable lg"
  let ?v = "?u\<lparr>us_offset := c, us_entries := es, us_size := sum_list (map entry_approximate_size es)\<rparr>"
  obtain e es' where e: "es = e # es'" "en_index e = c" using es by (cases es) auto
  have snap: "us_snapshot ?u = None"
    using wf c by (auto simp: log_wf_defs log_first_index_def maybe_first_index_def split: option.splits)
  have run: "truncate_and_append es ?u = Some ?v"
    using c(2) by (simp add: truncate_and_append_def e Let_def)
  have "rs_first_index (lg_store lg) \<le> c" "c \<le> store_last_index (lg_store lg) + 1"
    using wf c snap by (auto simp: log_wf_defs log_first_index_def maybe_first_index_def store_first_index_def)
  then have "appended_at c es lg (lg\<lparr>lg_unstable := ?v\<rparr>)"
    using wf c snap es
    by (auto simp: appended_at_def log_at_def log_wf_defs Let_def log_first_index_def log_last_index_def maybe_first_index_def
        maybe_last_index_def store_first_index_def)
  then show ?thesis using run by blast
qed

lemma append_from_offset:
  assumes wf: "log_wf lg" and es: "contiguous c es" "es \<noteq> []"
    and c: "lg_committed lg < c" "us_offset (lg_unstable lg) \<le> c" "c \<le> log_last_index lg + 1"
  shows "\<exists>u. truncate_and_append es (lg_unstable lg) = Some u \<and> appended_at c es lg (lg\<lparr>lg_unstable := u\<rparr>)"
proof -
  let ?u = "lg_unstable lg"
  let ?k = "c - us_offset ?u"
  have c': "c \<le> us_offset ?u + length (us_entries ?u)" using c(3) log_last_index_eq [OF wf] by simp
  have "us_size ?u = sum_list (map entry_approximate_size (us_entries ?u))" using wf by (simp add: log_wf_defs)
  from truncate_and_append_run [OF es c(2) c' this] obtain v where v: "truncate_and_append es ?u = Some v"
    "us_snapshot v = us_snapshot ?u" "us_offset v = us_offset ?u" "us_entries v = take ?k (us_entries ?u) @ es"
    "us_size v = sum_list (map entry_approximate_size (us_entries v))" by blast
  have len: "length (take ?k (us_entries ?u)) = ?k" using c' c(2) by simp
  have cont: "contiguous (us_offset v) (us_entries v)"
    using wf es c(2) by (simp add: v(3,4) contiguous_append len contiguous_take log_wf_defs del: length_take)
  have at: "log_at (lg\<lparr>lg_unstable := v\<rparr>) i = (if i < c then log_at lg i else lookup_at c es i)" for i
    using c(2) c' es(2) by (auto simp: log_at_def v(2-4) Let_def lookup_at_append len lookup_at_take simp del: length_take)
  have "log_last_index (lg\<lparr>lg_unstable := v\<rparr>) + 1 = c + length es"
    using es(2) c(2) by (simp add: log_last_index_def maybe_last_index_def v(3,4) len del: length_take)
  then have "appended_at c es lg (lg\<lparr>lg_unstable := v\<rparr>)"
    using wf c es at cont v(5)
    by (auto simp: appended_at_def log_wf_defs log_first_index_def maybe_first_index_def v(2-4) split: option.splits)
  then show ?thesis using v(1) by blast
qed

lemma log_append_run:
  assumes "log_wf lg" and "contiguous c es" and "es \<noteq> []" and "lg_committed lg < c" and "c \<le> log_last_index lg + 1"
  shows "\<exists>lg'. log_append es lg = Some lg' \<and> appended_at c es lg lg'"
proof -
  obtain e es' where e: "es = e # es'" "en_index e = c" using assms(2,3) by (cases es) auto
  have "\<exists>u. truncate_and_append es (lg_unstable lg) = Some u \<and> appended_at c es lg (lg\<lparr>lg_unstable := u\<rparr>)"
    using append_below_offset [OF assms(1-4)] append_from_offset [OF assms(1-4) _ assms(5)]
    by (cases "c < us_offset (lg_unstable lg)") auto
  then show ?thesis using assms(4) e by (auto simp: log_append_def)
qed

lemma log_at_cong [simp]:
  "log_at (lg\<lparr>lg_committed := n\<rparr>) = log_at lg" "log_at (lg\<lparr>lg_persisted := n\<rparr>) = log_at lg"
  by (simp_all add: log_at_def fun_eq_iff Let_def)

lemma log_index_cong [simp]:
  "log_first_index (lg\<lparr>lg_committed := n\<rparr>) = log_first_index lg" "log_first_index (lg\<lparr>lg_persisted := n\<rparr>) = log_first_index lg"
  "log_last_index (lg\<lparr>lg_committed := n\<rparr>) = log_last_index lg" "log_last_index (lg\<lparr>lg_persisted := n\<rparr>) = log_last_index lg"
  by (simp_all add: log_first_index_def log_last_index_def split: option.split)

lemma commit_to_at [simp]: "log_at (commit_to n lg) = log_at lg"
  by (simp add: commit_to_def)

lemma commit_to_last [simp]: "log_last_index (commit_to n lg) = log_last_index lg"
  by (simp add: commit_to_def)

lemma commit_to_committed: "n \<le> log_last_index lg \<Longrightarrow> lg_committed (commit_to n lg) = max (lg_committed lg) n"
  by (simp add: commit_to_def)

lemma commit_to_wf: "log_wf lg \<Longrightarrow> log_wf (commit_to n lg)"
  by (auto simp: commit_to_def log_wf_def)

lemma find_conflict_split:
  assumes "contiguous n ents" and "0 < n"
  shows "find_conflict ents lg = 0 \<and> (\<forall>e\<in>set ents. match_term (en_index e) (en_term e) lg) \<or>
    (\<exists>k<length ents. find_conflict ents lg = n + k \<and> (\<forall>e\<in>set (take k ents). match_term (en_index e) (en_term e) lg) \<and>
       \<not> match_term (n + k) (en_term (ents ! k)) lg)"
  using assms
proof (induction ents arbitrary: n)
  case (Cons e es)
  show ?case
  proof (cases "match_term (en_index e) (en_term e) lg")
    case True
    have "contiguous (Suc n) es" using Cons.prems by simp
    from Cons.IH [OF this zero_less_Suc] True show ?thesis
    proof (elim disjE exE conjE)
      fix k
      assume "k < length es" "find_conflict es lg = Suc n + k" "\<forall>e\<in>set (take k es). match_term (en_index e) (en_term e) lg"
        "\<not> match_term (Suc n + k) (en_term (es ! k)) lg"
      then show ?thesis using True by (intro disjI2 exI [of _ "Suc k"]) simp
    qed simp_all
  next
    case False
    then show ?thesis using Cons.prems by (intro disjI2 exI [of _ 0]) simp
  qed
qed simp

lemma match_term_le_last: "\<lbrakk>match_term i t lg; 0 < t\<rbrakk> \<Longrightarrow> i \<le> log_last_index lg"
  by (auto simp: match_term_def log_term_def split: if_splits)

lemma prefix_matched_le_last:
  assumes "contiguous (Suc idx) ents" and "\<forall>e\<in>set ents. 0 < en_term e" and "idx \<le> log_last_index lg"
    and "k \<le> length ents" and "\<forall>e\<in>set (take k ents). match_term (en_index e) (en_term e) lg"
  shows "idx + k \<le> log_last_index lg"
proof (cases k)
  case (Suc j)
  then have j: "ents ! j \<in> set (take k ents)" using assms(4) by (auto simp: in_set_conv_nth)
  moreover have "en_index (ents ! j) = idx + k" using contiguous_nth [OF assms(1), of j] assms(4) Suc by simp
  ultimately show ?thesis
    using match_term_le_last [of "idx + k" "en_term (ents ! j)" lg] assms(2,5) by (metis in_set_takeD)
qed (simp add: assms(3))

lemma lookup_at_drop: "base + k \<le> i \<Longrightarrow> lookup_at (base + k) (drop k es) i = lookup_at base es i"
  by (auto simp: lookup_at_def)

definition log_after :: "nat \<Rightarrow> raft_entry list \<Rightarrow> nat \<Rightarrow> raft_log \<Rightarrow> raft_log \<Rightarrow> bool" where
  "log_after idx ents c lg lg' \<longleftrightarrow>
     (if c = 0 then log_at lg' = log_at lg
      else lg_committed lg < c \<and> idx < c \<and>
           log_at lg' = (\<lambda>i. if i < c then log_at lg i else lookup_at (Suc idx) ents i))"

lemma maybe_append_conflict:
  assumes wf: "log_wf lg" and ents: "contiguous (Suc idx) ents" and m: "match_term idx trm lg"
    and k: "k < length ents" "find_conflict ents lg = Suc idx + k" "lg_committed lg < Suc idx + k" "idx + k \<le> log_last_index lg"
  shows "\<exists>lg'. maybe_append idx trm committed ents lg = Some (Some (Suc idx + k, idx + length ents), lg') \<and> log_wf lg' \<and>
    lg_committed lg' = max (lg_committed lg) (min committed (idx + length ents)) \<and> log_after idx ents (Suc idx + k) lg lg'"
proof -
  let ?c = "Suc idx + k"
  have "contiguous ?c (drop k ents)" "drop k ents \<noteq> []" using contiguous_drop [OF ents, of k] k(1) by simp_all
  then obtain lg1 where lg1: "log_append (drop k ents) lg = Some lg1" "appended_at ?c (drop k ents) lg lg1"
    using log_append_run [OF wf _ _ k(3)] k(4) by (metis Suc_eq_plus1 Suc_le_mono add_Suc)
  define lg2 where "lg2 = (if ?c - 1 < lg_persisted lg1 then lg1\<lparr>lg_persisted := ?c - 1\<rparr> else lg1)"
  have last1: "log_last_index lg1 = idx + length ents"
    using lg1(2) k(1) by (simp add: appended_at_def)
  have "lg2 = lg1\<lparr>lg_persisted := min (lg_persisted lg1) (?c - 1)\<rparr>" by (simp add: lg2_def min_def)
  then have lg2: "log_wf lg2" "log_last_index lg2 = idx + length ents" "lg_committed lg2 = lg_committed lg" "log_at lg2 = log_at lg1"
    using lg1(2) last1 by (simp_all add: appended_at_def)
  have run: "maybe_append idx trm committed ents lg = Some (Some (?c, idx + length ents), commit_to (min committed (idx + length ents)) lg2)"
    using m k lg1(1) by (simp add: maybe_append_def Let_def lg2_def)
  have "log_at lg1 i = (if i < ?c then log_at lg i else lookup_at (Suc idx) ents i)" for i
    using lg1(2) lookup_at_drop [of "Suc idx" k i ents] by (simp add: appended_at_def)
  then have "log_after idx ents ?c lg (commit_to (min committed (idx + length ents)) lg2)"
    using k(3) by (simp add: log_after_def lg2(4) fun_eq_iff)
  then show ?thesis using run lg2 commit_to_wf [OF lg2(1)] by (auto simp: commit_to_committed)
qed


section \<open>Persisting\<close>

text \<open>
  The entries handed out as not yet persisted are appended to the storage, then the log is told that they are stable
  (\<open>commit_ready\<close> in \<open>raft/src/raw_node.rs\<close>).
\<close>

definition persist_log :: "raft_log \<Rightarrow> raft_log option" where
  "persist_log lg =
     (let ents = us_entries (lg_unstable lg)
      in if ents = [] then Some lg
         else
           (case append_entries ents (lg_store lg) of
              None \<Rightarrow> None
            | Some st \<Rightarrow> stable_entries (en_index (last ents)) (en_term (last ents)) (lg\<lparr>lg_store := st\<rparr>)))"

lemma persist_log_run:
  fixes lg
  defines "u \<equiv> lg_unstable lg" and "st \<equiv> lg_store lg"
  assumes wf: "log_wf lg" and none: "us_snapshot u = None" and ne: "us_entries u \<noteq> []"
    and small: "length (rs_entries st) + length (us_entries u) \<le> MAX_UNSTABLE_ENTRIES"
  shows "persist_log lg =
    Some (lg\<lparr>lg_store := st\<lparr>rs_entries := take (us_offset u - rs_first_index st) (rs_entries st) @ us_entries u @
                drop (us_offset u - rs_first_index st + length (us_entries u)) (rs_entries st),
              rs_wal := rs_wal st @ map (encode_entry (rs_codec st)) (us_entries u)\<rparr>,
            lg_unstable := \<lparr>us_snapshot = None, us_entries = [], us_size = 0, us_offset = log_last_index lg + 1\<rparr>\<rparr>)"
proof -
  have "contiguous (us_offset u) (us_entries u)" "rs_first_index st \<le> us_offset u"
    "us_offset u \<le> rs_first_index st + length (rs_entries st)"
    using wf none store_last_index_eq [of st] by (auto simp: log_wf_defs u_def st_def)
  note run = append_entries_run [OF ne this small]
  have "en_index (last (us_entries u)) = log_last_index lg"
    using contiguous_nth [OF \<open>contiguous _ _\<close>, of "length (us_entries u) - 1"] log_last_index_eq [OF wf] ne
    by (simp add: last_conv_nth u_def)
  then show ?thesis
    using run ne none by (simp add: persist_log_def stable_entries_def us_stable_entries_def u_def st_def Let_def)
qed

lemma persist_log_view:
  fixes lg
  defines "u \<equiv> lg_unstable lg" and "st \<equiv> lg_store lg"
  assumes wf: "log_wf lg" and none: "us_snapshot u = None" and ne: "us_entries u \<noteq> []"
    and small: "length (rs_entries st) + length (us_entries u) \<le> MAX_UNSTABLE_ENTRIES"
  shows "\<exists>lg'. persist_log lg = Some lg' \<and> store_wf (lg_store lg') \<and> us_snapshot (lg_unstable lg') = None \<and>
    us_entries (lg_unstable lg') = [] \<and>
    log_last_index lg' = max (log_last_index lg) (store_last_index st) \<and>
    (\<forall>i. log_at lg' i = (if i \<le> log_last_index lg then log_at lg i else lookup_at (rs_first_index st) (rs_entries st) i))"
proof -
  let ?k = "us_offset u - rs_first_index st" and ?n = "length (us_entries u)"
  let ?log = "take ?k (rs_entries st) @ us_entries u @ drop (?k + ?n) (rs_entries st)"
  have st: "store_wf st" "contiguous (us_offset u) (us_entries u)" "rs_first_index st \<le> us_offset u"
    "us_offset u \<le> rs_first_index st + length (rs_entries st)" "contiguous (rs_first_index st) (rs_entries st)"
    using wf none store_last_index_eq [of st] by (auto simp: log_wf_defs u_def st_def)
  have k: "length (take ?k (rs_entries st)) = ?k" using st(3,4) by simp
  have "contiguous (rs_first_index st) ?log"
    using st(2,3) contiguous_take [OF st(5)] contiguous_drop [OF st(5), of "?k + ?n"]
    by (simp add: contiguous_append k del: length_take)
  then have wf': "store_wf (st\<lparr>rs_entries := ?log, rs_wal := w\<rparr>)" for w using st(1) by (simp add: store_wf_def)
  have last: "log_last_index lg + 1 = us_offset u + ?n" using log_last_index_eq [OF wf] by (simp add: u_def)
  have at: "lookup_at (rs_first_index st) ?log i =
      (if i \<le> log_last_index lg then log_at lg i else lookup_at (rs_first_index st) (rs_entries st) i)" for i
  proof -
    have "lookup_at (rs_first_index st) ?log i =
        (if i < us_offset u then lookup_at (rs_first_index st) (rs_entries st) i
         else if i < us_offset u + ?n then lookup_at (us_offset u) (us_entries u) i
         else lookup_at (rs_first_index st) (rs_entries st) i)"
      using st(3) lookup_at_drop [of "rs_first_index st" "?k + ?n" i "rs_entries st"]
      by (simp add: lookup_at_append k lookup_at_take del: length_take)
    then show ?thesis using last ne none by (auto simp: log_at_def Let_def u_def st_def)
  qed
  have "rs_first_index st + length ?log = max (log_last_index lg + 1) (store_last_index st + 1)"
    using store_last_index_eq [OF st(1)] last st(3,4) by (simp add: max_def)
  then have "store_last_index (st\<lparr>rs_entries := ?log, rs_wal := w\<rparr>) = max (log_last_index lg) (store_last_index st)" for w
    using store_last_index_eq [OF wf', of w] by simp
  then show ?thesis
    using persist_log_run [OF wf] none ne small at wf'
    by (auto simp: u_def st_def log_at_def log_last_index_def maybe_last_index_def Let_def)
qed

text \<open>C13: persisting does not remove what the log had truncated. When the log ends below the last stored entry, because a leader's append
  replaced a conflicting suffix, the stored rest of that suffix is the end of the log again after persisting. If its last
  term is lower than the term of the entry just persisted, a candidate that lacks this entry is then granted a vote that
  was refused before.
\<close>

theorem stale_suffix_resurfaces:
  fixes lg
  defines "u \<equiv> lg_unstable lg" and "st \<equiv> lg_store lg"
  assumes wf: "log_wf lg" and none: "us_snapshot u = None" and ne: "us_entries u \<noteq> []"
    and small: "length (rs_entries st) + length (us_entries u) \<le> MAX_UNSTABLE_ENTRIES"
    and stale: "log_last_index lg < store_last_index st" "en_term (last (rs_entries st)) < en_term (last (us_entries u))"
  shows "\<exists>lg'. persist_log lg = Some lg' \<and> log_last_index lg' = store_last_index st \<and>
    (\<forall>i. log_last_index lg < i \<longrightarrow> log_at lg' i = lookup_at (rs_first_index st) (rs_entries st) i) \<and>
    is_up_to_date (store_last_index st) (en_term (last (rs_entries st))) lg = Some False \<and>
    is_up_to_date (store_last_index st) (en_term (last (rs_entries st))) lg' = Some True"
proof -
  obtain lg' where lg': "persist_log lg = Some lg'" "store_wf (lg_store lg')" "us_snapshot (lg_unstable lg') = None"
    "us_entries (lg_unstable lg') = []" "log_last_index lg' = max (log_last_index lg) (store_last_index st)"
    "\<forall>i. log_at lg' i = (if i \<le> log_last_index lg then log_at lg i else lookup_at (rs_first_index st) (rs_entries st) i)"
    using persist_log_view [OF wf] none ne small unfolding u_def st_def by blast
  have L: "log_last_index lg' = store_last_index st" using lg'(5) stale(1) by simp
  have st: "store_last_index st + 1 = rs_first_index st + length (rs_entries st)" "rs_entries st \<noteq> []"
    using wf stale(1) store_last_index_eq [of st] none log_last_index_eq [OF wf] ne
    by (auto simp: log_wf_defs u_def st_def Suc_le_eq)
  have "us_offset u \<le> log_last_index lg" using log_last_index_eq [OF wf] ne by (cases "us_entries u") (auto simp: u_def)
  then have "log_at lg (log_last_index lg) = Some (last (us_entries u))"
    using ne lookup_at_last [of "us_entries u"] log_last_index_eq [OF wf] by (simp add: log_at_def u_def Let_def)
  then have old: "log_last_term lg = Some (en_term (last (us_entries u)))"
    using log_term_at [OF wf] by (simp add: log_last_term_def)
  have "log_at lg' (store_last_index st) = Some (last (rs_entries st))"
    using lg'(6) stale(1) lookup_at_last [OF st(2,1)] by simp
  then have "log_term (store_last_index st) lg' = Inr (en_term (last (rs_entries st)))"
    using lg'(2-4) L
    by (auto simp: log_term_def maybe_term_def maybe_last_index_def log_at_def lookup_at_def Let_def store_wf_def store_term_def
        log_first_index_def maybe_first_index_def store_first_index_def split: if_splits)
  then have new: "log_last_term lg' = Some (en_term (last (rs_entries st)))" by (simp add: log_last_term_def L)
  show ?thesis
    using lg'(1,6) L stale old new by (intro exI [of _ lg']) (simp add: is_up_to_date_def)
qed

section \<open>Finding a conflict\<close>

lemma log_term_total:
  assumes "log_wf lg" and "i \<le> log_last_index lg"
  shows "\<exists>t. log_term i lg = Inr t"
proof (cases "log_first_index lg \<le> i")
  case True
  then show ?thesis using log_at_ex [OF assms(1) True assms(2)] log_term_at [OF assms(1)] by blast
next
  case False
  then show ?thesis
    using assms(1)
    by (cases "us_snapshot (lg_unstable lg)")
       (auto simp: log_term_def maybe_term_def store_term_def log_wf_defs log_first_index_def maybe_first_index_def
          store_first_index_def split: option.split sum.split list.split)
qed

lemma conflict_scan_spec:
  assumes "log_wf lg" and "log_term 0 lg = Inr 0" and "idx \<le> log_last_index lg"
  shows "\<exists>i t. conflict_scan trm lg idx = Some (i, Some t) \<and> i \<le> idx \<and> log_term i lg = Inr t \<and> t \<le> trm \<and>
    (\<forall>j t'. i < j \<and> j \<le> idx \<and> log_term j lg = Inr t' \<longrightarrow> trm < t')"
  using assms(3)
proof (induction idx)
  case 0
  show ?case using assms(2) by (simp add: conflict_scan.simps)
next
  case (Suc n)
  obtain t where t: "log_term (Suc n) lg = Inr t" using log_term_total [OF assms(1) Suc.prems] by blast
  show ?case
  proof (cases "trm < t")
    case True
    then have "conflict_scan trm lg (Suc n) = conflict_scan trm lg n" by (subst conflict_scan.simps) (simp add: t)
    then show ?thesis using Suc True t by (auto simp: le_Suc_eq)
  next
    case False
    then show ?thesis by (subst conflict_scan.simps) (simp add: t)
  qed
qed


section \<open>Samples\<close>

definition normal_entry :: "nat \<Rightarrow> nat \<Rightarrow> raft_entry" where
  "normal_entry i t = \<lparr>en_type = EntryNormal, en_term = t, en_index = i, en_data = [], en_context = []\<rparr>"

text \<open>A follower that stored three entries of term 1.\<close>

definition follower_log :: raft_log where
  "follower_log = new_raft_log 0
     ((new_raft_storage sample_codec [] [])\<lparr>rs_entries := [normal_entry 1 1, normal_entry 2 1, normal_entry 3 1]\<rparr>)"

lemmas follower_log_defs = follower_log_def new_raft_log_def new_raft_storage_def new_unstable_def log_index_defs normal_entry_def
  default_snapshot_def

lemma follower_log_wf: "log_wf follower_log"
  by (simp add: log_wf_defs follower_log_defs)

lemma follower_log_values:
  "log_last_index follower_log = 3" "lg_committed follower_log = 0" "match_term 1 1 follower_log"
  by (simp_all add: follower_log_defs match_term_def log_term_def maybe_term_def store_term_def)


definition truncated_log :: raft_log where
  "truncated_log = follower_log\<lparr>lg_unstable := \<lparr>us_snapshot = None, us_entries = [normal_entry 2 2], us_size = 12, us_offset = 2\<rparr>,
     lg_committed := 2, lg_persisted := 1\<rparr>"

lemma truncated_log_reached: "maybe_append 1 1 2 [normal_entry 2 2] follower_log = Some (Some (2, 2), truncated_log)"
  by (simp add: maybe_append_def truncated_log_def follower_log_defs match_term_def log_term_def maybe_term_def store_term_def
      log_append_def truncate_and_append_def commit_to_def entry_approximate_size_def us_check_bounds_def Let_def)

theorem stale_suffix_resurfaces_witness:
  "\<exists>lg'. persist_log truncated_log = Some lg' \<and> log_last_index truncated_log = 2 \<and> log_last_index lg' = 3 \<and>
     is_up_to_date 3 1 truncated_log = Some False \<and> is_up_to_date 3 1 lg' = Some True"
proof -
  have "log_wf truncated_log"
    by (simp add: log_wf_defs follower_log_defs truncated_log_def entry_approximate_size_def)
  note stale = stale_suffix_resurfaces [OF this]
  have "us_snapshot (lg_unstable truncated_log) = None" "us_entries (lg_unstable truncated_log) \<noteq> []"
    "length (rs_entries (lg_store truncated_log)) + length (us_entries (lg_unstable truncated_log)) \<le> MAX_UNSTABLE_ENTRIES"
    "log_last_index truncated_log = 2" "store_last_index (lg_store truncated_log) = 3"
    "en_term (last (rs_entries (lg_store truncated_log))) = 1" "en_term (last (us_entries (lg_unstable truncated_log))) = 2"
    by (simp_all add: truncated_log_def follower_log_defs MAX_UNSTABLE_ENTRIES_def)
  then show ?thesis using stale by auto
qed


end
