(* ===== verification/Raft_Message.thy ===== *)
theory Raft_Message
  imports Raft_Log
begin

text \<open>
  What a Raft node is made of besides its log: messages (\<open>raft-proto/proto/eraftpb.proto\<close>), the queue of read
  requests (\<open>raft/src/read_only.rs\<close>), the configuration (\<open>raft/src/config.rs\<close>), the bound on uncommitted data
  and the state of the node (\<open>RaftCore\<close> and \<open>Raft\<close> in \<open>raft/src/raft.rs\<close>). Random election timeouts are drawn from a
  supply of numbers, the field \<open>r_random\<close>.
\<close>

section \<open>Messages\<close>

datatype message_type =
    MsgHup | MsgBeat | MsgPropose | MsgAppend | MsgAppendResponse | MsgRequestVote | MsgRequestVoteResponse | MsgSnapshot
  | MsgHeartbeat | MsgHeartbeatResponse | MsgUnreachable | MsgSnapStatus | MsgCheckQuorum | MsgTransferLeader | MsgTimeoutNow
  | MsgReadIndex | MsgReadIndexResp | MsgRequestPreVote | MsgRequestPreVoteResponse

record raft_message =
  ms_type :: message_type
  ms_to :: nat
  ms_from :: nat
  ms_term :: nat
  ms_log_term :: nat
  ms_index :: nat
  ms_entries :: "raft_entry list"
  ms_commit :: nat
  ms_commit_term :: nat
  ms_snapshot :: raft_snapshot
  ms_request_snapshot :: nat
  ms_reject :: bool
  ms_reject_hint :: nat
  ms_context :: "byte list"
  ms_deprecated_priority :: nat
  ms_priority :: int

definition default_message :: raft_message where
  "default_message =
     \<lparr>ms_type = MsgHup, ms_to = 0, ms_from = 0, ms_term = 0, ms_log_term = 0, ms_index = 0, ms_entries = [], ms_commit = 0,
      ms_commit_term = 0, ms_snapshot = default_snapshot, ms_request_snapshot = 0, ms_reject = False, ms_reject_hint = 0,
      ms_context = [], ms_deprecated_priority = 0, ms_priority = 0\<rparr>"

definition new_message :: "nat \<Rightarrow> message_type \<Rightarrow> nat option \<Rightarrow> raft_message" where
  "new_message to t sender =
     default_message\<lparr>ms_to := to, ms_from := (case sender of Some v \<Rightarrow> v | None \<Rightarrow> 0), ms_type := t\<rparr>"

definition I64_MAX :: int where "I64_MAX = 9223372036854775807"

definition get_priority :: "raft_message \<Rightarrow> int" where
  "get_priority m = (if ms_priority m \<noteq> 0 then ms_priority m else min (int (ms_deprecated_priority m)) I64_MAX)"

definition vote_resp_msg_type :: "message_type \<Rightarrow> message_type option" where
  "vote_resp_msg_type t =
     (case t of
        MsgRequestVote \<Rightarrow> Some MsgRequestVoteResponse
      | MsgRequestPreVote \<Rightarrow> Some MsgRequestPreVoteResponse
      | _ \<Rightarrow> None)"

definition is_continuous_ents :: "raft_message \<Rightarrow> raft_entry list \<Rightarrow> bool" where
  "is_continuous_ents m ents \<longleftrightarrow>
     (ms_entries m \<noteq> [] \<and> ents \<noteq> [] \<longrightarrow> en_index (last (ms_entries m)) + 1 = en_index (hd ents))"

datatype raft_error =
    ProposalDropped | RequestSnapshotDropped | StepLocalMsg | StepPeerNotFound | ConfigInvalid | ConfChangeError conf_change_error

section \<open>Read requests\<close>

datatype read_only_option = Read_Safe | Read_LeaseBased

record read_state =
  rd_index :: nat
  rd_request_ctx :: "byte list"

record read_index_status =
  ri_req :: raft_message
  ri_index :: nat
  ri_acks :: "nat list"

record read_only =
  ro_option :: read_only_option
  ro_pending :: "(byte list \<times> read_index_status) list"
  ro_queue :: "byte list list"

definition new_read_only :: "read_only_option \<Rightarrow> read_only" where
  "new_read_only opt = \<lparr>ro_option = opt, ro_pending = [], ro_queue = []\<rparr>"

definition add_request :: "nat \<Rightarrow> raft_message \<Rightarrow> nat \<Rightarrow> read_only \<Rightarrow> read_only option" where
  "add_request idx req self_id ro =
     (case ms_entries req of
        [] \<Rightarrow> None
      | e # _ \<Rightarrow>
          if map_of (ro_pending ro) (en_data e) \<noteq> None then Some ro
          else Some (ro\<lparr>ro_pending := AList.update (en_data e) \<lparr>ri_req = req, ri_index = idx, ri_acks = [self_id]\<rparr> (ro_pending ro),
                        ro_queue := ro_queue ro @ [en_data e]\<rparr>))"

definition recv_ack :: "nat \<Rightarrow> byte list \<Rightarrow> read_only \<Rightarrow> nat list option \<times> read_only" where
  "recv_ack v ctx ro =
     (case map_of (ro_pending ro) ctx of
        None \<Rightarrow> (None, ro)
      | Some rs \<Rightarrow>
          let rs1 = rs\<lparr>ri_acks := List.insert v (ri_acks rs)\<rparr>
          in (Some (ri_acks rs1), ro\<lparr>ro_pending := AList.update ctx rs1 (ro_pending ro)\<rparr>))"

fun read_position :: "(byte list \<times> read_index_status) list \<Rightarrow> byte list \<Rightarrow> byte list list \<Rightarrow> nat option option" where
  "read_position pending ctx [] = Some None"
| "read_position pending ctx (x # xs) =
     (if map_of pending x = None then None
      else if x = ctx then Some (Some 0)
      else map_option (map_option Suc) (read_position pending ctx xs))"

fun pop_reads :: "nat \<Rightarrow> read_only \<Rightarrow> (read_index_status list \<times> read_only) option" where
  "pop_reads 0 ro = Some ([], ro)"
| "pop_reads (Suc n) ro =
     (case ro_queue ro of
        [] \<Rightarrow> None
      | x # xs \<Rightarrow>
          (case map_of (ro_pending ro) x of
             None \<Rightarrow> None
           | Some rs \<Rightarrow>
               map_option (\<lambda>(rss, ro1). (rs # rss, ro1))
                 (pop_reads n (ro\<lparr>ro_queue := xs, ro_pending := remove_key x (ro_pending ro)\<rparr>))))"

definition advance_reads :: "byte list \<Rightarrow> read_only \<Rightarrow> (read_index_status list \<times> read_only) option" where
  "advance_reads ctx ro =
     (case read_position (ro_pending ro) ctx (ro_queue ro) of
        None \<Rightarrow> None
      | Some None \<Rightarrow> Some ([], ro)
      | Some (Some i) \<Rightarrow> pop_reads (Suc i) ro)"

definition last_pending_request_ctx :: "read_only \<Rightarrow> byte list option" where
  "last_pending_request_ctx ro = (if ro_queue ro = [] then None else Some (last (ro_queue ro)))"

text \<open>The queue and the map hold the same requests, so a confirmed request releases it and all before it, without a panic.\<close>

definition read_only_wf :: "read_only \<Rightarrow> bool" where
  "read_only_wf ro \<longleftrightarrow> distinct (ro_queue ro) \<and> (\<forall>x \<in> set (ro_queue ro). map_of (ro_pending ro) x \<noteq> None)"

lemma add_request_wf: "\<lbrakk>read_only_wf ro; add_request i m v ro = Some ro'\<rbrakk> \<Longrightarrow> read_only_wf ro'"
  by (fastforce simp: read_only_wf_def add_request_def update_conv split: list.splits if_splits)

lemma recv_ack_wf: "read_only_wf ro \<Longrightarrow> read_only_wf (snd (recv_ack v ctx ro))"
  by (auto simp: read_only_wf_def recv_ack_def update_conv Let_def split: option.splits)

lemma read_position_found:
  "\<forall>x \<in> set q. map_of pending x \<noteq> None \<Longrightarrow>
     read_position pending ctx q = Some (if ctx \<in> set q then Some (length (takeWhile (\<lambda>x. x \<noteq> ctx) q)) else None)"
  by (induction q) auto

lemma pop_reads_run:
  assumes "read_only_wf ro" and "n \<le> length (ro_queue ro)"
  shows "\<exists>ro'. pop_reads n ro = Some (map (\<lambda>x. the (map_of (ro_pending ro) x)) (take n (ro_queue ro)), ro') \<and>
    read_only_wf ro' \<and> ro_queue ro' = drop n (ro_queue ro)"
  using assms
proof (induction n arbitrary: ro)
  case (Suc n)
  then obtain x xs where q: "ro_queue ro = x # xs" by (cases "ro_queue ro") auto
  let ?ro = "ro\<lparr>ro_queue := xs, ro_pending := remove_key x (ro_pending ro)\<rparr>"
  obtain rs where rs: "map_of (ro_pending ro) x = Some rs" using Suc.prems(1) q by (auto simp: read_only_wf_def)
  have x: "x \<notin> set xs" using Suc.prems(1) q by (simp add: read_only_wf_def)
  have "read_only_wf ?ro" using Suc.prems(1) q by (auto simp: read_only_wf_def get_remove)
  from Suc.IH [OF this] Suc.prems(2) q obtain ro' where ro':
    "pop_reads n ?ro = Some (map (\<lambda>x. the (map_of (ro_pending ?ro) x)) (take n xs), ro')" "read_only_wf ro'" "ro_queue ro' = drop n xs"
    by auto
  have "map (\<lambda>x. the (map_of (ro_pending ?ro) x)) (take n xs) = map (\<lambda>x. the (map_of (ro_pending ro) x)) (take n xs)"
    using x by (auto simp: get_remove dest: in_set_takeD)
  then show ?case using q rs ro' by simp
qed simp

lemma takeWhile_length_less: "c \<in> set q \<Longrightarrow> length (takeWhile (\<lambda>x. x \<noteq> c) q) < length q"
  by (induction q) auto

lemma take_until: "c \<in> set q \<Longrightarrow> take (Suc (length (takeWhile (\<lambda>x. x \<noteq> c) q))) q = takeWhile (\<lambda>x. x \<noteq> c) q @ [c]"
  by (induction q) auto

text \<open>
  A confirmed read request releases exactly the requests queued up to it, in their order; a confirmation of a request that is
  not queued releases nothing.
\<close>

lemma advance_reads_releases_prefix:
  assumes "read_only_wf ro"
  shows "\<exists>ro'. advance_reads ctx ro =
      Some (map (\<lambda>x. the (map_of (ro_pending ro) x))
              (if ctx \<in> set (ro_queue ro) then takeWhile (\<lambda>x. x \<noteq> ctx) (ro_queue ro) @ [ctx] else []), ro') \<and>
    read_only_wf ro' \<and> (ctx \<notin> set (ro_queue ro'))"
proof (cases "ctx \<in> set (ro_queue ro)")
  case True
  let ?n = "length (takeWhile (\<lambda>x. x \<noteq> ctx) (ro_queue ro))"
  have pos: "read_position (ro_pending ro) ctx (ro_queue ro) = Some (Some ?n)"
    using read_position_found [of "ro_queue ro" "ro_pending ro" ctx] assms True by (simp add: read_only_wf_def)
  obtain ro' where ro': "pop_reads (Suc ?n) ro = Some (map (\<lambda>x. the (map_of (ro_pending ro) x)) (take (Suc ?n) (ro_queue ro)), ro')"
    "read_only_wf ro'" "ro_queue ro' = drop (Suc ?n) (ro_queue ro)"
    using pop_reads_run [OF assms, of "Suc ?n"] takeWhile_length_less [OF True] by auto
  have "ctx \<in> set (take (Suc ?n) (ro_queue ro))" by (simp only: take_until [OF True]) simp
  then have "ctx \<notin> set (ro_queue ro')"
    using assms by (metis ro'(3) read_only_wf_def append_take_drop_id distinct_append disjoint_iff)
  then show ?thesis using True ro'(1,2) by (simp only: advance_reads_def pos take_until [OF True]) simp
next
  case False
  then have "read_position (ro_pending ro) ctx (ro_queue ro) = Some None"
    using read_position_found [of "ro_queue ro" "ro_pending ro" ctx] assms by (simp add: read_only_wf_def)
  then show ?thesis using assms False by (simp add: advance_reads_def)
qed

section \<open>Configuration\<close>

record raft_config =
  cf_id :: nat
  cf_election_tick :: nat
  cf_heartbeat_tick :: nat
  cf_applied :: nat
  cf_max_size_per_msg :: nat
  cf_max_inflight_msgs :: nat
  cf_check_quorum :: bool
  cf_pre_vote :: bool
  cf_min_election_tick :: nat
  cf_max_election_tick :: nat
  cf_read_only_option :: read_only_option
  cf_skip_bcast_commit :: bool
  cf_batch_append :: bool
  cf_priority :: int
  cf_max_uncommitted_size :: nat
  cf_max_committed_size_per_ready :: nat
  cf_max_apply_unpersisted_log_limit :: nat
  cf_disable_proposal_forwarding :: bool

definition default_config :: raft_config where
  "default_config =
     \<lparr>cf_id = 0, cf_election_tick = 20, cf_heartbeat_tick = 2, cf_applied = 0, cf_max_size_per_msg = 0, cf_max_inflight_msgs = 256,
      cf_check_quorum = False, cf_pre_vote = False, cf_min_election_tick = 0, cf_max_election_tick = 0,
      cf_read_only_option = Read_Safe, cf_skip_bcast_commit = False, cf_batch_append = False, cf_priority = 0,
      cf_max_uncommitted_size = NO_LIMIT, cf_max_committed_size_per_ready = NO_LIMIT, cf_max_apply_unpersisted_log_limit = 0,
      cf_disable_proposal_forwarding = False\<rparr>"

definition min_election_tick :: "raft_config \<Rightarrow> nat" where
  "min_election_tick c = (if cf_min_election_tick c = 0 then cf_election_tick c else cf_min_election_tick c)"

definition max_election_tick :: "raft_config \<Rightarrow> nat" where
  "max_election_tick c = (if cf_max_election_tick c = 0 then 2 * cf_election_tick c else cf_max_election_tick c)"

definition validate :: "raft_config \<Rightarrow> bool" where
  "validate c \<longleftrightarrow> cf_id c \<noteq> INVALID_ID \<and> cf_heartbeat_tick c \<noteq> 0 \<and> cf_heartbeat_tick c < cf_election_tick c \<and>
     cf_election_tick c \<le> min_election_tick c \<and> min_election_tick c < max_election_tick c \<and> cf_max_inflight_msgs c \<noteq> 0 \<and>
     \<not> (cf_read_only_option c = Read_LeaseBased \<and> \<not> cf_check_quorum c) \<and> cf_max_size_per_msg c \<le> cf_max_uncommitted_size c"

section \<open>Uncommitted data\<close>

record uncommitted_state =
  un_max_size :: nat
  un_size :: nat
  un_last_log_tail_index :: nat

definition is_no_limit :: "uncommitted_state \<Rightarrow> bool" where
  "is_no_limit u \<longleftrightarrow> un_max_size u = NO_LIMIT"

definition data_size :: "raft_entry list \<Rightarrow> nat" where
  "data_size ents = sum_list (map (\<lambda>e. length (en_data e)) ents)"

definition maybe_increase_uncommitted_size :: "raft_entry list \<Rightarrow> uncommitted_state \<Rightarrow> bool \<times> uncommitted_state" where
  "maybe_increase_uncommitted_size ents u =
     (if is_no_limit u then (True, u)
      else
        let n = data_size ents
        in if n = 0 \<or> un_size u = 0 \<or> n + un_size u \<le> un_max_size u then (True, u\<lparr>un_size := un_size u + n\<rparr>) else (False, u))"

definition maybe_reduce_uncommitted_size :: "raft_entry list \<Rightarrow> uncommitted_state \<Rightarrow> bool \<times> uncommitted_state" where
  "maybe_reduce_uncommitted_size ents u =
     (if is_no_limit u \<or> ents = [] then (True, u)
      else
        let n = data_size (dropWhile (\<lambda>e. en_index e \<le> un_last_log_tail_index u) ents)
        in if un_size u < n then (False, u\<lparr>un_size := 0\<rparr>) else (True, u\<lparr>un_size := un_size u - n\<rparr>))"

section \<open>The node\<close>

datatype state_role = Follower | Candidate | Leader | PreCandidate

record raft =
  r_id :: nat
  r_term :: nat
  r_vote :: nat
  r_state :: state_role
  r_leader_id :: nat
  r_promotable :: bool
  r_prs :: progress_tracker
  r_msgs :: "raft_message list"
  r_log :: raft_log
  r_read_states :: "read_state list"
  r_read_only :: read_only
  r_pending_request_snapshot :: nat
  r_lead_transferee :: "nat option"
  r_pending_conf_index :: nat
  r_election_elapsed :: nat
  r_heartbeat_elapsed :: nat
  r_randomized_election_timeout :: nat
  r_uncommitted :: uncommitted_state
  r_random :: "nat \<Rightarrow> nat"
  r_cfg :: raft_config

record soft_state =
  ss_leader_id :: nat
  ss_raft_state :: state_role

definition get_soft_state :: "raft \<Rightarrow> soft_state" where
  "get_soft_state r = \<lparr>ss_leader_id = r_leader_id r, ss_raft_state = r_state r\<rparr>"

definition get_hard_state :: "raft \<Rightarrow> hard_state" where
  "get_hard_state r = \<lparr>hs_term = r_term r, hs_vote = r_vote r, hs_commit = lg_committed (r_log r)\<rparr>"

end
