(* ===== verification/Raft_Node.thy ===== *)
theory Raft_Node
  imports Raft_Message "HOL-Library.Monad_Syntax"
begin

text \<open>
  The Raft state machine (\<open>raft/src/raft.rs\<close>): sending, replication, elections and the handling of every message type. An
  operation maps the state of the node to its new state; \<^term>\<open>None\<close> is a panic. Messages to send are collected in
  \<open>r_msgs\<close>. A mutable reference to the progress of a peer is passed in and returned beside the state.
\<close>

section \<open>Sending\<close>

definition is_vote_request :: "message_type \<Rightarrow> bool" where
  "is_vote_request t \<longleftrightarrow> t = MsgRequestVote \<or> t = MsgRequestPreVote"

definition is_vote_response :: "message_type \<Rightarrow> bool" where
  "is_vote_response t \<longleftrightarrow> t = MsgRequestVoteResponse \<or> t = MsgRequestPreVoteResponse"

text \<open>The message as it is queued: sender, term and priority filled in.\<close>

definition stamp_message :: "raft_message \<Rightarrow> raft \<Rightarrow> raft_message" where
  "stamp_message m r =
     (let t = ms_type m;
          m1 = (if ms_from m = INVALID_ID then m\<lparr>ms_from := r_id r\<rparr> else m);
          m2 = (if is_vote_request t \<or> is_vote_response t \<or> t = MsgPropose \<or> t = MsgReadIndex then m1 else m1\<lparr>ms_term := r_term r\<rparr>)
      in if is_vote_request t
         then m2\<lparr>ms_deprecated_priority :=
                   (if 0 < cf_priority (r_cfg r) then nat (cf_priority (r_cfg r)) else ms_deprecated_priority m2),
                 ms_priority := cf_priority (r_cfg r)\<rparr>
         else m2)"

definition send :: "raft_message \<Rightarrow> raft \<Rightarrow> raft option" where
  "send m r =
     (if (is_vote_request (ms_type m) \<or> is_vote_response (ms_type m)) = (ms_term m = 0) then None
      else Some (r\<lparr>r_msgs := r_msgs r @ [stamp_message m r]\<rparr>))"

definition prepare_send_snapshot ::
  "raft_message \<Rightarrow> progress \<Rightarrow> nat \<Rightarrow> raft \<Rightarrow> (bool \<times> raft_message \<times> progress) option" where
  "prepare_send_snapshot m pr to r =
     (if \<not> pg_recent_active pr then Some (False, m, pr)
      else
        (case log_snapshot (pg_pending_request_snapshot pr) to (r_log r) of
           Inl e \<Rightarrow> if e = SnapshotTemporarilyUnavailable then Some (False, m\<lparr>ms_type := MsgSnapshot\<rparr>, pr) else None
         | Inr s \<Rightarrow>
             if sn_index s = 0 then None
             else Some (True, m\<lparr>ms_type := MsgSnapshot, ms_snapshot := s\<rparr>, become_snapshot (sn_index s) pr)))"

definition prepare_send_entries ::
  "raft_message \<Rightarrow> progress \<Rightarrow> nat \<Rightarrow> raft_entry list \<Rightarrow> raft \<Rightarrow> (raft_message \<times> progress) option" where
  "prepare_send_entries m pr trm ents r =
     (let m1 = m\<lparr>ms_type := MsgAppend, ms_index := pg_next_idx pr - 1, ms_log_term := trm, ms_entries := ents,
                 ms_commit := lg_committed (r_log r)\<rparr>
      in if ents = [] then Some (m1, pr)
         else map_option (Pair m1) (update_state (en_index (last ents)) pr))"

fun try_batching ::
  "nat \<Rightarrow> nat \<Rightarrow> progress \<Rightarrow> raft_entry list \<Rightarrow> raft_message list \<Rightarrow> (bool \<times> progress \<times> raft_message list) option" where
  "try_batching committed to pr ents [] = Some (False, pr, [])"
| "try_batching committed to pr ents (m # ms) =
     (if ms_type m = MsgAppend \<and> ms_to m = to then
        if ents = [] then Some (True, pr, m\<lparr>ms_commit := committed\<rparr> # ms)
        else if \<not> is_continuous_ents m ents then Some (False, pr, m # ms)
        else
          (case update_state (en_index (last (ms_entries m @ ents))) pr of
             None \<Rightarrow> None
           | Some pr1 \<Rightarrow> Some (True, pr1, m\<lparr>ms_entries := ms_entries m @ ents, ms_commit := committed\<rparr> # ms))
      else map_option (\<lambda>(b, pr1, ms1). (b, pr1, m # ms1)) (try_batching committed to pr ents ms))"

definition send_snapshot :: "nat \<Rightarrow> progress \<Rightarrow> raft \<Rightarrow> (bool \<times> progress \<times> raft) option" where
  "send_snapshot to pr r =
     do {
       (sent, m, pr1) \<leftarrow> prepare_send_snapshot (default_message\<lparr>ms_to := to\<rparr>) pr to r;
       if sent then do { r1 \<leftarrow> send m r; Some (True, pr1, r1) } else Some (False, pr1, r)
     }"

definition send_entries :: "nat \<Rightarrow> progress \<Rightarrow> nat \<Rightarrow> raft_entry list \<Rightarrow> raft \<Rightarrow> (bool \<times> progress \<times> raft) option" where
  "send_entries to pr trm ents r =
     do {
       (m, pr1) \<leftarrow> prepare_send_entries (default_message\<lparr>ms_to := to\<rparr>) pr trm ents r;
       r1 \<leftarrow> send m r;
       Some (True, pr1, r1)
     }"

definition maybe_send_append :: "nat \<Rightarrow> progress \<Rightarrow> bool \<Rightarrow> raft \<Rightarrow> (bool \<times> progress \<times> raft) option" where
  "maybe_send_append to pr allow_empty r =
     (if is_paused pr then Some (False, pr, r)
      else if pg_pending_request_snapshot pr \<noteq> INVALID_INDEX then send_snapshot to pr r
      else
        do {
          ents \<leftarrow> log_entries (pg_next_idx pr) (Some (cf_max_size_per_msg (r_cfg r))) (r_log r);
          if \<not> allow_empty \<and> (case ents of Inl _ \<Rightarrow> True | Inr es \<Rightarrow> es = []) then Some (False, pr, r)
          else
            (case (log_term (pg_next_idx pr - 1) (r_log r), ents) of
               (Inr trm, Inr es) \<Rightarrow>
                 if cf_batch_append (r_cfg r) then
                   do {
                     (batched, pr1, ms) \<leftarrow> try_batching (lg_committed (r_log r)) to pr es (r_msgs r);
                     if batched then Some (True, pr1, r\<lparr>r_msgs := ms\<rparr>) else send_entries to pr1 trm es r
                   }
                 else send_entries to pr trm es r
             | (_, Inl e) \<Rightarrow> if e = LogTemporarilyUnavailable then Some (False, pr, r) else send_snapshot to pr r
             | _ \<Rightarrow> send_snapshot to pr r)
        })"

definition core_send_append :: "nat \<Rightarrow> progress \<Rightarrow> raft \<Rightarrow> (progress \<times> raft) option" where
  "core_send_append to pr r = map_option snd (maybe_send_append to pr True r)"

text \<open>The loop of \<open>send_append_aggressively\<close>; a run that does not end is \<^term>\<open>None\<close>.\<close>

partial_function (option) core_send_append_aggressively :: "nat \<Rightarrow> progress \<Rightarrow> raft \<Rightarrow> (progress \<times> raft) option" where
  "core_send_append_aggressively to pr r =
     (case maybe_send_append to pr False r of
        None \<Rightarrow> None
      | Some (sent, pr1, r1) \<Rightarrow> if sent then core_send_append_aggressively to pr1 r1 else Some (pr1, r1))"

definition send_heartbeat :: "nat \<Rightarrow> progress \<Rightarrow> byte list option \<Rightarrow> raft \<Rightarrow> raft option" where
  "send_heartbeat to pr ctx r =
     send (default_message\<lparr>ms_to := to, ms_type := MsgHeartbeat, ms_commit := min (pg_matched pr) (lg_committed (r_log r)),
             ms_context := (case ctx of Some c \<Rightarrow> c | None \<Rightarrow> [])\<rparr>) r"

section \<open>Broadcasting\<close>

definition put_progress :: "nat \<Rightarrow> progress \<Rightarrow> raft \<Rightarrow> raft" where
  "put_progress v pr r = r\<lparr>r_prs := set_progress v pr (r_prs r)\<rparr>"

definition send_append :: "nat \<Rightarrow> raft \<Rightarrow> raft option" where
  "send_append to r =
     do {
       pr \<leftarrow> get_progress to (r_prs r);
       (pr1, r1) \<leftarrow> core_send_append to pr r;
       Some (put_progress to pr1 r1)
     }"

definition send_append_aggressively :: "nat \<Rightarrow> raft \<Rightarrow> raft option" where
  "send_append_aggressively to r =
     do {
       pr \<leftarrow> get_progress to (r_prs r);
       (pr1, r1) \<leftarrow> core_send_append_aggressively to pr r;
       Some (put_progress to pr1 r1)
     }"

text \<open>The peers other than the node itself, in the order of the progress map.\<close>

fun each_peer ::
  "(nat \<Rightarrow> progress \<Rightarrow> raft \<Rightarrow> (progress \<times> raft) option) \<Rightarrow> (nat \<times> progress) list \<Rightarrow> raft \<Rightarrow> ((nat \<times> progress) list \<times> raft) option" where
  "each_peer f [] r = Some ([], r)"
| "each_peer f ((v, pr) # ps) r =
     (if v = r_id r then map_option (\<lambda>(ps1, r1). ((v, pr) # ps1, r1)) (each_peer f ps r)
      else
        (case f v pr r of
           None \<Rightarrow> None
         | Some (pr1, r1) \<Rightarrow> map_option (\<lambda>(ps1, r2). ((v, pr1) # ps1, r2)) (each_peer f ps r1)))"

definition for_each_peer :: "(nat \<Rightarrow> progress \<Rightarrow> raft \<Rightarrow> (progress \<times> raft) option) \<Rightarrow> raft \<Rightarrow> raft option" where
  "for_each_peer f r =
     do {
       (ps, r1) \<leftarrow> each_peer f (pt_progress (r_prs r)) r;
       Some (r1\<lparr>r_prs := (r_prs r1)\<lparr>pt_progress := ps\<rparr>\<rparr>)
     }"

definition bcast_append :: "raft \<Rightarrow> raft option" where
  "bcast_append r = for_each_peer core_send_append r"

definition bcast_heartbeat_with_ctx :: "byte list option \<Rightarrow> raft \<Rightarrow> raft option" where
  "bcast_heartbeat_with_ctx ctx r = for_each_peer (\<lambda>to pr r. map_option (Pair pr) (send_heartbeat to pr ctx r)) r"

definition bcast_heartbeat :: "raft \<Rightarrow> raft option" where
  "bcast_heartbeat r = bcast_heartbeat_with_ctx (last_pending_request_ctx (r_read_only r)) r"

definition ping :: "raft \<Rightarrow> raft option" where
  "ping r = (if r_state r = Leader then bcast_heartbeat r else Some r)"

section \<open>Committing and appending\<close>

definition raft_maybe_commit :: "raft \<Rightarrow> (bool \<times> raft) option" where
  "raft_maybe_commit r =
     (let (advanced, lg) = maybe_commit (fst (maximal_committed_index (r_prs r))) (r_term r) (r_log r)
      in if advanced then
           do {
             pr \<leftarrow> get_progress (r_id r) (r_prs r);
             Some (True, put_progress (r_id r) (update_committed (lg_committed lg) pr) (r\<lparr>r_log := lg\<rparr>))
           }
         else Some (False, r))"

definition stamp_entries :: "nat \<Rightarrow> nat \<Rightarrow> raft_entry list \<Rightarrow> raft_entry list" where
  "stamp_entries trm li es = map (\<lambda>(i, e). e\<lparr>en_term := trm, en_index := li + 1 + i\<rparr>) (enumerate 0 es)"

definition append_entry :: "raft_entry list \<Rightarrow> raft \<Rightarrow> (bool \<times> raft) option" where
  "append_entry es r =
     (let (fits, u) = maybe_increase_uncommitted_size es (r_uncommitted r)
      in if \<not> fits then Some (False, r)
         else
           do {
             lg \<leftarrow> log_append (stamp_entries (r_term r) (log_last_index (r_log r)) es) (r_log r);
             Some (True, r\<lparr>r_uncommitted := u, r_log := lg\<rparr>)
           })"

definition has_pending_conf :: "raft \<Rightarrow> bool" where
  "has_pending_conf r \<longleftrightarrow> lg_applied (r_log r) < r_pending_conf_index r"

definition should_bcast_commit :: "raft \<Rightarrow> bool" where
  "should_bcast_commit r \<longleftrightarrow> \<not> cf_skip_bcast_commit (r_cfg r) \<or> has_pending_conf r"

definition commit_apply_internal :: "nat \<Rightarrow> bool \<Rightarrow> raft \<Rightarrow> raft option" where
  "commit_apply_internal applied skip_check r =
     do {
       let old_applied = lg_applied (r_log r);
       lg \<leftarrow> (if skip_check then if applied = 0 then None else Some ((r_log r)\<lparr>lg_applied := applied\<rparr>) else applied_to applied (r_log r));
       let r1 = r\<lparr>r_log := lg\<rparr>;
       if tc_auto_leave (pt_conf (r_prs r)) \<and> old_applied \<le> r_pending_conf_index r \<and> r_pending_conf_index r \<le> applied \<and>
          r_state r = Leader
       then
         do {
           (fits, r2) \<leftarrow> append_entry [default_entry\<lparr>en_type := EntryConfChangeV2\<rparr>] r1;
           if \<not> fits then None else Some (r2\<lparr>r_pending_conf_index := log_last_index (r_log r2)\<rparr>)
         }
       else Some r1
     }"

definition commit_apply :: "nat \<Rightarrow> raft \<Rightarrow> raft option" where
  "commit_apply applied r = commit_apply_internal applied False r"

definition on_persist_entries :: "nat \<Rightarrow> nat \<Rightarrow> raft \<Rightarrow> raft option" where
  "on_persist_entries idx trm r =
     (let (update, lg) = maybe_persist idx trm (r_log r);
          r1 = r\<lparr>r_log := lg\<rparr>
      in if update \<and> r_state r = Leader then
           do {
             pr \<leftarrow> get_progress (r_id r1) (r_prs r1);
             let (changed, pr1) = maybe_update idx pr;
             let r2 = put_progress (r_id r1) pr1 r1;
             if \<not> changed then Some r2
             else
               do {
                 (committed, r3) \<leftarrow> raft_maybe_commit r2;
                 if committed \<and> should_bcast_commit r3 then bcast_append r3 else Some r3
               }
           }
         else Some r1)"

definition on_persist_snap :: "nat \<Rightarrow> raft \<Rightarrow> raft option" where
  "on_persist_snap idx r = map_option (\<lambda>(_, lg). r\<lparr>r_log := lg\<rparr>) (maybe_persist_snap idx (r_log r))"

definition reduce_uncommitted_size :: "raft_entry list \<Rightarrow> raft \<Rightarrow> raft" where
  "reduce_uncommitted_size ents r =
     (if r_state r \<noteq> Leader then r else r\<lparr>r_uncommitted := snd (maybe_reduce_uncommitted_size ents (r_uncommitted r))\<rparr>)"

section \<open>Roles\<close>

definition reset_randomized_election_timeout :: "raft \<Rightarrow> raft" where
  "reset_randomized_election_timeout r =
     r\<lparr>r_randomized_election_timeout :=
         min_election_tick (r_cfg r) + r_random r 0 mod (max_election_tick (r_cfg r) - min_election_tick (r_cfg r)),
       r_random := (\<lambda>n. r_random r (Suc n))\<rparr>"

definition pass_election_timeout :: "raft \<Rightarrow> bool" where
  "pass_election_timeout r \<longleftrightarrow> r_randomized_election_timeout r \<le> r_election_elapsed r"

definition abort_leader_transfer :: "raft \<Rightarrow> raft" where
  "abort_leader_transfer r = r\<lparr>r_lead_transferee := None\<rparr>"

definition reset_peers :: "raft \<Rightarrow> progress_tracker \<Rightarrow> progress_tracker" where
  "reset_peers r t =
     t\<lparr>pt_progress := map (\<lambda>(v, pr).
         let pr1 = reset_progress (log_last_index (r_log r) + 1) pr
         in (v, if v = r_id r then pr1\<lparr>pg_matched := lg_persisted (r_log r), pg_committed_index := lg_committed (r_log r)\<rparr> else pr1))
       (pt_progress t)\<rparr>"

definition reset :: "nat \<Rightarrow> raft \<Rightarrow> raft" where
  "reset trm r =
     (let r1 = (if r_term r \<noteq> trm then r\<lparr>r_term := trm, r_vote := INVALID_ID\<rparr> else r);
          r2 = abort_leader_transfer (reset_randomized_election_timeout (r1\<lparr>r_leader_id := INVALID_ID\<rparr>))
      in r2\<lparr>r_election_elapsed := 0, r_heartbeat_elapsed := 0, r_pending_conf_index := 0,
            r_read_only := new_read_only (ro_option (r_read_only r)), r_pending_request_snapshot := INVALID_INDEX,
            r_prs := reset_peers r2 (reset_votes (r_prs r2))\<rparr>)"

definition become_follower :: "nat \<Rightarrow> nat \<Rightarrow> raft \<Rightarrow> raft" where
  "become_follower trm leader r =
     (let r1 = reset trm r
      in r1\<lparr>r_leader_id := leader, r_state := Follower, r_pending_request_snapshot := r_pending_request_snapshot r,
            r_log := (r_log r1)\<lparr>lg_unpersisted_limit := 0\<rparr>\<rparr>)"

definition become_candidate :: "raft \<Rightarrow> raft option" where
  "become_candidate r =
     (if r_state r = Leader then None
      else Some ((reset (r_term r + 1) r)\<lparr>r_vote := r_id r, r_state := Candidate\<rparr>))"

definition become_pre_candidate :: "raft \<Rightarrow> raft option" where
  "become_pre_candidate r =
     (if r_state r = Leader then None
      else Some (r\<lparr>r_state := PreCandidate, r_prs := reset_votes (r_prs r), r_leader_id := INVALID_ID\<rparr>))"

definition become_leader :: "raft \<Rightarrow> raft option" where
  "become_leader r =
     (if r_state r = Follower then None
      else
        let r1 = (reset (r_term r) r)\<lparr>r_leader_id := r_id r, r_state := Leader\<rparr>;
            last_index = log_last_index (r_log r1)
        in if last_index \<noteq> lg_persisted (r_log r1) then None
           else
             do {
               let r2 = r1\<lparr>r_uncommitted := (r_uncommitted r1)\<lparr>un_size := 0, un_last_log_tail_index := last_index\<rparr>\<rparr>;
               pr \<leftarrow> get_progress (r_id r2) (r_prs r2);
               let r3 = (put_progress (r_id r2) (become_replicate pr) r2)\<lparr>r_pending_conf_index := last_index\<rparr>;
               (fits, r4) \<leftarrow> append_entry [default_entry] r3;
               if fits then Some r4 else None
             })"

section \<open>Elections\<close>

datatype campaign_type = CampaignPreElection | CampaignElection | CampaignTransfer

definition CAMPAIGN_TRANSFER :: "byte list" where
  "CAMPAIGN_TRANSFER = map (\<lambda>c. of_nat (of_char c)) ''CampaignTransfer''"

definition vote_request :: "campaign_type \<Rightarrow> message_type \<Rightarrow> nat \<Rightarrow> nat \<times> nat \<Rightarrow> nat \<Rightarrow> nat \<Rightarrow> raft \<Rightarrow> raft_message" where
  "vote_request ct t trm ci last_term to r =
     (new_message to t None)\<lparr>ms_term := trm, ms_index := log_last_index (r_log r), ms_log_term := last_term,
        ms_commit := fst ci, ms_commit_term := snd ci,
        ms_context := (if ct = CampaignTransfer then CAMPAIGN_TRANSFER else [])\<rparr>"

fun request_votes :: "campaign_type \<Rightarrow> message_type \<Rightarrow> nat \<Rightarrow> nat \<times> nat \<Rightarrow> nat list \<Rightarrow> raft \<Rightarrow> raft option" where
  "request_votes ct t trm ci [] r = Some r"
| "request_votes ct t trm ci (v # vs) r =
     (if v = r_id r then request_votes ct t trm ci vs r
      else
        do {
          lt \<leftarrow> log_last_term (r_log r);
          r1 \<leftarrow> send (vote_request ct t trm ci lt v r) r;
          request_votes ct t trm ci vs r1
        })"

text \<open>
  \<open>campaign\<close> and \<open>poll\<close> call each other: a pre-candidate that wins starts the election proper. Each is a function of the other
  one; since an election proper is run as a candidate, two levels are enough.
\<close>

definition poll_step :: "(raft \<Rightarrow> raft option) \<Rightarrow> nat \<Rightarrow> bool \<Rightarrow> raft \<Rightarrow> (vote_result \<times> raft) option" where
  "poll_step campaign_election voter granted r =
     (let r1 = r\<lparr>r_prs := record_vote voter granted (r_prs r)\<rparr>;
          (_, _, res) = tally_votes (r_prs r1)
      in map_option (Pair res)
           (case res of
              Vote_Won \<Rightarrow> if r_state r1 = PreCandidate then campaign_election r1 else do { r2 \<leftarrow> become_leader r1; bcast_append r2 }
            | Vote_Lost \<Rightarrow> Some (become_follower (r_term r1) INVALID_ID r1)
            | Vote_Pending \<Rightarrow> Some r1))"

definition campaign_step :: "(nat \<Rightarrow> bool \<Rightarrow> raft \<Rightarrow> (vote_result \<times> raft) option) \<Rightarrow> campaign_type \<Rightarrow> raft \<Rightarrow> raft option" where
  "campaign_step poll_votes ct r =
     do {
       (t, trm, r1) \<leftarrow>
         (if ct = CampaignPreElection then map_option (\<lambda>r1. (MsgRequestPreVote, r_term r1 + 1, r1)) (become_pre_candidate r)
          else map_option (\<lambda>r1. (MsgRequestVote, r_term r1, r1)) (become_candidate r));
       (res, r2) \<leftarrow> poll_votes (r_id r1) True r1;
       if res = Vote_Won then Some r2
       else do { ci \<leftarrow> commit_info (r_log r2); request_votes ct t trm ci (joint_ids (tc_voters (pt_conf (r_prs r2)))) r2 }
     }"

definition poll_candidate :: "nat \<Rightarrow> bool \<Rightarrow> raft \<Rightarrow> (vote_result \<times> raft) option" where
  "poll_candidate = poll_step (\<lambda>r. None)"

definition poll :: "nat \<Rightarrow> bool \<Rightarrow> raft \<Rightarrow> (vote_result \<times> raft) option" where
  "poll = poll_step (campaign_step poll_candidate CampaignElection)"

definition campaign :: "campaign_type \<Rightarrow> raft \<Rightarrow> raft option" where
  "campaign = campaign_step poll"

definition is_conf_entry :: "raft_entry \<Rightarrow> bool" where
  "is_conf_entry e \<longleftrightarrow> en_type e = EntryConfChange \<or> en_type e = EntryConfChangeV2"

definition has_unapplied_conf_changes :: "nat \<Rightarrow> nat \<Rightarrow> raft \<Rightarrow> bool option" where
  "has_unapplied_conf_changes lo hi r =
     (if lg_committed (r_log r) \<le> lg_applied (r_log r) then Some False
      else
        (case log_scan lo hi (cf_max_committed_size_per_ready (r_cfg r))
                (\<lambda>found ents. if list_ex is_conf_entry ents then (False, True) else (True, found)) False (r_log r) of
           Some (Inr found) \<Rightarrow> Some found
         | _ \<Rightarrow> None))"

definition hup :: "bool \<Rightarrow> raft \<Rightarrow> raft option" where
  "hup transfer_leader r =
     (if r_state r = Leader then Some r
      else
        do {
          let low = (case maybe_first_index (lg_unstable (r_log r)) of Some i \<Rightarrow> i | None \<Rightarrow> lg_applied (r_log r) + 1);
          pending \<leftarrow> has_unapplied_conf_changes low (lg_committed (r_log r) + 1) r;
          if pending then Some r
          else if transfer_leader then campaign CampaignTransfer r
          else if cf_pre_vote (r_cfg r) then campaign CampaignPreElection r
          else campaign CampaignElection r
        })"

definition maybe_commit_by_vote :: "raft_message \<Rightarrow> raft \<Rightarrow> raft option" where
  "maybe_commit_by_vote m r =
     (if ms_commit m = 0 \<or> ms_commit_term m = 0 then Some r
      else
        let last_commit = lg_committed (r_log r)
        in if ms_commit m \<le> last_commit \<or> r_state r = Leader then Some r
           else
             let (advanced, lg) = maybe_commit (ms_commit m) (ms_commit_term m) (r_log r);
                 r1 = r\<lparr>r_log := lg\<rparr>
             in if \<not> advanced then Some r
                else if r_state r \<noteq> Candidate \<and> r_state r \<noteq> PreCandidate then Some r1
                else
                  do {
                    pending \<leftarrow> has_unapplied_conf_changes (last_commit + 1) (lg_committed (r_log r1) + 1) r1;
                    Some (if pending then become_follower (r_term r1) INVALID_ID r1 else r1)
                  })"

text \<open>The source's mutual recursion holds for these definitions.\<close>

lemma become_candidate_state: "become_candidate r = Some r' \<Longrightarrow> r_state r' = Candidate"
  by (auto simp: become_candidate_def split: if_splits)

lemma poll_step_candidate: "r_state r \<noteq> PreCandidate \<Longrightarrow> poll_step f v b r = poll_step g v b r"
  by (simp add: poll_step_def Let_def)

lemma campaign_election_cong: "campaign_step (poll_step f) CampaignElection r = campaign_step (poll_step g) CampaignElection r"
proof (cases "become_candidate r")
  case (Some r1)
  then have "r_state r1 \<noteq> PreCandidate" by (simp add: become_candidate_state)
  then show ?thesis using Some poll_step_candidate [of r1 f _ _ g] by (simp add: campaign_step_def)
qed (simp add: campaign_step_def)

lemma poll_campaign: "poll = poll_step (campaign CampaignElection)" "campaign = campaign_step poll"
proof -
  have "campaign_step poll_candidate CampaignElection = campaign_step poll CampaignElection"
    unfolding poll_candidate_def poll_def by (rule ext) (rule campaign_election_cong)
  then show "poll = poll_step (campaign CampaignElection)" by (subst poll_def) (simp only: campaign_def)
qed (rule campaign_def)

section \<open>Read requests\<close>

definition handle_ready_read_index :: "raft_message \<Rightarrow> nat \<Rightarrow> raft \<Rightarrow> (raft_message option \<times> raft) option" where
  "handle_ready_read_index req idx r =
     (if ms_from req = INVALID_ID \<or> ms_from req = r_id r then
        (case ms_entries req of
           [] \<Rightarrow> None
         | e # _ \<Rightarrow> Some (None, r\<lparr>r_read_states := r_read_states r @ [\<lparr>rd_index = idx, rd_request_ctx = en_data e\<rparr>]\<rparr>))
      else Some (Some (default_message\<lparr>ms_type := MsgReadIndexResp, ms_to := ms_from req, ms_index := idx,
                         ms_entries := ms_entries req\<rparr>), r))"

definition answer_read :: "raft_message \<Rightarrow> nat \<Rightarrow> raft \<Rightarrow> raft option" where
  "answer_read req idx r =
     do {
       (resp, r1) \<leftarrow> handle_ready_read_index req idx r;
       (case resp of Some m \<Rightarrow> send m r1 | None \<Rightarrow> Some r1)
     }"

fun answer_reads :: "read_index_status list \<Rightarrow> raft \<Rightarrow> raft option" where
  "answer_reads [] r = Some r"
| "answer_reads (rs # rss) r = do { r1 \<leftarrow> answer_read (ri_req rs) (ri_index rs) r; answer_reads rss r1 }"

definition release_reads :: "byte list \<Rightarrow> raft \<Rightarrow> raft option" where
  "release_reads ctx r =
     do {
       (rss, ro) \<leftarrow> advance_reads ctx (r_read_only r);
       answer_reads rss (r\<lparr>r_read_only := ro\<rparr>)
     }"

definition commit_to_current_term :: "raft \<Rightarrow> bool" where
  "commit_to_current_term r \<longleftrightarrow> log_term (lg_committed (r_log r)) (r_log r) = Inr (r_term r)"

section \<open>Messages to a leader\<close>

definition send_timeout_now :: "nat \<Rightarrow> raft \<Rightarrow> raft option" where
  "send_timeout_now to r = send (new_message to MsgTimeoutNow None) r"

definition append_rejected :: "raft_message \<Rightarrow> nat \<Rightarrow> progress \<Rightarrow> raft \<Rightarrow> raft option" where
  "append_rejected m next_probe_index pr r =
     (let (decreased, pr1) = maybe_decr_to (ms_index m) next_probe_index (ms_request_snapshot m) pr
      in if decreased
         then send_append (ms_from m) (put_progress (ms_from m) (if pg_state pr1 = Replicate then become_probe pr1 else pr1) r)
         else Some (put_progress (ms_from m) pr1 r))"

definition append_accepted :: "raft_message \<Rightarrow> bool \<Rightarrow> progress \<Rightarrow> raft \<Rightarrow> raft option" where
  "append_accepted m old_paused pr r =
     do {
       pr1 \<leftarrow>
         (case pg_state pr of
            Probe \<Rightarrow> Some (become_replicate pr)
          | Snapshotting \<Rightarrow> Some (if is_snapshot_caught_up pr then become_probe pr else pr)
          | Replicate \<Rightarrow> map_option (\<lambda>i. pr\<lparr>pg_ins := i\<rparr>) (free_to (ms_index m) (pg_ins pr)));
       (committed, r1) \<leftarrow> raft_maybe_commit (put_progress (ms_from m) pr1 r);
       r2 \<leftarrow> (if committed then if should_bcast_commit r1 then bcast_append r1 else Some r1
              else if old_paused then send_append (ms_from m) r1 else Some r1);
       r3 \<leftarrow> send_append_aggressively (ms_from m) r2;
       if r_lead_transferee r3 = Some (ms_from m) then
         do {
           pr2 \<leftarrow> get_progress (ms_from m) (r_prs r3);
           if pg_matched pr2 = log_last_index (r_log r3) then send_timeout_now (ms_from m) r3 else Some r3
         }
       else Some r3
     }"

definition handle_append_response :: "raft_message \<Rightarrow> raft \<Rightarrow> raft option" where
  "handle_append_response m r =
     do {
       next_probe_index \<leftarrow>
         (if ms_reject m \<and> 0 < ms_log_term m
          then map_option fst (find_conflict_by_term (ms_reject_hint m) (ms_log_term m) (r_log r))
          else Some (ms_reject_hint m));
       (case get_progress (ms_from m) (r_prs r) of
          None \<Rightarrow> Some r
        | Some pr \<Rightarrow>
            let pr1 = update_committed (ms_commit m) (pr\<lparr>pg_recent_active := True\<rparr>)
            in if ms_reject m then append_rejected m next_probe_index pr1 r
               else
                 let (changed, pr2) = maybe_update (ms_index m) pr1
                 in if changed then append_accepted m (is_paused pr1) pr2 r else Some (put_progress (ms_from m) pr2 r))
     }"

definition handle_heartbeat_response :: "raft_message \<Rightarrow> raft \<Rightarrow> raft option" where
  "handle_heartbeat_response m r =
     (case get_progress (ms_from m) (r_prs r) of
        None \<Rightarrow> Some r
      | Some pr \<Rightarrow>
          do {
            let pr1 = resume ((update_committed (ms_commit m) pr)\<lparr>pg_recent_active := True\<rparr>);
            pr2 \<leftarrow> (if pg_state pr1 = Replicate \<and> full (pg_ins pr1)
                    then map_option (\<lambda>i. pr1\<lparr>pg_ins := i\<rparr>) (free_first_one (pg_ins pr1)) else Some pr1);
            r1 \<leftarrow> (if pg_matched pr2 < log_last_index (r_log r) \<or> pg_pending_request_snapshot pr2 \<noteq> INVALID_INDEX
                   then map_option (\<lambda>(pr3, r1). put_progress (ms_from m) pr3 r1) (core_send_append (ms_from m) pr2 r)
                   else Some (put_progress (ms_from m) pr2 r));
            if ro_option (r_read_only r1) \<noteq> Read_Safe \<or> ms_context m = [] then Some r1
            else
              let (acks, ro) = recv_ack (ms_from m) (ms_context m) (r_read_only r1);
                  r2 = r1\<lparr>r_read_only := ro\<rparr>
              in (case acks of
                    Some vs \<Rightarrow> if has_quorum vs (r_prs r2) then release_reads (ms_context m) r2 else Some r2
                  | None \<Rightarrow> Some r2)
          })"

definition handle_transfer_leader :: "raft_message \<Rightarrow> raft \<Rightarrow> raft option" where
  "handle_transfer_leader m r =
     (let from = ms_from m
      in if get_progress from (r_prs r) = None \<or> from \<in> set (tc_learners (pt_conf (r_prs r))) \<or> r_lead_transferee r = Some from
         then Some r
         else
           let r1 = abort_leader_transfer r
           in if from = r_id r1 then Some r1
              else
                do {
                  let r2 = r1\<lparr>r_election_elapsed := 0, r_lead_transferee := Some from\<rparr>;
                  pr \<leftarrow> get_progress from (r_prs r2);
                  if pg_matched pr = log_last_index (r_log r2) then send_timeout_now from r2
                  else map_option (\<lambda>(pr1, r3). put_progress from pr1 r3) (core_send_append from pr r2)
                })"

definition handle_snapshot_status :: "raft_message \<Rightarrow> raft \<Rightarrow> raft" where
  "handle_snapshot_status m r =
     (case get_progress (ms_from m) (r_prs r) of
        None \<Rightarrow> r
      | Some pr \<Rightarrow>
          if pg_state pr \<noteq> Snapshotting then r
          else
            let pr1 = become_probe (if ms_reject m then snapshot_failure pr else pr)
            in put_progress (ms_from m) ((pause pr1)\<lparr>pg_pending_request_snapshot := INVALID_INDEX\<rparr>) r)"

definition handle_unreachable :: "raft_message \<Rightarrow> raft \<Rightarrow> raft" where
  "handle_unreachable m r =
     (case get_progress (ms_from m) (r_prs r) of
        None \<Rightarrow> r
      | Some pr \<Rightarrow> if pg_state pr = Replicate then put_progress (ms_from m) (become_probe pr) r else r)"

definition check_quorum_active :: "raft \<Rightarrow> bool \<times> raft" where
  "check_quorum_active r =
     (let (active, t) = quorum_recently_active (r_id r) (r_prs r) in (active, r\<lparr>r_prs := t\<rparr>))"

definition decode_conf_entry :: "proto_codec \<Rightarrow> raft_entry \<Rightarrow> conf_change_v2 option" where
  "decode_conf_entry cd e =
     (if en_type e = EntryConfChange then map_option into_v2 (decode_conf_change cd (en_data e))
      else decode_conf_change_v2 cd (en_data e))"

definition conf_change_refused :: "conf_change_v2 \<Rightarrow> raft \<Rightarrow> bool" where
  "conf_change_refused cc r \<longleftrightarrow> has_pending_conf r \<or>
     is_joint (pt_conf (r_prs r)) \<noteq> (v2_changes cc = [])"

text \<open>\<^term>\<open>None\<close> beside the state: a configuration change could not be decoded and the whole proposal is dropped.\<close>

fun propose_entries :: "nat \<Rightarrow> raft_entry list \<Rightarrow> raft \<Rightarrow> raft_entry list option \<times> raft" where
  "propose_entries i [] r = (Some [], r)"
| "propose_entries i (e # es) r =
     (if \<not> is_conf_entry e then apfst (map_option (Cons e)) (propose_entries (Suc i) es r)
      else
        (case decode_conf_entry (rs_codec (lg_store (r_log r))) e of
           None \<Rightarrow> (None, r)
         | Some cc \<Rightarrow>
             if conf_change_refused cc r then apfst (map_option (Cons default_entry)) (propose_entries (Suc i) es r)
             else apfst (map_option (Cons e))
                    (propose_entries (Suc i) es (r\<lparr>r_pending_conf_index := log_last_index (r_log r) + i + 1\<rparr>))))"

type_synonym step_result = "(raft_error option \<times> raft) option"

definition okay :: "raft option \<Rightarrow> step_result" where
  "okay x = map_option (Pair None) x"

definition handle_propose :: "raft_message \<Rightarrow> raft \<Rightarrow> step_result" where
  "handle_propose m r =
     (if ms_entries m = [] then None
      else if get_progress (r_id r) (r_prs r) = None \<or> r_lead_transferee r \<noteq> None then Some (Some ProposalDropped, r)
      else
        (case propose_entries 0 (ms_entries m) r of
           (None, r1) \<Rightarrow> Some (Some ProposalDropped, r1)
         | (Some es, r1) \<Rightarrow>
             do {
               (fits, r2) \<leftarrow> append_entry es r1;
               if fits then okay (bcast_append r2) else Some (Some ProposalDropped, r2)
             }))"

definition handle_read_index :: "raft_message \<Rightarrow> raft \<Rightarrow> raft option" where
  "handle_read_index m r =
     (if \<not> commit_to_current_term r then Some r
      else if tracker_is_singleton (r_prs r) then answer_read m (lg_committed (r_log r)) r
      else
        (case ro_option (r_read_only r) of
           Read_Safe \<Rightarrow>
             do {
               ctx \<leftarrow> (case ms_entries m of [] \<Rightarrow> None | e # _ \<Rightarrow> Some (en_data e));
               ro \<leftarrow> add_request (lg_committed (r_log r)) m (r_id r) (r_read_only r);
               bcast_heartbeat_with_ctx (Some ctx) (r\<lparr>r_read_only := ro\<rparr>)
             }
         | Read_LeaseBased \<Rightarrow> answer_read m (lg_committed (r_log r)) r))"

definition step_leader :: "raft_message \<Rightarrow> raft \<Rightarrow> step_result" where
  "step_leader m r =
     (case ms_type m of
        MsgBeat \<Rightarrow> okay (bcast_heartbeat r)
      | MsgCheckQuorum \<Rightarrow>
          okay (let (active, r1) = check_quorum_active r
                in Some (if active then r1 else become_follower (r_term r1) INVALID_ID r1))
      | MsgPropose \<Rightarrow> handle_propose m r
      | MsgReadIndex \<Rightarrow> okay (handle_read_index m r)
      | MsgAppendResponse \<Rightarrow> okay (handle_append_response m r)
      | MsgHeartbeatResponse \<Rightarrow> okay (handle_heartbeat_response m r)
      | MsgSnapStatus \<Rightarrow> okay (Some (handle_snapshot_status m r))
      | MsgUnreachable \<Rightarrow> okay (Some (handle_unreachable m r))
      | MsgTransferLeader \<Rightarrow> okay (handle_transfer_leader m r)
      | _ \<Rightarrow> okay (Some r))"

section \<open>Messages to a follower\<close>

definition send_request_snapshot :: "raft \<Rightarrow> raft option" where
  "send_request_snapshot r =
     (case log_term (log_last_index (r_log r)) (r_log r) of
        Inl _ \<Rightarrow> None
      | Inr t \<Rightarrow>
          send (default_message\<lparr>ms_type := MsgAppendResponse, ms_index := lg_committed (r_log r), ms_reject := True,
                  ms_reject_hint := log_last_index (r_log r), ms_to := r_leader_id r,
                  ms_request_snapshot := r_pending_request_snapshot r, ms_log_term := t\<rparr>) r)"

definition append_response :: "raft_message \<Rightarrow> nat \<Rightarrow> raft_message" where
  "append_response m idx = default_message\<lparr>ms_type := MsgAppendResponse, ms_to := ms_from m, ms_index := idx\<rparr>"

definition handle_append_entries :: "raft_message \<Rightarrow> raft \<Rightarrow> raft option" where
  "handle_append_entries m r =
     (if r_pending_request_snapshot r \<noteq> INVALID_INDEX then send_request_snapshot r
      else if ms_index m < lg_committed (r_log r) then
        send ((append_response m (lg_committed (r_log r)))\<lparr>ms_commit := lg_committed (r_log r)\<rparr>) r
      else
        do {
          (res, lg) \<leftarrow> maybe_append (ms_index m) (ms_log_term m) (ms_commit m) (ms_entries m) (r_log r);
          let r1 = r\<lparr>r_log := lg\<rparr>;
          (case res of
             Some (_, last_idx) \<Rightarrow> send ((append_response m last_idx)\<lparr>ms_commit := lg_committed lg\<rparr>) r1
           | None \<Rightarrow>
               do {
                 (hint_index, hint_term) \<leftarrow> find_conflict_by_term (min (ms_index m) (log_last_index lg)) (ms_log_term m) lg;
                 t \<leftarrow> hint_term;
                 send ((append_response m (ms_index m))\<lparr>ms_reject := True, ms_reject_hint := hint_index, ms_log_term := t,
                         ms_commit := lg_committed lg\<rparr>) r1
               })
        })"

definition handle_heartbeat :: "raft_message \<Rightarrow> raft \<Rightarrow> raft option" where
  "handle_heartbeat m r =
     (let r1 = r\<lparr>r_log := commit_to (ms_commit m) (r_log r)\<rparr>
      in if r_pending_request_snapshot r1 \<noteq> INVALID_INDEX then send_request_snapshot r1
         else send (default_message\<lparr>ms_type := MsgHeartbeatResponse, ms_to := ms_from m, ms_context := ms_context m,
                      ms_commit := lg_committed (r_log r1)\<rparr>) r1)"

text \<open>After a change of the configuration; the first component is the new configuration.\<close>

definition post_conf_change :: "raft \<Rightarrow> (conf_state \<times> raft) option" where
  "post_conf_change r =
     (let cs = to_conf_state (pt_conf (r_prs r));
          is_voter = joint_contains (tc_voters (pt_conf (r_prs r))) (r_id r);
          r1 = r\<lparr>r_promotable := is_voter\<rparr>
      in if r_state r1 \<noteq> Leader \<or> \<not> is_voter \<or> cs_voters cs = [] then Some (cs, r1)
         else
           do {
             (committed, r2) \<leftarrow> raft_maybe_commit r1;
             r3 \<leftarrow> (if committed then bcast_append r2
                    else for_each_peer (\<lambda>to pr r. map_option snd (maybe_send_append to pr False r)) r2);
             r4 \<leftarrow>
               (case last_pending_request_ctx (r_read_only r3) of
                  None \<Rightarrow> Some r3
                | Some ctx \<Rightarrow>
                    let (acks, ro) = recv_ack (r_id r3) ctx (r_read_only r3);
                        r4 = r3\<lparr>r_read_only := ro\<rparr>
                    in (case acks of
                          Some vs \<Rightarrow> if has_quorum vs (r_prs r4) then release_reads ctx r4 else Some r4
                        | None \<Rightarrow> Some r4));
             Some (cs, (case r_lead_transferee r4 of
                          Some v \<Rightarrow> if joint_contains (tc_voters (pt_conf (r_prs r4))) v then r4 else abort_leader_transfer r4
                        | None \<Rightarrow> r4))
           })"

definition apply_conf_change :: "conf_change_v2 \<Rightarrow> raft \<Rightarrow> ((conf_change_error + conf_state) \<times> raft) option" where
  "apply_conf_change cc r =
     (case change_conf cc (r_prs r) of
        Inl e \<Rightarrow> Some (Inl e, r)
      | Inr (cfg, changes) \<Rightarrow>
          map_option (apfst Inr)
            (post_conf_change (r\<lparr>r_prs := apply_conf cfg changes (log_last_index (r_log r)) (r_prs r)\<rparr>)))"

definition install_snapshot :: "raft_snapshot \<Rightarrow> raft \<Rightarrow> raft option" where
  "install_snapshot s r =
     do {
       lg \<leftarrow> log_restore s (r_log r);
       let r1 = r\<lparr>r_log := lg, r_prs := clear_tracker (r_prs r)\<rparr>;
       (case restore_conf (log_last_index lg) (sn_conf s) (r_prs r1) of
          Inl _ \<Rightarrow> None
        | Inr t \<Rightarrow>
            do {
              (new_cs, r2) \<leftarrow> post_conf_change (r1\<lparr>r_prs := t\<rparr>);
              if \<not> conf_state_eq (sn_conf s) new_cs then None
              else
                do {
                  pr \<leftarrow> get_progress (r_id r2) (r_prs r2);
                  Some ((put_progress (r_id r2) (snd (maybe_update (pg_next_idx pr - 1) pr)) r2)\<lparr>r_pending_request_snapshot := INVALID_INDEX\<rparr>)
                }
            })
     }"

definition raft_restore :: "raft_snapshot \<Rightarrow> raft \<Rightarrow> (bool \<times> raft) option" where
  "raft_restore s r =
     (if sn_index s < lg_committed (r_log r) then Some (False, r)
      else if r_state r \<noteq> Follower then Some (False, become_follower (r_term r + 1) INVALID_INDEX r)
      else if r_id r \<notin> set (cs_voters (sn_conf s) @ cs_learners (sn_conf s) @ cs_voters_outgoing (sn_conf s)) then Some (False, r)
      else if r_pending_request_snapshot r = INVALID_INDEX \<and> match_term (sn_index s) (sn_term s) (r_log r)
      then Some (False, r\<lparr>r_log := commit_to (sn_index s) (r_log r)\<rparr>)
      else map_option (Pair True) (install_snapshot s r))"

definition handle_snapshot :: "raft_message \<Rightarrow> raft \<Rightarrow> raft option" where
  "handle_snapshot m r =
     do {
       (restored, r1) \<leftarrow> raft_restore (ms_snapshot m) r;
       send (append_response m (if restored then log_last_index (r_log r1) else lg_committed (r_log r1))) r1
     }"

definition request_snapshot :: "raft \<Rightarrow> step_result" where
  "request_snapshot r =
     (if r_state r = Leader \<or> r_leader_id r = INVALID_ID \<or> us_snapshot (lg_unstable (r_log r)) \<noteq> None \<or>
         r_pending_request_snapshot r \<noteq> INVALID_INDEX
      then Some (Some RequestSnapshotDropped, r)
      else
        (case log_term (log_last_index (r_log r)) (r_log r) of
           Inl _ \<Rightarrow> None
         | Inr t \<Rightarrow>
             if r_term r = t
             then okay (send_request_snapshot (r\<lparr>r_pending_request_snapshot := log_last_index (r_log r)\<rparr>))
             else Some (Some RequestSnapshotDropped, r)))"

definition step_candidate :: "raft_message \<Rightarrow> raft \<Rightarrow> step_result" where
  "step_candidate m r =
     (case ms_type m of
        MsgPropose \<Rightarrow> Some (Some ProposalDropped, r)
      | MsgAppend \<Rightarrow> okay (handle_append_entries m (become_follower (ms_term m) (ms_from m) r))
      | MsgHeartbeat \<Rightarrow> okay (handle_heartbeat m (become_follower (ms_term m) (ms_from m) r))
      | MsgSnapshot \<Rightarrow> okay (handle_snapshot m (become_follower (ms_term m) (ms_from m) r))
      | t \<Rightarrow>
          if is_vote_response t then
            if r_state r = PreCandidate \<and> t \<noteq> MsgRequestPreVoteResponse \<or> r_state r = Candidate \<and> t \<noteq> MsgRequestVoteResponse
            then okay (Some r)
            else okay (do { (_, r1) \<leftarrow> poll (ms_from m) (\<not> ms_reject m) r; maybe_commit_by_vote m r1 })
          else okay (Some r))"

definition hear_leader :: "nat \<Rightarrow> raft \<Rightarrow> raft" where
  "hear_leader v r = r\<lparr>r_election_elapsed := 0, r_leader_id := v\<rparr>"

definition step_follower :: "raft_message \<Rightarrow> raft \<Rightarrow> step_result" where
  "step_follower m r =
     (case ms_type m of
        MsgPropose \<Rightarrow>
          if r_leader_id r = INVALID_ID \<or> cf_disable_proposal_forwarding (r_cfg r) then Some (Some ProposalDropped, r)
          else okay (send (m\<lparr>ms_to := r_leader_id r\<rparr>) r)
      | MsgAppend \<Rightarrow> okay (handle_append_entries m (hear_leader (ms_from m) r))
      | MsgHeartbeat \<Rightarrow> okay (handle_heartbeat m (hear_leader (ms_from m) r))
      | MsgSnapshot \<Rightarrow> okay (handle_snapshot m (hear_leader (ms_from m) r))
      | MsgTransferLeader \<Rightarrow> if r_leader_id r = INVALID_ID then okay (Some r) else okay (send (m\<lparr>ms_to := r_leader_id r\<rparr>) r)
      | MsgTimeoutNow \<Rightarrow> if r_promotable r then okay (hup True r) else okay (Some r)
      | MsgReadIndex \<Rightarrow> if r_leader_id r = INVALID_ID then okay (Some r) else okay (send (m\<lparr>ms_to := r_leader_id r\<rparr>) r)
      | MsgReadIndexResp \<Rightarrow>
          (case ms_entries m of
             [e] \<Rightarrow>
               okay (Some (r\<lparr>r_read_states := r_read_states r @ [\<lparr>rd_index = ms_index m, rd_request_ctx = en_data e\<rparr>],
                             r_log := snd (maybe_commit (ms_index m) (ms_term m) (r_log r))\<rparr>))
           | _ \<Rightarrow> okay (Some r))
      | _ \<Rightarrow> okay (Some r))"

section \<open>Stepping\<close>

definition can_vote :: "raft_message \<Rightarrow> raft \<Rightarrow> bool" where
  "can_vote m r \<longleftrightarrow> r_vote r = ms_from m \<or> r_vote r = INVALID_ID \<and> r_leader_id r = INVALID_ID \<or>
     ms_type m = MsgRequestPreVote \<and> r_term r < ms_term m"

definition grant_vote :: "raft_message \<Rightarrow> message_type \<Rightarrow> raft \<Rightarrow> raft option" where
  "grant_vote m resp r =
     do {
       r1 \<leftarrow> send ((new_message (ms_from m) resp None)\<lparr>ms_reject := False, ms_term := ms_term m\<rparr>) r;
       Some (if ms_type m = MsgRequestVote then r1\<lparr>r_election_elapsed := 0, r_vote := ms_from m\<rparr> else r1)
     }"

definition refuse_vote :: "raft_message \<Rightarrow> message_type \<Rightarrow> raft \<Rightarrow> raft option" where
  "refuse_vote m resp r =
     do {
       (commit, commit_term) \<leftarrow> commit_info (r_log r);
       r1 \<leftarrow> send ((new_message (ms_from m) resp None)\<lparr>ms_reject := True, ms_term := r_term r, ms_commit := commit,
                      ms_commit_term := commit_term\<rparr>) r;
       maybe_commit_by_vote m r1
     }"

definition handle_vote_request :: "raft_message \<Rightarrow> raft \<Rightarrow> raft option" where
  "handle_vote_request m r =
     do {
       up_to_date \<leftarrow> (if can_vote m r then is_up_to_date (ms_index m) (ms_log_term m) (r_log r) else Some False);
       resp \<leftarrow> vote_resp_msg_type (ms_type m);
       if up_to_date \<and> (log_last_index (r_log r) < ms_index m \<or> cf_priority (r_cfg r) \<le> get_priority m)
       then grant_vote m resp r else refuse_vote m resp r
     }"

definition lease_held :: "raft \<Rightarrow> bool" where
  "lease_held r \<longleftrightarrow> cf_check_quorum (r_cfg r) \<and> r_leader_id r \<noteq> INVALID_ID \<and> r_election_elapsed r < cf_election_tick (r_cfg r)"

text \<open>The first part of \<open>step\<close> compares terms: \<open>Done\<close> when the message is settled there, \<open>Go_on\<close> with the state to handle it in.\<close>

datatype term_check = Done raft | Go_on raft

definition check_term :: "raft_message \<Rightarrow> raft \<Rightarrow> term_check option" where
  "check_term m r =
     (let t = ms_type m
      in if ms_term m = 0 then Some (Go_on r)
         else if r_term r < ms_term m then
           if is_vote_request t \<and> ms_context m \<noteq> CAMPAIGN_TRANSFER \<and> lease_held r then Some (Done r)
           else if t = MsgRequestPreVote \<or> t = MsgRequestPreVoteResponse \<and> \<not> ms_reject m then Some (Go_on r)
           else Some (Go_on (become_follower (ms_term m)
                  (if t = MsgAppend \<or> t = MsgHeartbeat \<or> t = MsgSnapshot then ms_from m else INVALID_ID) r))
         else if ms_term m < r_term r then
           if (cf_check_quorum (r_cfg r) \<or> cf_pre_vote (r_cfg r)) \<and> (t = MsgHeartbeat \<or> t = MsgAppend)
           then map_option Done (send (new_message (ms_from m) MsgAppendResponse None) r)
           else if t = MsgRequestPreVote
           then map_option Done (send ((new_message (ms_from m) MsgRequestPreVoteResponse None)\<lparr>ms_term := r_term r, ms_reject := True\<rparr>) r)
           else Some (Done r)
         else Some (Go_on r))"

definition handle_message :: "raft_message \<Rightarrow> raft \<Rightarrow> step_result" where
  "handle_message m r =
     (if ms_type m = MsgHup then okay (hup False r)
      else if is_vote_request (ms_type m) then okay (handle_vote_request m r)
      else
        (case r_state r of
           PreCandidate \<Rightarrow> step_candidate m r
         | Candidate \<Rightarrow> step_candidate m r
         | Follower \<Rightarrow> step_follower m r
         | Leader \<Rightarrow> step_leader m r))"

definition step :: "raft_message \<Rightarrow> raft \<Rightarrow> step_result" where
  "step m r =
     (case check_term m r of
        None \<Rightarrow> None
      | Some (Done r1) \<Rightarrow> okay (Some r1)
      | Some (Go_on r1) \<Rightarrow> handle_message m r1)"

section \<open>Time\<close>

definition tick_election :: "raft \<Rightarrow> (bool \<times> raft) option" where
  "tick_election r =
     (let r1 = r\<lparr>r_election_elapsed := r_election_elapsed r + 1\<rparr>
      in if \<not> pass_election_timeout r1 \<or> \<not> r_promotable r1 then Some (False, r1)
         else map_option (\<lambda>(_, r2). (True, r2)) (step (new_message INVALID_ID MsgHup (Some (r_id r1))) (r1\<lparr>r_election_elapsed := 0\<rparr>)))"

definition tick_quorum :: "raft \<Rightarrow> (bool \<times> raft) option" where
  "tick_quorum r =
     do {
       (has_ready, r1) \<leftarrow>
         (if cf_check_quorum (r_cfg r)
          then map_option (\<lambda>(_, r1). (True, r1)) (step (new_message INVALID_ID MsgCheckQuorum (Some (r_id r))) r) else Some (False, r));
       Some (has_ready, if r_state r1 = Leader \<and> r_lead_transferee r1 \<noteq> None then abort_leader_transfer r1 else r1)
     }"

definition tick_heartbeat :: "raft \<Rightarrow> (bool \<times> raft) option" where
  "tick_heartbeat r =
     do {
       let r1 = r\<lparr>r_heartbeat_elapsed := r_heartbeat_elapsed r + 1, r_election_elapsed := r_election_elapsed r + 1\<rparr>;
       (has_ready, r2) \<leftarrow>
         (if cf_election_tick (r_cfg r1) \<le> r_election_elapsed r1 then tick_quorum (r1\<lparr>r_election_elapsed := 0\<rparr>) else Some (False, r1));
       if r_state r2 \<noteq> Leader then Some (has_ready, r2)
       else if cf_heartbeat_tick (r_cfg r2) \<le> r_heartbeat_elapsed r2
       then map_option (\<lambda>(_, r3). (True, r3)) (step (new_message INVALID_ID MsgBeat (Some (r_id r2))) (r2\<lparr>r_heartbeat_elapsed := 0\<rparr>))
       else Some (has_ready, r2)
     }"

definition tick :: "raft \<Rightarrow> (bool \<times> raft) option" where
  "tick r = (if r_state r = Leader then tick_heartbeat r else tick_election r)"

section \<open>Starting a node\<close>

definition load_state :: "hard_state \<Rightarrow> raft \<Rightarrow> raft option" where
  "load_state hs r =
     (if hs_commit hs < lg_committed (r_log r) \<or> log_last_index (r_log r) < hs_commit hs then None
      else Some (r\<lparr>r_log := (r_log r)\<lparr>lg_committed := hs_commit hs\<rparr>, r_term := hs_term hs, r_vote := hs_vote hs\<rparr>))"

definition blank_raft :: "raft_config \<Rightarrow> (nat \<Rightarrow> nat) \<Rightarrow> raft_storage \<Rightarrow> raft" where
  "blank_raft c rand st =
     \<lparr>r_id = cf_id c, r_term = 0, r_vote = 0, r_state = Follower, r_leader_id = 0, r_promotable = False,
      r_prs = new_tracker (cf_max_inflight_msgs c), r_msgs = [], r_log = new_raft_log (cf_max_apply_unpersisted_log_limit c) st,
      r_read_states = [], r_read_only = new_read_only (cf_read_only_option c), r_pending_request_snapshot = INVALID_INDEX,
      r_lead_transferee = None, r_pending_conf_index = 0, r_election_elapsed = 0, r_heartbeat_elapsed = 0,
      r_randomized_election_timeout = 0,
      r_uncommitted = \<lparr>un_max_size = cf_max_uncommitted_size c, un_size = 0, un_last_log_tail_index = 0\<rparr>,
      r_random = rand, r_cfg = c\<rparr>"

definition new_raft :: "raft_config \<Rightarrow> (nat \<Rightarrow> nat) \<Rightarrow> raft_storage \<Rightarrow> (raft_error + raft) option" where
  "new_raft c rand st =
     (if \<not> validate c then Some (Inl ConfigInvalid)
      else
        let r0 = blank_raft c rand st
        in (case restore_conf (log_last_index (r_log r0)) (rs_conf st) (r_prs r0) of
              Inl e \<Rightarrow> Some (Inl (ConfChangeError e))
            | Inr t \<Rightarrow>
                do {
                  (new_cs, r1) \<leftarrow> post_conf_change (r0\<lparr>r_prs := t\<rparr>);
                  if \<not> conf_state_eq new_cs (rs_conf st) then None
                  else
                    do {
                      r2 \<leftarrow> (if rs_hard st \<noteq> default_hard_state then load_state (rs_hard st) r1 else Some r1);
                      r3 \<leftarrow> (if 0 < cf_applied c then commit_apply_internal (cf_applied c) True r2 else Some r2);
                      Some (Inr (become_follower (r_term r3) INVALID_ID r3))
                    }
                }))"

end
