(* ===== verification/Raft_Election.thy ===== *)
theory Raft_Election
  imports Raft_Node
begin

text \<open>
  Elections in a cluster of Raft nodes. Most operations of a node are quiet: they change neither its term, its vote, its role nor the
  votes it has counted, and send no vote. The others are looked at one by one.
\<close>

section \<open>Quiet operations\<close>

definition granted :: "raft_message \<Rightarrow> bool" where
  "granted m \<longleftrightarrow> ms_type m = MsgRequestVoteResponse \<and> \<not> ms_reject m"

definition from_leader :: "raft_message \<Rightarrow> bool" where
  "from_leader m \<longleftrightarrow> ms_type m \<in> {MsgAppend, MsgHeartbeat, MsgSnapshot}"

definition msg_key :: "raft_message \<Rightarrow> message_type \<times> nat \<times> nat \<times> nat \<times> bool" where
  "msg_key m = (ms_type m, ms_to m, ms_from m, ms_term m, ms_reject m)"

definition harmless :: "raft \<Rightarrow> raft_message \<Rightarrow> bool" where
  "harmless r m \<longleftrightarrow> \<not> granted m \<and> (from_leader m \<longrightarrow> r_state r = Leader \<and> ms_term m = r_term r)"

definition quiet :: "raft \<Rightarrow> raft \<Rightarrow> bool" where
  "quiet r r' \<longleftrightarrow> r_id r' = r_id r \<and> r_term r' = r_term r \<and> r_vote r' = r_vote r \<and> r_state r' = r_state r \<and>
     pt_votes (r_prs r') = pt_votes (r_prs r) \<and>
     (\<forall>m' \<in> set (r_msgs r'). msg_key m' \<in> msg_key ` set (r_msgs r) \<or> harmless r m')"

lemma quiet_refl [simp]: "quiet r r"
  by (simp add: quiet_def)

lemma harmless_key: "msg_key m = msg_key m' \<Longrightarrow> harmless r m = harmless r m'"
  by (simp add: msg_key_def harmless_def granted_def from_leader_def)

lemma quiet_trans: 
  assumes "quiet r r1" and "quiet r1 r2"
  shows "quiet r r2"
proof -
  have "harmless r1 m = harmless r m" for m using assms(1) by (simp add: quiet_def harmless_def)
  then show ?thesis
    using assms unfolding quiet_def by (auto simp: image_iff dest: harmless_key) (metis harmless_key)
qed

lemma quiet_state: "quiet r r' \<Longrightarrow> r_state r' = r_state r"
  by (simp add: quiet_def)

lemma quiet_update [simp]:
  "quiet s (r\<lparr>r_log := lg\<rparr>) = quiet s r" "quiet s (r\<lparr>r_read_only := ro\<rparr>) = quiet s r" "quiet s (r\<lparr>r_read_states := rs\<rparr>) = quiet s r"
  "quiet s (r\<lparr>r_pending_conf_index := n\<rparr>) = quiet s r" "quiet s (r\<lparr>r_election_elapsed := n\<rparr>) = quiet s r"
  "quiet s (r\<lparr>r_heartbeat_elapsed := n\<rparr>) = quiet s r" "quiet s (r\<lparr>r_promotable := b\<rparr>) = quiet s r"
  "quiet s (r\<lparr>r_lead_transferee := lt\<rparr>) = quiet s r" "quiet s (r\<lparr>r_pending_request_snapshot := n\<rparr>) = quiet s r"
  "quiet s (r\<lparr>r_leader_id := n\<rparr>) = quiet s r" "quiet s (r\<lparr>r_uncommitted := u\<rparr>) = quiet s r"
  "quiet s (r\<lparr>r_prs := (r_prs r)\<lparr>pt_progress := ps\<rparr>\<rparr>) = quiet s r" "quiet s (put_progress v pr r) = quiet s r"
  by (simp_all add: quiet_def put_progress_def set_progress_def)

text \<open>Every result of a computation that may panic satisfies a predicate.\<close>

definition ensures :: "('a \<Rightarrow> bool) \<Rightarrow> 'a option \<Rightarrow> bool" where
  "ensures P x \<longleftrightarrow> (\<forall>y. x = Some y \<longrightarrow> P y)"

lemma ensures_simps [simp]:
  "ensures P None" "ensures P (Some y) = P y" "ensures P (map_option f x) = ensures (\<lambda>y. P (f y)) x"
  "ensures P (x \<bind> g) = ensures (\<lambda>y. ensures P (g y)) x"
  by (auto simp: ensures_def bind_eq_Some_conv)

lemma ensures_mono: "\<lbrakk>ensures P x; \<And>y. P y \<Longrightarrow> Q y\<rbrakk> \<Longrightarrow> ensures Q x"
  by (simp add: ensures_def)

lemma ensuresI: "(\<And>y. x = Some y \<Longrightarrow> P y) \<Longrightarrow> ensures P x"
  by (simp add: ensures_def)

lemma ensuresD: "\<lbrakk>ensures P x; x = Some y\<rbrakk> \<Longrightarrow> P y"
  by (simp add: ensures_def)

lemma stamp_message_key:
  "ms_type (stamp_message m r) = ms_type m" "ms_reject (stamp_message m r) = ms_reject m" "ms_to (stamp_message m r) = ms_to m"
  "from_leader m \<Longrightarrow> ms_term (stamp_message m r) = r_term r"
  "is_vote_response (ms_type m) \<Longrightarrow> ms_term (stamp_message m r) = ms_term m"
  "ms_from m = 0 \<Longrightarrow> ms_from (stamp_message m r) = r_id r"
  by (auto simp: stamp_message_def from_leader_def is_vote_request_def is_vote_response_def INVALID_ID_def Let_def)

lemma send_quiet:
  assumes "send m r = Some r'" and "ms_type m = MsgRequestVoteResponse \<Longrightarrow> ms_reject m" and "from_leader m \<Longrightarrow> r_state r = Leader"
  shows "quiet r r'"
proof -
  have "from_leader (stamp_message m r) = from_leader m" by (simp add: from_leader_def stamp_message_key)
  then have "harmless r (stamp_message m r)" using assms(2,3) by (auto simp: harmless_def granted_def stamp_message_key)
  moreover have "r' = r\<lparr>r_msgs := r_msgs r @ [stamp_message m r]\<rparr>" using assms(1) by (simp add: send_def split: if_splits)
  ultimately show ?thesis by (auto simp: quiet_def)
qed

lemma send_ensures:
  assumes "quiet s r" and "ms_type m = MsgRequestVoteResponse \<longrightarrow> ms_reject m" and "from_leader m \<longrightarrow> r_state s = Leader"
  shows "ensures (quiet s) (send m r)"
proof (rule ensuresI)
  fix r'
  assume "send m r = Some r'"
  then have "quiet r r'" using assms quiet_state [OF assms(1)] by (intro send_quiet) auto
  then show "quiet s r'" using assms(1) by (rule quiet_trans [rotated])
qed

lemmas pure_ops =
  ensuresI [where x = "update_state n pr" for n pr] ensuresI [where x = "get_progress v t" for v t]
  ensuresI [where x = "log_entries i mx lg" for i mx lg] ensuresI [where x = "try_batching c to pr es ms" for c to pr es ms]
  ensuresI [where x = "log_append es lg" for es lg] ensuresI [where x = "applied_to n lg" for n lg]
  ensuresI [where x = "free_to n i" for n i] ensuresI [where x = "free_first_one i" for i]
  ensuresI [where x = "find_conflict_by_term i t lg" for i t lg] ensuresI [where x = "maybe_append i t c es lg" for i t c es lg]
  ensuresI [where x = "advance_reads ctx ro" for ctx ro] ensuresI [where x = "add_request i m v ro" for i m v ro]
  ensuresI [where x = "log_restore sn lg" for sn lg] ensuresI [where x = "commit_info lg" for lg]
  ensuresI [where x = "log_last_term lg" for lg] ensuresI [where x = "is_up_to_date i t lg" for i t lg]
  ensuresI [where x = "vote_resp_msg_type t" for t] ensuresI [where x = "has_unapplied_conf_changes lo hi r" for lo hi r]
  ensuresI [where x = "maybe_persist_snap i lg" for i lg]

lemmas send_ops = send_ensures [THEN ensures_mono]
lemmas message_kinds = default_message_def new_message_def from_leader_def

lemma send_snapshot_ensures:
  "\<lbrakk>quiet s r; r_state s = Leader\<rbrakk> \<Longrightarrow> ensures (\<lambda>(b, pr, r'). quiet s r') (send_snapshot to pr r)"
  by (auto simp: send_snapshot_def prepare_send_snapshot_def message_kinds split: sum.splits intro!: send_ops [of s])

lemma send_entries_ensures:
  "\<lbrakk>quiet s r; r_state s = Leader\<rbrakk> \<Longrightarrow> ensures (\<lambda>(b, pr, r'). quiet s r') (send_entries to pr t es r)"
  by (auto simp: send_entries_def prepare_send_entries_def message_kinds Let_def intro!: send_ops [of s] pure_ops)

lemma try_batching_keys:
  "try_batching c to pr es ms = Some (b, pr', ms') \<Longrightarrow> map msg_key ms' = map msg_key ms"
  by (induction ms arbitrary: ms') (auto simp: msg_key_def split: if_splits option.splits)

lemma batched_quiet:
  assumes "quiet s r" and "map msg_key ms' = map msg_key (r_msgs r)"
  shows "quiet s (r\<lparr>r_msgs := ms'\<rparr>)"
proof -
  have "msg_key ` set ms' = msg_key ` set (r_msgs r)" using assms(2) by (metis image_set)
  then have "quiet r (r\<lparr>r_msgs := ms'\<rparr>)" by (auto simp: quiet_def)
  then show ?thesis by (rule quiet_trans [OF assms(1)])
qed

lemma maybe_send_append_ensures:
  "\<lbrakk>quiet s r; r_state s = Leader\<rbrakk> \<Longrightarrow> ensures (\<lambda>(b, pr, r'). quiet s r') (maybe_send_append to pr e r)"
  by (auto simp: maybe_send_append_def dest: try_batching_keys intro!: send_snapshot_ensures [of s] send_entries_ensures [of s]
      pure_ops batched_quiet split: sum.splits)

lemma core_send_append_ensures:
  "\<lbrakk>quiet s r; r_state s = Leader\<rbrakk> \<Longrightarrow> ensures (\<lambda>(pr, r'). quiet s r') (core_send_append to pr r)"
  by (auto simp: core_send_append_def intro!: maybe_send_append_ensures [THEN ensures_mono, of s])

lemma aggressive_quiet:
  "core_send_append_aggressively to pr r = Some y \<Longrightarrow> quiet s r \<and> r_state s = Leader \<longrightarrow> quiet s (snd y)"
proof (erule core_send_append_aggressively.raw_induct [where P = "\<lambda>to pr r y. quiet s r \<and> r_state s = Leader \<longrightarrow> quiet s (snd y)", rotated])
  fix f to pr r y
  assume IH: "\<And>to pr r y. f to pr r = Some y \<Longrightarrow> quiet s r \<and> r_state s = Leader \<longrightarrow> quiet s (snd y)"
    and body: "(case maybe_send_append to pr False r of None \<Rightarrow> None
      | Some (sent, pr1, r1) \<Rightarrow> if sent then f to pr1 r1 else Some (pr1, r1)) = Some y"
  from body obtain b pr1 r1 where run: "maybe_send_append to pr False r = Some (b, pr1, r1)"
    "if b then f to pr1 r1 = Some y else y = (pr1, r1)"
    by (auto split: option.splits if_splits)
  show "quiet s r \<and> r_state s = Leader \<longrightarrow> quiet s (snd y)"
    using run IH [of to pr1 r1 y] ensuresD [OF maybe_send_append_ensures [of s r] run(1)] by (cases b) auto
qed

lemma aggressive_ensures:
  "\<lbrakk>quiet s r; r_state s = Leader\<rbrakk> \<Longrightarrow> ensures (\<lambda>(pr, r'). quiet s r') (core_send_append_aggressively to pr r)"
  by (auto intro!: ensuresI dest: aggressive_quiet)

lemma send_append_ensures: "\<lbrakk>quiet s r; r_state s = Leader\<rbrakk> \<Longrightarrow> ensures (quiet s) (send_append to r)"
  by (auto simp: send_append_def intro!: pure_ops core_send_append_ensures [THEN ensures_mono, of s])

lemma send_append_aggressively_ensures: "\<lbrakk>quiet s r; r_state s = Leader\<rbrakk> \<Longrightarrow> ensures (quiet s) (send_append_aggressively to r)"
  by (auto simp: send_append_aggressively_def intro!: pure_ops aggressive_ensures [THEN ensures_mono, of s])

lemma each_peer_ensures:
  assumes "\<And>v pr r. quiet s r \<Longrightarrow> ensures (\<lambda>(pr, r'). quiet s r') (f v pr r)"
  shows "quiet s r \<Longrightarrow> ensures (\<lambda>(ps, r'). quiet s r') (each_peer f ps r)"
proof (induction ps arbitrary: r)
  case (Cons p ps)
  then show ?case
    by (cases p) (auto intro!: Cons.IH [THEN ensures_mono] assms [THEN ensures_mono] split: option.split dest: ensuresD [OF assms])
qed simp

lemma for_each_peer_ensures:
  assumes "\<And>v pr r. quiet s r \<Longrightarrow> ensures (\<lambda>(pr, r'). quiet s r') (f v pr r)"
  shows "quiet s r \<Longrightarrow> ensures (quiet s) (for_each_peer f r)"
  by (auto simp: for_each_peer_def intro!: each_peer_ensures [OF assms, THEN ensures_mono])

lemma bcast_append_ensures: "\<lbrakk>quiet s r; r_state s = Leader\<rbrakk> \<Longrightarrow> ensures (quiet s) (bcast_append r)"
  unfolding bcast_append_def by (rule for_each_peer_ensures [OF core_send_append_ensures])

lemma send_heartbeat_ensures: "\<lbrakk>quiet s r; r_state s = Leader\<rbrakk> \<Longrightarrow> ensures (quiet s) (send_heartbeat to pr ctx r)"
  by (auto simp: send_heartbeat_def message_kinds intro!: send_ensures)

lemma bcast_heartbeat_ctx_ensures: "\<lbrakk>quiet s r; r_state s = Leader\<rbrakk> \<Longrightarrow> ensures (quiet s) (bcast_heartbeat_with_ctx ctx r)"
  unfolding bcast_heartbeat_with_ctx_def by (rule for_each_peer_ensures) (auto intro!: send_heartbeat_ensures)

lemma bcast_heartbeat_ensures: "\<lbrakk>quiet s r; r_state s = Leader\<rbrakk> \<Longrightarrow> ensures (quiet s) (bcast_heartbeat r)"
  unfolding bcast_heartbeat_def by (rule bcast_heartbeat_ctx_ensures)

lemma raft_maybe_commit_ensures: "quiet s r \<Longrightarrow> ensures (\<lambda>(b, r'). quiet s r') (raft_maybe_commit r)"
  by (auto simp: raft_maybe_commit_def intro!: pure_ops split: prod.split)

lemma append_entry_ensures: "quiet s r \<Longrightarrow> ensures (\<lambda>(b, r'). quiet s r') (append_entry es r)"
  by (auto simp: append_entry_def intro!: pure_ops split: prod.split)

lemmas quiet_ops = send_ensures [THEN ensures_mono] raft_maybe_commit_ensures [THEN ensures_mono] append_entry_ensures [THEN ensures_mono]
lemmas leader_ops = send_append_ensures [THEN ensures_mono] send_append_aggressively_ensures [THEN ensures_mono]
  bcast_append_ensures [THEN ensures_mono] bcast_heartbeat_ctx_ensures [THEN ensures_mono]
  core_send_append_ensures [THEN ensures_mono] bcast_heartbeat_ensures [THEN ensures_mono]

lemma commit_apply_ensures: "quiet s r \<Longrightarrow> ensures (quiet s) (commit_apply_internal n b r)"
  by (auto simp: commit_apply_internal_def Let_def intro!: pure_ops quiet_ops [of s])

lemma on_persist_entries_ensures: "quiet s r \<Longrightarrow> ensures (quiet s) (on_persist_entries i t r)"
  by (auto simp: on_persist_entries_def Let_def split: prod.split intro!: pure_ops quiet_ops [of s] leader_ops [of s] dest: quiet_state)

lemma answer_read_ensures: "quiet s r \<Longrightarrow> ensures (quiet s) (answer_read m i r)"
  by (auto simp: answer_read_def handle_ready_read_index_def message_kinds split: list.split option.split intro!: quiet_ops [of s])

lemma answer_reads_ensures: "quiet s r \<Longrightarrow> ensures (quiet s) (answer_reads rss r)"
  by (induction rss arbitrary: r) (auto intro!: answer_read_ensures [THEN ensures_mono, of s])

lemma release_reads_ensures: "quiet s r \<Longrightarrow> ensures (quiet s) (release_reads ctx r)"
  by (auto simp: release_reads_def intro!: pure_ops answer_reads_ensures)

lemma send_timeout_now_ensures: "quiet s r \<Longrightarrow> ensures (quiet s) (send_timeout_now to r)"
  by (auto simp: send_timeout_now_def message_kinds intro!: send_ensures)

lemma append_rejected_ensures: "\<lbrakk>quiet s r; r_state s = Leader\<rbrakk> \<Longrightarrow> ensures (quiet s) (append_rejected m i pr r)"
  by (auto simp: append_rejected_def Let_def split: prod.split intro!: leader_ops [of s])

lemma append_accepted_ensures: "\<lbrakk>quiet s r; r_state s = Leader\<rbrakk> \<Longrightarrow> ensures (quiet s) (append_accepted m b pr r)"
  by (auto simp: append_accepted_def split: progress_state.split
      intro!: pure_ops quiet_ops [of s] leader_ops [of s] send_timeout_now_ensures [THEN ensures_mono, of s])

lemma handle_append_response_ensures: "\<lbrakk>quiet s r; r_state s = Leader\<rbrakk> \<Longrightarrow> ensures (quiet s) (handle_append_response m r)"
  by (auto simp: handle_append_response_def Let_def split: option.split prod.split
      intro!: pure_ops append_rejected_ensures append_accepted_ensures)

lemma handle_heartbeat_response_ensures: "\<lbrakk>quiet s r; r_state s = Leader\<rbrakk> \<Longrightarrow> ensures (quiet s) (handle_heartbeat_response m r)"
  by (auto simp: handle_heartbeat_response_def Let_def split: option.split prod.split
      intro!: pure_ops leader_ops [of s] release_reads_ensures)

lemma handle_transfer_leader_ensures: "\<lbrakk>quiet s r; r_state s = Leader\<rbrakk> \<Longrightarrow> ensures (quiet s) (handle_transfer_leader m r)"
  by (auto simp: handle_transfer_leader_def abort_leader_transfer_def Let_def
      intro!: pure_ops leader_ops [of s] send_timeout_now_ensures)

lemma handle_snapshot_status_quiet: "quiet s r \<Longrightarrow> quiet s (handle_snapshot_status m r)"
  by (auto simp: handle_snapshot_status_def Let_def split: option.split)

lemma handle_unreachable_quiet: "quiet s r \<Longrightarrow> quiet s (handle_unreachable m r)"
  by (auto simp: handle_unreachable_def split: option.split)

lemma propose_entries_quiet: "quiet s r \<Longrightarrow> quiet s (snd (propose_entries i es r))"
  by (induction i es r rule: propose_entries.induct) (auto split: option.split)

lemma handle_propose_ensures: "\<lbrakk>quiet s r; r_state s = Leader\<rbrakk> \<Longrightarrow> ensures (\<lambda>(e, r'). quiet s r') (handle_propose m r)"
  using propose_entries_quiet [of s r 0 "ms_entries m"]
  by (auto simp: handle_propose_def okay_def split: option.split prod.split intro!: quiet_ops [of s] leader_ops [of s])

lemma handle_read_index_ensures: "\<lbrakk>quiet s r; r_state s = Leader\<rbrakk> \<Longrightarrow> ensures (quiet s) (handle_read_index m r)"
  by (auto simp: handle_read_index_def split: list.split read_only_option.split
      intro!: pure_ops answer_read_ensures bcast_heartbeat_ctx_ensures)

lemma check_quorum_quiet: "quiet s r \<Longrightarrow> quiet s (snd (check_quorum_active r))"
  by (auto simp: check_quorum_active_def quorum_recently_active_def Let_def)

lemma send_request_snapshot_ensures: "quiet s r \<Longrightarrow> ensures (quiet s) (send_request_snapshot r)"
  by (auto simp: send_request_snapshot_def message_kinds split: sum.split intro!: send_ensures)

lemma handle_append_entries_ensures: "quiet s r \<Longrightarrow> ensures (quiet s) (handle_append_entries m r)"
  by (auto simp: handle_append_entries_def append_response_def message_kinds Let_def split: option.split prod.split
      intro!: pure_ops send_ensures send_request_snapshot_ensures)
     (rule ensuresI, auto simp: from_leader_def intro!: send_ensures)

lemma handle_heartbeat_ensures: "quiet s r \<Longrightarrow> ensures (quiet s) (handle_heartbeat m r)"
  by (auto simp: handle_heartbeat_def message_kinds Let_def intro!: send_ensures send_request_snapshot_ensures)

lemma post_conf_change_ensures: "quiet s r \<Longrightarrow> ensures (\<lambda>(cs, r'). quiet s r') (post_conf_change r)"
  by (auto simp: post_conf_change_def abort_leader_transfer_def Let_def quiet_state split: option.split prod.split
      intro!: quiet_ops [of s] leader_ops [of s] release_reads_ensures [THEN ensures_mono, of s]
        for_each_peer_ensures [THEN ensures_mono, of s] maybe_send_append_ensures [THEN ensures_mono, of s])

section \<open>Stepping down\<close>

text \<open>Quiet, or a step down to follower: in the same term the vote stays.\<close>

definition calm :: "raft \<Rightarrow> raft \<Rightarrow> bool" where
  "calm r r' \<longleftrightarrow> quiet r r' \<or>
     r_id r' = r_id r \<and> r_state r' = Follower \<and> (r_term r < r_term r' \<or> r_term r' = r_term r \<and> r_vote r' = r_vote r) \<and>
     (\<forall>m' \<in> set (r_msgs r'). msg_key m' \<in> msg_key ` set (r_msgs r) \<or> harmless r m')"

lemma quiet_calm: "quiet r r' \<Longrightarrow> calm r r'"
  by (simp add: calm_def)

lemma calm_refl [simp]: "calm r r"
  by (simp add: quiet_calm)

lemma harmless_follower: "\<lbrakk>harmless r' m; r_state r' = Follower\<rbrakk> \<Longrightarrow> harmless r m"
  by (simp add: harmless_def)

lemma calm_msgs:
  "calm r r' \<Longrightarrow> m' \<in> set (r_msgs r') \<Longrightarrow> msg_key m' \<in> msg_key ` set (r_msgs r) \<or> harmless r m'"
  by (auto simp: calm_def quiet_def)

lemma calm_trans:
  assumes "calm r r1" and "calm r1 r2"
  shows "calm r r2"
proof (cases "quiet r r1 \<and> quiet r1 r2")
  case True
  then show ?thesis by (blast intro: quiet_calm quiet_trans)
next
  case False
  have H: "harmless r m" if "harmless r1 m" for m
    using assms(1) that by (auto simp: calm_def harmless_def quiet_def)
  have "msg_key m \<in> msg_key ` set (r_msgs r) \<or> harmless r m" if "m \<in> set (r_msgs r2)" for m
    using calm_msgs [OF assms(2) that]
  proof
    assume "msg_key m \<in> msg_key ` set (r_msgs r1)"
    then obtain m1 where "m1 \<in> set (r_msgs r1)" "msg_key m = msg_key m1" by auto
    then show ?thesis using calm_msgs [OF assms(1), of m1] harmless_key [of m m1 r] by auto
  qed (simp add: H)
  moreover have "r_id r2 = r_id r" "r_state r2 = Follower"
    "r_term r < r_term r2 \<or> r_term r2 = r_term r \<and> r_vote r2 = r_vote r"
    using assms False by (auto simp: calm_def quiet_def)
  ultimately show ?thesis by (simp add: calm_def)
qed

lemma reset_fields:
  "r_id (reset t r) = r_id r" "r_term (reset t r) = t" "r_vote (reset t r) = (if r_term r = t then r_vote r else 0)"
  "r_msgs (reset t r) = r_msgs r" "pt_votes (r_prs (reset t r)) = []" "pt_conf (r_prs (reset t r)) = pt_conf (r_prs r)"
  by (simp_all add: reset_def reset_peers_def reset_votes_def abort_leader_transfer_def reset_randomized_election_timeout_def
      INVALID_ID_def Let_def)

lemma become_follower_fields:
  "r_id (become_follower t l r) = r_id r" "r_term (become_follower t l r) = t" "r_state (become_follower t l r) = Follower"
  "r_vote (become_follower t l r) = (if r_term r = t then r_vote r else 0)" "r_msgs (become_follower t l r) = r_msgs r"
  "pt_conf (r_prs (become_follower t l r)) = pt_conf (r_prs r)"
  by (simp_all add: become_follower_def Let_def reset_fields)

lemma become_follower_calm: "r_term r \<le> t \<Longrightarrow> calm r (become_follower t l r)"
  by (auto simp: calm_def become_follower_fields)

lemma calm_stepped_down: "\<lbrakk>calm s r; r_term r \<le> t\<rbrakk> \<Longrightarrow> calm s (become_follower t l r)"
  by (blast intro: calm_trans become_follower_calm)

lemma ensures_calm: "\<lbrakk>calm s r; ensures (quiet r) x\<rbrakk> \<Longrightarrow> ensures (calm s) x"
  by (auto elim!: ensures_mono intro: calm_trans quiet_calm)

lemma restored_votes:
  "r_state r = Follower \<Longrightarrow> calm r (r\<lparr>r_prs := t\<rparr>)"
  by (auto simp: calm_def)

lemma install_snapshot_calm: "r_state r = Follower \<Longrightarrow> ensures (calm r) (install_snapshot sn r)"
proof -
  assume F: "r_state r = Follower"
  have "ensures (\<lambda>(cs, r'). calm r r') (post_conf_change (r\<lparr>r_log := lg, r_prs := t\<rparr>))" for lg t
  proof (rule ensures_mono [OF post_conf_change_ensures [OF quiet_refl]])
    fix y :: "conf_state \<times> raft"
    assume "case y of (cs, r') \<Rightarrow> quiet (r\<lparr>r_log := lg, r_prs := t\<rparr>) r'"
    moreover have "calm r (r\<lparr>r_log := lg, r_prs := t\<rparr>)" using F by (auto simp: calm_def)
    ultimately show "case y of (cs, r') \<Rightarrow> calm r r'" by (auto intro: calm_trans quiet_calm)
  qed
  note post = this [THEN ensures_mono]
  have up: "calm r r' \<Longrightarrow> calm r ((put_progress v pr r')\<lparr>r_pending_request_snapshot := n\<rparr>)" for r' v pr n
    by (rule calm_trans, assumption) (simp add: quiet_calm)
  show ?thesis
    by (auto simp: install_snapshot_def Let_def split: sum.split intro!: pure_ops post up)
qed

lemma raft_restore_calm: "ensures (\<lambda>(b, r'). calm r r') (raft_restore sn r)"
  by (auto simp: raft_restore_def intro!: become_follower_calm install_snapshot_calm intro: quiet_calm)

lemma handle_snapshot_calm: "ensures (calm r) (handle_snapshot m r)"
  by (auto simp: handle_snapshot_def append_response_def message_kinds
      intro!: raft_restore_calm [THEN ensures_mono] ensures_calm send_ensures)

lemma maybe_commit_by_vote_calm: "calm s r \<Longrightarrow> ensures (calm s) (maybe_commit_by_vote m r)"
  by (auto simp: maybe_commit_by_vote_def Let_def split: prod.split intro!: pure_ops calm_stepped_down
      elim!: calm_trans intro: quiet_calm)

lemma refuse_vote_calm: "is_vote_response resp \<Longrightarrow> ensures (calm r) (refuse_vote m resp r)"
  by (auto simp: refuse_vote_def message_kinds is_vote_response_def
      intro!: pure_ops quiet_ops [of r] maybe_commit_by_vote_calm quiet_calm)

lemma step_leader_calm: "r_state r = Leader \<Longrightarrow> ensures (\<lambda>(e, r'). calm r r') (step_leader m r)"
  using check_quorum_quiet [of r r] quiet_state [OF check_quorum_quiet [of r r]]
  by (auto simp: step_leader_def okay_def Let_def split: message_type.split prod.split
      intro: quiet_calm intro!: bcast_heartbeat_ensures [THEN ensures_mono] handle_propose_ensures [THEN ensures_mono]
        handle_read_index_ensures [THEN ensures_mono] handle_append_response_ensures [THEN ensures_mono]
        handle_heartbeat_response_ensures [THEN ensures_mono] handle_transfer_leader_ensures [THEN ensures_mono]
        handle_snapshot_status_quiet handle_unreachable_quiet calm_stepped_down)

section \<open>Votes\<close>

definition vote_step :: "raft \<Rightarrow> raft \<Rightarrow> bool" where
  "vote_step r r' \<longleftrightarrow> r_id r' = r_id r \<and>
     (r_term r < r_term r' \<or> r_term r' = r_term r \<and> (r_vote r = 0 \<or> r_vote r' = r_vote r))"

definition cast :: "raft \<Rightarrow> (nat \<times> nat \<times> nat) set" where
  "cast r = (if r_vote r = 0 then {} else {(r_id r, r_term r, r_vote r)})"

definition msg_inv :: "(nat \<times> nat \<times> nat) set \<Rightarrow> raft_message \<Rightarrow> bool" where
  "msg_inv G m \<longleftrightarrow> (granted m \<longrightarrow> ms_term m \<noteq> 0 \<and> (ms_to m \<noteq> 0 \<longrightarrow> (ms_from m, ms_term m, ms_to m) \<in> G)) \<and>
     (from_leader m \<longrightarrow> ms_term m \<noteq> 0)"

text \<open>\<open>G\<close> holds the votes cast so far: voter, term, candidate.\<close>

definition node_inv :: "joint_config \<Rightarrow> (nat \<times> nat \<times> nat) set \<Rightarrow> raft \<Rightarrow> bool" where
  "node_inv C G r \<longleftrightarrow>
     (r_state r = Candidate \<longrightarrow> r_vote r = r_id r \<and> r_term r \<noteq> 0 \<and>
        (\<forall>v. map_of (pt_votes (r_prs r)) v = Some True \<longrightarrow> (v, r_term r, r_id r) \<in> G)) \<and>
     (r_state r = Leader \<longrightarrow> r_vote r = r_id r \<and> r_term r \<noteq> 0 \<and> joint_most C (\<lambda>v. (v, r_term r, r_id r) \<in> G)) \<and>
     (\<forall>m \<in> set (r_msgs r). msg_inv G m)"

definition fair :: "joint_config \<Rightarrow> (nat \<times> nat \<times> nat) set \<Rightarrow> raft \<Rightarrow> raft \<Rightarrow> bool" where
  "fair C G r r' \<longleftrightarrow> vote_step r r' \<and> node_inv C (G \<union> cast r') r'"

lemma vote_step_refl [simp]: "vote_step r r"
  by (simp add: vote_step_def)

lemma vote_step_trans: "\<lbrakk>vote_step r r1; vote_step r1 r2\<rbrakk> \<Longrightarrow> vote_step r r2"
  by (auto simp: vote_step_def)

lemma calm_vote_step: "calm r r' \<Longrightarrow> vote_step r r'"
  by (auto simp: calm_def quiet_def vote_step_def)

lemma msg_inv_key: "msg_key m = msg_key m' \<Longrightarrow> msg_inv G m = msg_inv G m'"
  by (simp add: msg_key_def msg_inv_def granted_def from_leader_def)

lemma msg_inv_mono: "\<lbrakk>msg_inv G m; G \<subseteq> H\<rbrakk> \<Longrightarrow> msg_inv H m"
  by (auto simp: msg_inv_def)

lemma joint_most_mono: "\<lbrakk>joint_most C P; \<And>v. P v \<Longrightarrow> Q v\<rbrakk> \<Longrightarrow> joint_most C Q"
  by (auto simp: joint_most_def intro: most_mono)

lemma node_inv_mono: "\<lbrakk>node_inv C G r; G \<subseteq> H\<rbrakk> \<Longrightarrow> node_inv C H r"
  by (auto simp: node_inv_def intro: msg_inv_mono joint_most_mono)

lemma node_inv_calm:
  assumes "node_inv C G r" and "calm r r'"
  shows "node_inv C G r'"
proof -
  have "msg_inv G m" if "m \<in> set (r_msgs r')" for m
    using calm_msgs [OF assms(2) that]
  proof
    assume "msg_key m \<in> msg_key ` set (r_msgs r)"
    then obtain m1 where "m1 \<in> set (r_msgs r)" "msg_key m = msg_key m1" by auto
    then show ?thesis using assms(1) msg_inv_key [of m m1 G] by (simp add: node_inv_def)
  next
    assume "harmless r m"
    then show ?thesis using assms(1) by (auto simp: harmless_def msg_inv_def node_inv_def)
  qed
  then show ?thesis using assms by (auto simp: calm_def quiet_def node_inv_def)
qed

lemma calm_fair: "\<lbrakk>node_inv C G r; calm r r'\<rbrakk> \<Longrightarrow> fair C G r r'"
  by (auto simp: fair_def calm_vote_step intro: node_inv_mono node_inv_calm)

lemma fair_after_calm: "\<lbrakk>calm r r1; fair C G r1 r2\<rbrakk> \<Longrightarrow> fair C G r r2"
  by (auto simp: fair_def intro: vote_step_trans calm_vote_step)

lemma cast_calm: "\<lbrakk>vote_step r r'; r_term r' = r_term r; r_vote r \<noteq> 0\<rbrakk> \<Longrightarrow> cast r' = cast r"
  by (auto simp: cast_def vote_step_def)


section \<open>Elections\<close>

definition steady :: "raft \<Rightarrow> raft \<Rightarrow> bool" where
  "steady r r' \<longleftrightarrow> r_id r' = r_id r \<and> r_term r' = r_term r \<and> r_vote r' = r_vote r"

lemma steady_refl [simp]: "steady r r"
  by (simp add: steady_def)

lemma steady_trans: "\<lbrakk>steady r r1; steady r1 r2\<rbrakk> \<Longrightarrow> steady r r2"
  by (simp add: steady_def)

lemma quiet_steady: "quiet r r' \<Longrightarrow> steady r r'"
  by (simp add: quiet_def steady_def)

lemma cast_steady: "steady r r' \<Longrightarrow> cast r' = cast r"
  by (simp add: steady_def cast_def)

lemma fair_then_steady: "\<lbrakk>fair C G r r1; calm r1 r2; steady r1 r2\<rbrakk> \<Longrightarrow> fair C G r r2"
  using cast_steady [of r1 r2] by (auto simp: fair_def intro: vote_step_trans calm_vote_step node_inv_calm)

lemma ensures_fair_quiet: "\<lbrakk>fair C G r r1; ensures (quiet r1) x\<rbrakk> \<Longrightarrow> ensures (fair C G r) x"
  by (auto elim!: ensures_mono intro: fair_then_steady quiet_calm quiet_steady)

definition newly_leader :: "raft \<Rightarrow> raft" where
  "newly_leader r = (reset (r_term r) r)\<lparr>r_leader_id := r_id r, r_state := Leader\<rparr>"

lemma newly_leader_fields:
  "r_id (newly_leader r) = r_id r" "r_term (newly_leader r) = r_term r" "r_vote (newly_leader r) = r_vote r"
  "r_state (newly_leader r) = Leader" "r_msgs (newly_leader r) = r_msgs r"
  by (simp_all add: newly_leader_def reset_fields)

lemma become_leader_ensures: "ensures (quiet (newly_leader r)) (become_leader r)"
  using newly_leader_fields(4) [of r]
  by (auto simp: become_leader_def newly_leader_def [symmetric] Let_def
      intro!: pure_ops append_entry_ensures [of "newly_leader r", THEN ensures_mono])

lemma elected_inv:
  assumes "node_inv C G r" and "r_state r = Candidate" and "joint_most C (\<lambda>v. map_of (pt_votes (r_prs r)) v = Some True)"
  shows "node_inv C G (newly_leader r)"
proof -
  have "joint_most C (\<lambda>v. (v, r_term r, r_id r) \<in> G)"
    by (rule joint_most_mono [OF assms(3)]) (use assms(1,2) in \<open>auto simp: node_inv_def\<close>)
  then show ?thesis using assms(1,2) by (auto simp: node_inv_def newly_leader_fields)
qed

lemma record_vote_inv:
  assumes "node_inv C G r" and "r_state r = Candidate \<Longrightarrow> b \<Longrightarrow> (v, r_term r, r_id r) \<in> G"
  shows "node_inv C G (r\<lparr>r_prs := record_vote v b (r_prs r)\<rparr>)"
  using assms by (auto simp: node_inv_def record_vote_def hash_simps split: option.splits if_splits)

lemma tally_votes_result:
  "snd (snd (tally_votes t)) = joint_vote_result (tc_voters (pt_conf t)) (map_of (pt_votes t))"
  by (simp add: tally_votes_def tracker_vote_result_def Let_def)

definition voting :: "joint_config \<Rightarrow> (nat \<times> nat \<times> nat) set \<Rightarrow> raft \<Rightarrow> bool" where
  "voting C G r \<longleftrightarrow> node_inv C G r \<and> tc_voters (pt_conf (r_prs r)) = C \<and> r_id r \<noteq> 0"

lemma leader_elected:
  assumes "node_inv C G r" and "r_state r = Candidate" and "tracker_vote_result (r_prs r) = Vote_Won" and "tc_voters (pt_conf (r_prs r)) = C"
  shows "ensures (\<lambda>r'. node_inv C G r' \<and> steady r r') (do { r2 \<leftarrow> become_leader r; bcast_append r2 })"
proof -
  have "joint_most C (\<lambda>v. map_of (pt_votes (r_prs r)) v = Some True)"
    using assms(3,4) by (simp add: tracker_vote_result_def joint_vote_won)
  then have inv: "node_inv C G (newly_leader r)" by (rule elected_inv [OF assms(1,2)])
  have "node_inv C G r' \<and> steady r r'" if "quiet (newly_leader r) r'" for r'
    using node_inv_calm [OF inv quiet_calm [OF that]] quiet_steady [OF that] by (simp add: steady_def newly_leader_fields)
  then show ?thesis
    using newly_leader_fields(4) [of r]
    by (auto intro!: become_leader_ensures [THEN ensures_mono] bcast_append_ensures [of "newly_leader r", THEN ensures_mono])
qed

lemma poll_candidate_inv:
  assumes "voting C G r" and "r_state r = Candidate" and "b \<Longrightarrow> (v, r_term r, r_id r) \<in> G"
  shows "ensures (\<lambda>(res, r'). node_inv C G r' \<and> steady r r') (poll_step f v b r)"
proof -
  define r1 where "r1 = r\<lparr>r_prs := record_vote v b (r_prs r)\<rparr>"
  have inv: "node_inv C G r1" unfolding r1_def by (rule record_vote_inv) (use assms in \<open>auto simp: voting_def\<close>)
  have F: "r_state r1 = Candidate" "tc_voters (pt_conf (r_prs r1)) = C" "steady r r1"
    using assms by (auto simp: r1_def record_vote_def voting_def steady_def)
  have "node_inv C G (become_follower (r_term r1) INVALID_ID r1)" by (rule node_inv_calm [OF inv]) (simp add: become_follower_calm)
  moreover have "steady r (become_follower (r_term r1) INVALID_ID r1)" using F(3) by (simp add: steady_def become_follower_fields)
  moreover have "ensures (\<lambda>r'. node_inv C G r' \<and> steady r r') (do { r2 \<leftarrow> become_leader r1; bcast_append r2 })"
    if "tracker_vote_result (r_prs r1) = Vote_Won"
    by (rule ensures_mono [OF leader_elected [OF inv F(1) that F(2)]]) (use F(3) steady_trans in blast)
  ultimately show ?thesis
    using inv F by (auto simp: poll_step_def r1_def [symmetric] tally_votes_def Let_def split: vote_result.split)
qed

lemma request_votes_ensures:
  "\<lbrakk>quiet s r; t = MsgRequestVote \<or> t = MsgRequestPreVote\<rbrakk> \<Longrightarrow> ensures (quiet s) (request_votes ct t trm ci vs r)"
  by (induction vs arbitrary: r)
     (auto simp: vote_request_def message_kinds intro!: pure_ops quiet_ops [of s])

lemma become_candidate_inv:
  assumes "node_inv C G r" and "become_candidate r = Some r1" and "r_id r \<noteq> 0"
  shows "node_inv C (G \<union> cast r1) r1" and "vote_step r r1" and "r_term r1 = r_term r + 1"
    and "r_state r1 = Candidate" and "tc_voters (pt_conf (r_prs r1)) = tc_voters (pt_conf (r_prs r))" and "cast r1 = {(r_id r1, r_term r1, r_id r1)}"
  using assms by (auto simp: become_candidate_def node_inv_def cast_def vote_step_def reset_fields split: if_splits intro: msg_inv_mono)

lemma election_fair:
  assumes "voting C G r" and "ct \<noteq> CampaignPreElection"
  shows "ensures (fair C G r) (campaign_step (poll_step f) ct r)"
proof (cases "become_candidate r")
  case (Some r1)
  note c = become_candidate_inv [OF _ Some, of C G]
  have "ensures (\<lambda>(res, r2). node_inv C (G \<union> cast r1) r2 \<and> steady r1 r2) (poll_step f (r_id r1) True r1)"
    by (rule poll_candidate_inv) (use c assms(1) in \<open>auto simp: voting_def vote_step_def\<close>)
  moreover have "fair C G r r2" if "node_inv C (G \<union> cast r1) r2" "steady r1 r2" for r2
    using that c assms(1) cast_steady [OF that(2)] by (simp add: fair_def voting_def vote_step_def steady_def)
  ultimately have "ensures (\<lambda>(res, r2). fair C G r r2) (poll_step f (r_id r1) True r1)" by (auto elim!: ensures_mono)
  then show ?thesis
    using Some assms(2) by (auto simp: campaign_step_def elim!: ensures_mono intro!: pure_ops ensures_fair_quiet request_votes_ensures)
qed (use assms(2) in \<open>simp add: campaign_step_def\<close>)

lemma poll_fair:
  assumes "voting C G r" and "r_state r = Candidate \<Longrightarrow> b \<Longrightarrow> (v, r_term r, r_id r) \<in> G"
    and "r_state r = Candidate \<or> r_state r = PreCandidate" and f: "\<And>r. voting C G r \<Longrightarrow> ensures (fair C G r) (f r)"
  shows "ensures (\<lambda>(res, r'). fair C G r r') (poll_step f v b r)"
proof (cases "r_state r = Candidate")
  case True
  have "fair C G r r'" if "node_inv C G r'" "steady r r'" for r'
    using that by (auto simp: fair_def vote_step_def steady_def intro: node_inv_mono)
  then show ?thesis using poll_candidate_inv [OF assms(1) True, of b v f] assms(2) True by (auto elim!: ensures_mono)
next
  case False
  define r1 where "r1 = r\<lparr>r_prs := record_vote v b (r_prs r)\<rparr>"
  have pre: "r_state r1 = PreCandidate" using False assms(3) by (simp add: r1_def)
  have inv: "node_inv C G r1" unfolding r1_def by (rule record_vote_inv) (use assms False in \<open>auto simp: voting_def\<close>)
  have V: "voting C G r1" using inv assms(1) by (simp add: voting_def r1_def record_vote_def)
  have up: "fair C G r r'" if "fair C G r1 r'" for r' using that by (simp add: fair_def vote_step_def r1_def)
  have "fair C G r1 (become_follower (r_term r1) INVALID_ID r1)" by (rule calm_fair [OF inv]) (simp add: become_follower_calm)
  moreover have "fair C G r1 r1" by (rule calm_fair [OF inv]) simp
  moreover have "ensures (fair C G r) (f r1)" by (rule ensures_mono [OF f [OF V] up])
  ultimately show ?thesis
    using pre up by (auto simp: poll_step_def r1_def [symmetric] Let_def split: vote_result.split prod.split)
qed

lemma pre_campaign_fair:
  assumes "voting C G r" and f: "\<And>r. voting C G r \<Longrightarrow> ensures (fair C G r) (f r)"
  shows "ensures (fair C G r) (campaign_step (poll_step f) CampaignPreElection r)"
proof (cases "become_pre_candidate r")
  case (Some r1)
  then have F: "voting C G r1" "r_state r1 = PreCandidate" "steady r r1"
    using assms(1) by (auto simp: become_pre_candidate_def voting_def node_inv_def steady_def reset_votes_def split: if_splits)
  have "ensures (\<lambda>(res, r2). fair C G r1 r2) (poll_step f (r_id r1) True r1)" by (rule poll_fair) (use F f in auto)
  moreover have "fair C G r r2" if "fair C G r1 r2" for r2 using that F(3) by (simp add: fair_def vote_step_def steady_def)
  ultimately have "ensures (\<lambda>(res, r2). fair C G r r2) (poll_step f (r_id r1) True r1)" by (auto elim!: ensures_mono)
  then show ?thesis
    using Some by (auto simp: campaign_step_def elim!: ensures_mono intro!: pure_ops ensures_fair_quiet request_votes_ensures)
qed (simp add: campaign_step_def)

lemma election_campaign_fair: "voting C G r \<Longrightarrow> ensures (fair C G r) (campaign_step poll_candidate CampaignElection r)"
  unfolding poll_candidate_def by (rule election_fair) simp_all

lemma campaign_fair: "voting C G r \<Longrightarrow> ensures (fair C G r) (campaign ct r)"
  unfolding campaign_def poll_def
  by (cases "ct = CampaignPreElection") (auto intro: pre_campaign_fair election_campaign_fair election_fair)

lemma voting_refl: "voting C G r \<Longrightarrow> fair C G r r"
  by (auto simp: voting_def intro: calm_fair)

lemma voting_calm: "\<lbrakk>voting C G r; calm r r'\<rbrakk> \<Longrightarrow> fair C G r r'"
  by (auto simp: voting_def intro: calm_fair)

lemma hup_fair: "voting C G r \<Longrightarrow> ensures (fair C G r) (hup b r)"
  by (auto simp: hup_def Let_def intro!: pure_ops campaign_fair voting_refl)

section \<open>Votes given\<close>

lemma grant_vote_fair:
  assumes "voting C G r" and "can_vote m r" and "vote_resp_msg_type (ms_type m) = Some resp"
    and "ms_type m = MsgRequestVote \<Longrightarrow> ms_term m \<noteq> 0 \<Longrightarrow> ms_term m = r_term r"
  shows "ensures (fair C G r) (grant_vote m resp r)"
proof (cases "ms_type m = MsgRequestVote")
  case True
  then have resp: "resp = MsgRequestVoteResponse" using assms(3) by (simp add: vote_resp_msg_type_def)
  have vote: "r_vote r = ms_from m \<or> r_vote r = 0" using assms(2) True by (auto simp: can_vote_def INVALID_ID_def)
  show ?thesis
  proof (rule ensuresI)
    fix r'
    assume g: "grant_vote m resp r = Some r'"
    define a where "a = stamp_message ((new_message (ms_from m) resp None)\<lparr>ms_reject := False, ms_term := ms_term m\<rparr>) r"
    have r': "r' = r\<lparr>r_msgs := r_msgs r @ [a], r_election_elapsed := 0, r_vote := ms_from m\<rparr>" "ms_term m \<noteq> 0"
      using g True by (auto simp: grant_vote_def send_def resp a_def new_message_def is_vote_response_def split: if_splits)
    then have t: "ms_term m = r_term r" using assms(4) True by simp
    have a: "ms_type a = MsgRequestVoteResponse" "ms_from a = r_id r" "ms_to a = ms_from m" "ms_term a = r_term r"
      by (simp_all add: a_def stamp_message_key resp is_vote_response_def t new_message_def default_message_def)
    have "msg_inv (cast r') a" using a r' t by (simp add: msg_inv_def cast_def from_leader_def)
    then have "msg_inv (G \<union> cast r') a" by (rule msg_inv_mono) simp
    moreover have "node_inv C (G \<union> cast r') r" using assms(1) by (auto simp: voting_def intro: node_inv_mono)
    ultimately have "node_inv C (G \<union> cast r') r'" using r'(1) vote assms(1) by (auto simp: node_inv_def voting_def)
    moreover have "vote_step r r'" using r'(1) vote by (auto simp: vote_step_def)
    ultimately show "fair C G r r'" by (simp add: fair_def)
  qed
next
  case False
  then have "ensures (quiet r) (grant_vote m resp r)"
    using assms(3) by (auto simp: grant_vote_def vote_resp_msg_type_def message_kinds split: message_type.splits intro!: quiet_ops [of r])
  then show ?thesis using assms(1) by (auto elim!: ensures_mono intro: voting_calm quiet_calm)
qed

lemma handle_vote_request_fair:
  assumes "voting C G r" and "ms_type m = MsgRequestVote \<Longrightarrow> ms_term m \<noteq> 0 \<Longrightarrow> ms_term m = r_term r"
  shows "ensures (fair C G r) (handle_vote_request m r)"
proof -
  have R: "is_vote_response resp" if "vote_resp_msg_type (ms_type m) = Some resp" for resp
    using that by (auto simp: vote_resp_msg_type_def is_vote_response_def split: message_type.splits)
  have ref: "ensures (fair C G r) (refuse_vote m resp r)" if "vote_resp_msg_type (ms_type m) = Some resp" for resp
    by (rule ensures_mono [OF refuse_vote_calm [OF R [OF that]]]) (rule voting_calm [OF assms(1)])
  show ?thesis
    by (auto simp: handle_vote_request_def intro!: pure_ops ref grant_vote_fair assms)
qed

section \<open>A step of a node\<close>

definition expected :: "(nat \<times> nat \<times> nat) set \<Rightarrow> raft_message \<Rightarrow> raft \<Rightarrow> bool" where
  "expected G m r \<longleftrightarrow> msg_inv G m \<and> (granted m \<longrightarrow> ms_to m = r_id r) \<and>
     (ms_type m = MsgRequestVote \<or> granted m \<or> from_leader m \<longrightarrow> ms_term m = 0 \<or> ms_term m = r_term r)"

lemma okay_ensures: "ensures P (okay x) = ensures (\<lambda>r. P (None, r)) x"
  by (simp add: okay_def)

lemma calm_from:
  assumes "calm r r1" and "ensures (calm r1) x"
  shows "ensures (calm r) x"
  using assms by (auto elim!: ensures_mono intro: calm_trans)

lemma follow_leader_calm:
  assumes "r_term r \<le> t"
  shows "ensures (calm r) (handle_append_entries m (become_follower t l r))"
    and "ensures (calm r) (handle_heartbeat m (become_follower t l r))" and "ensures (calm r) (handle_snapshot m (become_follower t l r))"
proof -
  note down = calm_from [OF become_follower_calm [OF assms, of l]]
  show "ensures (calm r) (handle_append_entries m (become_follower t l r))"
    by (rule down, rule ensures_calm [OF calm_refl], rule handle_append_entries_ensures [OF quiet_refl])
  show "ensures (calm r) (handle_heartbeat m (become_follower t l r))"
    by (rule down, rule ensures_calm [OF calm_refl], rule handle_heartbeat_ensures [OF quiet_refl])
  show "ensures (calm r) (handle_snapshot m (become_follower t l r))" by (rule down, rule handle_snapshot_calm)
qed

lemma maybe_commit_by_vote_steady: "ensures (\<lambda>r'. steady r r') (maybe_commit_by_vote m r)"
  by (auto simp: maybe_commit_by_vote_def Let_def steady_def become_follower_fields split: prod.split intro!: pure_ops)

lemma fair_maybe_commit:
  assumes "fair C G r r1"
  shows "ensures (fair C G r) (maybe_commit_by_vote m r1)"
proof (rule ensuresI)
  fix r2
  assume r2: "maybe_commit_by_vote m r1 = Some r2"
  show "fair C G r r2"
    by (rule fair_then_steady [OF assms])
       (use ensuresD [OF maybe_commit_by_vote_calm [OF calm_refl] r2] ensuresD [OF maybe_commit_by_vote_steady r2] in simp_all)
qed

lemma vote_response_fair:
  assumes "voting C G r" and "expected G m r" and "r_state r = Candidate \<and> ms_type m = MsgRequestVoteResponse \<or> r_state r = PreCandidate"
  shows "ensures (fair C G r) (do { (res, r1) \<leftarrow> poll (ms_from m) (\<not> ms_reject m) r; maybe_commit_by_vote m r1 })"
proof -
  have V: "r_state r = Candidate \<Longrightarrow> \<not> ms_reject m \<Longrightarrow> (ms_from m, r_term r, r_id r) \<in> G"
    using assms by (auto simp: expected_def msg_inv_def granted_def voting_def)
  have S: "r_state r = Candidate \<or> r_state r = PreCandidate" using assms(3) by auto
  have "ensures (\<lambda>(res, r'). fair C G r r') (poll (ms_from m) (\<not> ms_reject m) r)"
    unfolding poll_def by (rule poll_fair [OF assms(1) V S election_campaign_fair])
  then show ?thesis by (auto elim!: ensures_mono intro: fair_maybe_commit)
qed

lemma step_candidate_fair:
  assumes "voting C G r" and "expected G m r" and "r_state r = Candidate \<or> r_state r = PreCandidate"
  shows "ensures (\<lambda>(e, r'). fair C G r r') (step_candidate m r)"
proof -
  have t: "from_leader m \<Longrightarrow> ms_term m = r_term r" using assms(2,3) by (auto simp: expected_def msg_inv_def)
  have calm: "ensures (fair C G r) x" if "ensures (calm r) x" for x
    using that assms(1) by (auto elim!: ensures_mono intro: voting_calm)
  have same: "fair C G r r" by (rule voting_refl [OF assms(1)])
  show ?thesis
    using t vote_response_fair [OF assms(1,2)] assms(3) same
    by (auto simp: step_candidate_def okay_ensures from_leader_def is_vote_response_def split: message_type.split
        intro!: calm follow_leader_calm)
qed

lemma step_follower_fair:
  assumes "voting C G r"
  shows "ensures (\<lambda>(e, r'). fair C G r r') (step_follower m r)"
proof -
  have same: "fair C G r r" by (rule voting_refl [OF assms])
  have quiet: "ensures (fair C G r) x" if "ensures (quiet r) x" for x
    using that assms by (auto elim!: ensures_mono intro: voting_calm quiet_calm)
  have h: "quiet r (hear_leader v r)" for v by (simp add: hear_leader_def)
  have snap: "ensures (fair C G r) (handle_snapshot m (hear_leader v r))" for v
    by (rule ensures_mono [OF calm_from [OF quiet_calm [OF h] handle_snapshot_calm]]) (rule voting_calm [OF assms])
  have read: "fair C G r (r\<lparr>r_read_states := rs, r_log := lg\<rparr>)" for rs lg
    by (rule voting_calm [OF assms]) (simp add: quiet_calm)
  show ?thesis
    using same
    by (auto simp: step_follower_def okay_ensures from_leader_def split: message_type.split list.split
        intro!: quiet send_ensures handle_append_entries_ensures handle_heartbeat_ensures h snap read hup_fair [OF assms])
qed

lemma step_leader_fair:
  assumes "voting C G r" and "r_state r = Leader"
  shows "ensures (\<lambda>(e, r'). fair C G r r') (step_leader m r)"
  using step_leader_calm [OF assms(2), of m] voting_calm [OF assms(1)] by (auto elim!: ensures_mono)

lemma handle_message_fair:
  assumes "voting C G r" and "expected G m r"
  shows "ensures (\<lambda>(e, r'). fair C G r r') (handle_message m r)"
  using assms step_candidate_fair [OF assms(1,2)] step_follower_fair [OF assms(1), of m] step_leader_fair [OF assms(1), of m]
    hup_fair [OF assms(1)] handle_vote_request_fair [OF assms(1), of m]
  by (auto simp: handle_message_def okay_ensures expected_def split: state_role.split)

lemma check_term_fair:
  assumes "voting C G r" and "msg_inv G m" and "granted m \<Longrightarrow> ms_to m = r_id r"
  shows "ensures (\<lambda>c. case c of Done r1 \<Rightarrow> calm r r1 | Go_on r1 \<Rightarrow> calm r r1 \<and> voting C G r1 \<and> expected G m r1) (check_term m r)"
proof -
  have down: "calm r (become_follower (ms_term m) l r) \<and> voting C G (become_follower (ms_term m) l r)" if "r_term r < ms_term m" for l
  proof -
    have c: "calm r (become_follower (ms_term m) l r)" using that by (simp add: become_follower_calm)
    then show ?thesis using assms(1) node_inv_calm [OF _ c] by (simp add: voting_def become_follower_fields)
  qed
  have quiet: "ensures (calm r) x" if "ensures (quiet r) x" for x using that by (rule ensures_mono) (rule quiet_calm)
  show ?thesis
    using assms down
    by (auto simp: check_term_def Let_def expected_def granted_def from_leader_def become_follower_fields message_kinds is_vote_request_def
        intro!: quiet send_ensures)
qed

lemma step_fair:
  assumes "voting C G r" and "msg_inv G m" and "granted m \<Longrightarrow> ms_to m = r_id r"
  shows "ensures (\<lambda>(e, r'). fair C G r r') (step m r)"
proof (cases "check_term m r")
  case (Some c)
  note c = ensuresD [OF check_term_fair [OF assms] Some]
  show ?thesis
  proof (cases c)
    case (Done r1)
    then show ?thesis using c Some voting_calm [OF assms(1)] by (simp add: step_def okay_def)
  next
    case (Go_on r1)
    then have "ensures (\<lambda>(e, r'). fair C G r1 r') (handle_message m r1)" using c by (auto intro: handle_message_fair)
    then show ?thesis using Some Go_on c by (auto simp: step_def elim!: ensures_mono intro: fair_after_calm)
  qed
qed (simp add: step_def)

section \<open>Time, restarts and the application's calls\<close>

lemma leader_local_calm:
  "\<lbrakk>r_state r = Leader; ms_term m = 0; ms_type m = MsgCheckQuorum \<or> ms_type m = MsgBeat\<rbrakk> \<Longrightarrow> ensures (\<lambda>(e, r'). calm r r') (step m r)"
  using step_leader_calm [of r m] by (auto simp: step_def check_term_def handle_message_def is_vote_request_def)

lemma new_message_fields:
  "ms_type (new_message to t v) = t" "ms_term (new_message to t v) = 0" "ms_to (new_message to t v) = to" "ms_reject (new_message to t v) = False"
  by (simp_all add: new_message_def default_message_def)

lemma quiet_then_calm: "\<lbrakk>quiet s r; calm r r'\<rbrakk> \<Longrightarrow> calm s r'"
  by (blast intro: calm_trans quiet_calm)

lemma calm_update [simp]:
  "calm s (r\<lparr>r_heartbeat_elapsed := n\<rparr>) = calm s r" "calm s (r\<lparr>r_election_elapsed := n\<rparr>) = calm s r"
  "calm s (r\<lparr>r_lead_transferee := lt\<rparr>) = calm s r"
  by (simp_all add: calm_def)

lemma tick_quorum_calm: "\<lbrakk>calm s r; r_state r = Leader\<rbrakk> \<Longrightarrow> ensures (\<lambda>(b, r'). calm s r') (tick_quorum r)"
  using leader_local_calm [of r "new_message INVALID_ID MsgCheckQuorum (Some (r_id r))"]
  by (auto simp: tick_quorum_def new_message_fields abort_leader_transfer_def elim!: ensures_mono intro: calm_trans)

lemma tick_heartbeat_calm:
  assumes "r_state r = Leader"
  shows "ensures (\<lambda>(b, r'). calm r r') (tick_heartbeat r)"
proof -
  have beat: "ensures (\<lambda>(e, r'). calm r r') (step (new_message INVALID_ID MsgBeat (Some v)) (r2\<lparr>r_heartbeat_elapsed := 0\<rparr>))"
    if "calm r r2" "r_state r2 = Leader" for r2 v
    using leader_local_calm [of "r2\<lparr>r_heartbeat_elapsed := 0\<rparr>" "new_message INVALID_ID MsgBeat (Some v)"]
      that calm_trans [of r "r2\<lparr>r_heartbeat_elapsed := 0\<rparr>"]
    by (auto simp: new_message_fields elim!: ensures_mono intro: calm_trans)
  then show ?thesis
    using assms by (auto simp: tick_heartbeat_def Let_def case_prod_beta
        intro!: tick_quorum_calm [THEN ensures_mono] beat [THEN ensures_mono])
qed

lemma tick_fair:
  assumes "voting C G r"
  shows "ensures (\<lambda>(b, r'). fair C G r r') (tick r)"
proof (cases "r_state r = Leader")
  case True
  then show ?thesis
    using tick_heartbeat_calm [OF True] voting_calm [OF assms] by (auto simp: tick_def elim!: ensures_mono)
next
  case False
  have V: "voting C G (r\<lparr>r_election_elapsed := n\<rparr>)" for n using assms by (simp add: voting_def node_inv_def)
  have "ensures (\<lambda>(e, r'). fair C G (r\<lparr>r_election_elapsed := 0\<rparr>) r') (step (new_message INVALID_ID MsgHup v) (r\<lparr>r_election_elapsed := 0\<rparr>))" for v
    by (rule step_fair [OF V]) (simp_all add: msg_inv_def granted_def from_leader_def new_message_fields)
  then have "ensures (\<lambda>y. fair C G r (snd y)) (step (new_message INVALID_ID MsgHup v) (r\<lparr>r_election_elapsed := 0\<rparr>))" for v
    by (rule ensures_mono) (auto intro: fair_after_calm [rotated] quiet_calm)
  moreover have "fair C G r (r\<lparr>r_election_elapsed := n\<rparr>)" for n by (rule voting_calm [OF assms]) (simp add: quiet_calm)
  ultimately show ?thesis
    using False by (auto simp: tick_def tick_election_def Let_def case_prod_beta elim!: ensures_mono)
qed

definition started :: "raft_config \<Rightarrow> raft_storage \<Rightarrow> raft \<Rightarrow> bool" where
  "started c st r \<longleftrightarrow> r_id r = cf_id c \<and> r_state r = Follower \<and> r_msgs r = [] \<and>
     r_term r = hs_term (rs_hard st) \<and> r_vote r = hs_vote (rs_hard st)"

lemma blank_raft_fields:
  "r_id (blank_raft c rand st) = cf_id c" "r_state (blank_raft c rand st) = Follower" "r_msgs (blank_raft c rand st) = []"
  "r_term (blank_raft c rand st) = 0" "r_vote (blank_raft c rand st) = 0"
  by (simp_all add: blank_raft_def)

lemma new_raft_started: "new_raft c rand st = Some (Inr r) \<Longrightarrow> started c st r"
proof -
  have post: "post_conf_change r = Some (to_conf_state (pt_conf (r_prs r)), r\<lparr>r_promotable := joint_contains (tc_voters (pt_conf (r_prs r))) (r_id r)\<rparr>)"
    if "r_state r = Follower" for r
    using that by (simp add: post_conf_change_def Let_def)
  have up: "ensures (started c st) (commit_apply_internal n True r)" if "started c st r" for n r
    using that by (auto simp: commit_apply_internal_def started_def Let_def)
  have load: "ensures (started c st) (load_state (rs_hard st) (r\<lparr>r_prs := t, r_promotable := b\<rparr>))"
    if "r_id r = cf_id c" "r_state r = Follower" "r_msgs r = []" for r t b
    using that by (auto simp: load_state_def started_def)
  have "ensures (\<lambda>x. case x of Inl _ \<Rightarrow> True | Inr r \<Rightarrow> started c st r) (new_raft c rand st)"
    by (auto simp: new_raft_def Let_def post blank_raft_fields become_follower_fields split: sum.split
        intro!: load [THEN ensures_mono] up [THEN ensures_mono]) (auto simp: started_def become_follower_fields default_hard_state_def blank_raft_fields)
  then show "new_raft c rand st = Some (Inr r) \<Longrightarrow> started c st r" by (auto simp: ensures_def)
qed

section \<open>A cluster\<close>

text \<open>
  Nodes, the messages sent so far (which may be delivered in any order, any number of times or never), and two histories: the votes
  cast and the leaders that have been.
\<close>

record raft_cluster =
  nodes :: "nat \<Rightarrow> raft"
  net :: "raft_message set"
  votes_cast :: "(nat \<times> nat \<times> nat) set"
  leaders :: "(nat \<times> nat) set"

definition local_types :: "message_type set" where
  "local_types = {MsgHup, MsgBeat, MsgPropose, MsgUnreachable, MsgSnapStatus, MsgCheckQuorum, MsgTransferLeader, MsgReadIndex}"

text \<open>
  What a node may do: take a message of the network or a local one, let time pass, be told that entries are durable or applied,
  change its log (the storage behind it), change its configuration, ask for a snapshot, or start again from a storage that has kept
  its term and vote.
\<close>

inductive node_action :: "raft_message set \<Rightarrow> raft \<Rightarrow> raft \<Rightarrow> bool" for msgs :: "raft_message set" where
  deliver: "\<lbrakk>m \<in> msgs; ms_to m = r_id r; step m r = Some (e, r')\<rbrakk> \<Longrightarrow> node_action msgs r r'"
| local_message: "\<lbrakk>ms_type m \<in> local_types; step m r = Some (e, r')\<rbrakk> \<Longrightarrow> node_action msgs r r'"
| timer: "tick r = Some (b, r') \<Longrightarrow> node_action msgs r r'"
| persisted: "on_persist_entries i t r = Some r' \<Longrightarrow> node_action msgs r r'"
| applied: "commit_apply n r = Some r' \<Longrightarrow> node_action msgs r r'"
| stored: "node_action msgs r (r\<lparr>r_log := lg\<rparr>)"
| reconfigured: "apply_conf_change cc r = Some (cs, r') \<Longrightarrow> node_action msgs r r'"
| snapshot_asked: "request_snapshot r = Some (e, r') \<Longrightarrow> node_action msgs r r'"
| pinged: "ping r = Some r' \<Longrightarrow> node_action msgs r r'"
| restarted: "\<lbrakk>new_raft c rand st = Some (Inr r'); cf_id c = r_id r; hs_term (rs_hard st) = r_term r; hs_vote (rs_hard st) = r_vote r\<rbrakk>
    \<Longrightarrow> node_action msgs r r'"

definition settle :: "nat \<Rightarrow> raft \<Rightarrow> raft_cluster \<Rightarrow> raft_cluster" where
  "settle i r c =
     c\<lparr>nodes := (nodes c)(i := r), votes_cast := votes_cast c \<union> cast r,
       leaders := leaders c \<union> (if r_state r = Leader then {(r_term r, i)} else {})\<rparr>"

definition flush :: "nat \<Rightarrow> raft_cluster \<Rightarrow> raft_cluster" where
  "flush i c = c\<lparr>net := net c \<union> set (r_msgs (nodes c i)), nodes := (nodes c)(i := (nodes c i)\<lparr>r_msgs := []\<rparr>)\<rparr>"

inductive cluster_step :: "joint_config \<Rightarrow> nat set \<Rightarrow> raft_cluster \<Rightarrow> raft_cluster \<Rightarrow> bool" for C :: joint_config and members :: "nat set" where
  act: "\<lbrakk>i \<in> members; tc_voters (pt_conf (r_prs (nodes c i))) = C; node_action (net c) (nodes c i) r'\<rbrakk>
    \<Longrightarrow> cluster_step C members c (settle i r' c)"
| flushed: "i \<in> members \<Longrightarrow> cluster_step C members c (flush i c)"

definition cluster_start :: "nat set \<Rightarrow> raft_cluster \<Rightarrow> bool" where
  "cluster_start members c \<longleftrightarrow> 0 \<notin> members \<and>
     (\<forall>i \<in> members. \<exists>cfg rand st. cf_id cfg = i \<and> new_raft cfg rand st = Some (Inr (nodes c i))) \<and>
     net c = {} \<and> votes_cast c = (\<Union>i \<in> members. cast (nodes c i)) \<and> leaders c = {}"

definition votes_inv :: "nat set \<Rightarrow> raft_cluster \<Rightarrow> bool" where
  "votes_inv members c \<longleftrightarrow>
     (\<forall>v t x. (v, t, x) \<in> votes_cast c \<longrightarrow> v \<in> members \<and> x \<noteq> 0 \<and> t \<le> r_term (nodes c v) \<and> (t = r_term (nodes c v) \<longrightarrow> x = r_vote (nodes c v))) \<and>
     (\<forall>v t x y. (v, t, x) \<in> votes_cast c \<longrightarrow> (v, t, y) \<in> votes_cast c \<longrightarrow> x = y)"

definition cluster_inv :: "joint_config \<Rightarrow> nat set \<Rightarrow> raft_cluster \<Rightarrow> bool" where
  "cluster_inv C members c \<longleftrightarrow> 0 \<notin> members \<and> votes_inv members c \<and>
     (\<forall>i \<in> members. r_id (nodes c i) = i \<and> node_inv C (votes_cast c) (nodes c i)) \<and>
     (\<forall>m \<in> net c. msg_inv (votes_cast c) m) \<and>
     (\<forall>t i. (t, i) \<in> leaders c \<longrightarrow> joint_most C (\<lambda>v. (v, t, i) \<in> votes_cast c))"

lemma fairI: "\<lbrakk>ensures (\<lambda>(e, r'). fair C G r r') x; x = Some (e, r')\<rbrakk> \<Longrightarrow> fair C G r r'"
  by (auto simp: ensures_def)

lemma ensures_quiet_fair: "\<lbrakk>voting C G r; ensures (quiet r) x; x = Some r'\<rbrakk> \<Longrightarrow> fair C G r r'"
  by (auto simp: ensures_def intro: voting_calm quiet_calm)

lemma apply_conf_change_ensures: "ensures (\<lambda>(cs, r'). quiet r r') (apply_conf_change cc r)"
proof -
  have "pt_votes (fold (apply_map_change n) changes t) = pt_votes t" for n changes t
    by (induction changes arbitrary: t) (auto simp: apply_map_change_def set_progress_def split: prod.split map_change_type.split)
  then have "quiet r (r\<lparr>r_prs := apply_conf cfg changes n (r_prs r)\<rparr>)" for cfg changes n
    by (simp add: quiet_def apply_conf_def)
  then show ?thesis
    by (auto simp: apply_conf_change_def case_prod_beta split: sum.split intro!: post_conf_change_ensures [THEN ensures_mono])
qed

lemma node_action_fair:
  assumes "node_action msgs r r'" and "voting C G r" and "\<forall>m \<in> msgs. msg_inv G m"
  shows "fair C G r r'"
  using assms(1)
proof cases
  case (deliver m e)
  then show ?thesis using assms(2,3) by (auto intro: fairI [OF step_fair])
next
  case (local_message m e)
  then show ?thesis
    using assms(2) by (auto intro!: fairI [OF step_fair] simp: local_types_def msg_inv_def granted_def from_leader_def)
next
  case (timer b)
  then show ?thesis using assms(2) by (auto intro: fairI [OF tick_fair])
next
  case (persisted i t)
  show ?thesis by (rule ensures_quiet_fair [OF assms(2) on_persist_entries_ensures [OF quiet_refl] persisted])
next
  case (applied n)
  show ?thesis
    by (rule ensures_quiet_fair [OF assms(2) commit_apply_ensures [OF quiet_refl] applied [unfolded commit_apply_def]])
next
  case (stored lg)
  then show ?thesis using voting_calm [OF assms(2), of r'] by (simp add: quiet_calm)
next
  case (reconfigured cc cs)
  then show ?thesis using assms(2) apply_conf_change_ensures [of r cc] by (auto simp: ensures_def intro: voting_calm quiet_calm)
next
  case (snapshot_asked e)
  have "ensures (\<lambda>(e, r'). quiet r r') (request_snapshot r)"
    by (auto simp: request_snapshot_def okay_ensures split: sum.split intro!: send_request_snapshot_ensures)
  then show ?thesis using assms(2) snapshot_asked by (auto simp: ensures_def intro: voting_calm quiet_calm)
next
  case pinged
  then show ?thesis
    using assms(2) bcast_heartbeat_ensures [of r r] by (auto simp: ping_def ensures_def intro: voting_calm quiet_calm voting_refl split: if_splits)
next
  case (restarted c rand st)
  then have "calm r r'" using new_raft_started [of c rand st r'] by (auto simp: started_def calm_def)
  then show ?thesis using assms(2) by (auto intro: voting_calm)
qed

lemma settle_votes:
  assumes "votes_inv members c" and "i \<in> members" and "r_id (nodes c i) = i" and "vote_step (nodes c i) r'"
  shows "votes_inv members (settle i r' c)"
proof -
  have id: "r_id r' = i" using assms(3,4) by (simp add: vote_step_def)
  have old: "x \<noteq> 0 \<and> t \<le> r_term (nodes c i) \<and> (t = r_term (nodes c i) \<longrightarrow> x = r_vote (nodes c i))" if "(i, t, x) \<in> votes_cast c" for t x
    using assms(1) that by (auto simp: votes_inv_def)
  have new: "t \<le> r_term r' \<and> (t = r_term r' \<longrightarrow> x = r_vote r')" if "(i, t, x) \<in> votes_cast c" for t x
    using old [OF that] assms(4) by (auto simp: vote_step_def)
  show ?thesis
    unfolding votes_inv_def
  proof (intro conjI allI impI)
    fix v t x y
    assume "(v, t, x) \<in> votes_cast (settle i r' c)" "(v, t, y) \<in> votes_cast (settle i r' c)"
    then show "x = y" using assms(1) new id by (auto simp: settle_def cast_def votes_inv_def split: if_splits)
  qed (use assms(1,2) new id in \<open>auto simp: settle_def cast_def votes_inv_def split: if_splits\<close>)
qed

lemma settle_inv:
  assumes "cluster_inv C members c" and "i \<in> members" and "fair C (votes_cast c) (nodes c i) r'"
  shows "cluster_inv C members (settle i r' c)"
proof -
  have G: "votes_cast (settle i r' c) = votes_cast c \<union> cast r'" by (simp add: settle_def)
  have id: "r_id r' = i" using assms by (simp add: cluster_inv_def fair_def vote_step_def)
  have r': "node_inv C (votes_cast c \<union> cast r') r'" using assms(3) by (simp add: fair_def)
  have "votes_inv members (settle i r' c)" using assms by (intro settle_votes) (auto simp: cluster_inv_def fair_def)
  moreover have "r_id (nodes (settle i r' c) j) = j \<and> node_inv C (votes_cast c \<union> cast r') (nodes (settle i r' c) j)" if "j \<in> members" for j
    using assms(1) that r' id by (auto simp: settle_def cluster_inv_def intro: node_inv_mono)
  moreover have "\<forall>m \<in> net (settle i r' c). msg_inv (votes_cast c \<union> cast r') m"
    using assms(1) by (auto simp: settle_def cluster_inv_def intro: msg_inv_mono)
  moreover have "joint_most C (\<lambda>v. (v, t, j) \<in> votes_cast c \<union> cast r')" if "(t, j) \<in> leaders (settle i r' c)" for t j
  proof (cases "(t, j) \<in> leaders c")
    case True
    then have "joint_most C (\<lambda>v. (v, t, j) \<in> votes_cast c)" using assms(1) by (simp add: cluster_inv_def)
    then show ?thesis by (rule joint_most_mono) simp
  next
    case False
    then have "r_state r' = Leader" "t = r_term r'" "j = i" using that by (auto simp: settle_def split: if_splits)
    then show ?thesis using r' id by (simp add: node_inv_def)
  qed
  ultimately show ?thesis using assms(1) by (simp add: cluster_inv_def G)
qed

lemma flush_inv: "\<lbrakk>cluster_inv C members c; i \<in> members\<rbrakk> \<Longrightarrow> cluster_inv C members (flush i c)"
  by (auto simp: cluster_inv_def flush_def node_inv_def votes_inv_def)

lemma started_inv: "started cfg st r \<Longrightarrow> node_inv C G r"
  by (simp add: started_def node_inv_def)

lemma start_inv:
  assumes "cluster_start members c"
  shows "cluster_inv C members c"
proof -
  have n: "r_id (nodes c i) = i \<and> node_inv C G (nodes c i)" if i: "i \<in> members" for i G
  proof -
    obtain cfg rand st where "cf_id cfg = i" and "new_raft cfg rand st = Some (Inr (nodes c i))"
      using assms i by (auto simp: cluster_start_def)
    then have "started cfg st (nodes c i)" "cf_id cfg = i" by (simp_all add: new_raft_started)
    then show ?thesis using started_inv [of cfg st "nodes c i"] by (simp add: started_def)
  qed
  have V: "v \<in> members \<and> x \<noteq> 0 \<and> t = r_term (nodes c v) \<and> x = r_vote (nodes c v)" if "(v, t, x) \<in> votes_cast c" for v t x
    using that assms n by (auto simp: cluster_start_def cast_def split: if_splits)
  have "votes_inv members c" unfolding votes_inv_def using V by blast
  then show ?thesis using n assms by (simp add: cluster_inv_def cluster_start_def)
qed

interpretation election: invariant_system "cluster_start members" "cluster_step C members" "cluster_inv C members" for C members
proof
  fix c
  assume "cluster_start members c"
  then show "cluster_inv C members c" by (rule start_inv)
next
  fix c c'
  assume inv: "cluster_inv C members c" and "cluster_step C members c c'"
  from this(2) show "cluster_inv C members c'"
  proof cases
    case (act i r')
    have "voting C (votes_cast c) (nodes c i)"
      using inv act by (cases "i = 0") (auto simp: cluster_inv_def voting_def)
    then have "fair C (votes_cast c) (nodes c i) r'"
      using act inv by (intro node_action_fair) (auto simp: cluster_inv_def)
    then show ?thesis using act inv by (simp add: settle_inv)
  qed (use inv flush_inv in auto)
qed

text \<open>C4: election safety. In a cluster whose nodes run this code and keep their term and vote over restarts, a term has at most one
  leader, as long as the nodes that act have the same voters: whatever the order in which messages are delivered, repeated or
  lost, timers fire, proposals arrive and logs are written.
\<close>

theorem election_safety:
  assumes "reachable (cluster_start members) (cluster_step C members) c" and "incoming C \<noteq> []"
    and "(t, i) \<in> leaders c" and "(t, j) \<in> leaders c"
  shows "i = j"
proof -
  have inv: "cluster_inv C members c" by (rule election.reachable_inv [OF assms(1)])
  then have "joint_most C (\<lambda>v. (v, t, i) \<in> votes_cast c)" "joint_most C (\<lambda>v. (v, t, j) \<in> votes_cast c)"
    using assms(3,4) by (simp_all add: cluster_inv_def)
  then obtain v where "(v, t, i) \<in> votes_cast c" "(v, t, j) \<in> votes_cast c"
    using joint_most_intersect [OF _ _ assms(2)] by blast
  then show ?thesis using inv unfolding cluster_inv_def votes_inv_def by blast
qed

end
