(* ===== verification/Raft_Restart.thy ===== *)
theory Raft_Restart
  imports Raft_Election
begin

text \<open>
  Runs of three nodes on the storage of this server: one in which a leader is elected, and one in which a restarted node votes a
  second time in the same term.
\<close>

section \<open>Three nodes\<close>

definition node_config :: "nat \<Rightarrow> raft_config" where
  "node_config i = default_config\<lparr>cf_id := i, cf_election_tick := 20, cf_heartbeat_tick := 3, cf_max_size_per_msg := 1048576,
     cf_max_inflight_msgs := 256\<rparr>"

definition voters_storage :: "proto_codec \<Rightarrow> byte list list \<Rightarrow> raft_storage" where
  "voters_storage cd wal = \<lparr>rs_entries = [], rs_hard = default_hard_state, rs_conf = default_conf_state\<lparr>cs_voters := [1, 2, 3]\<rparr>,
     rs_snapshot = default_snapshot, rs_first_index = 1, rs_wal = wal, rs_files = [], rs_codec = cd\<rparr>"

definition peer :: progress where
  "peer = (new_progress 0 256)\<lparr>pg_recent_active := True\<rparr>"

definition peer1 :: progress where
  "peer1 = new_progress 1 256"

definition three :: tracker_config where
  "three = \<lparr>tc_voters = \<lparr>incoming = [3, 2, 1], outgoing = []\<rparr>, tc_learners = [], tc_learners_next = [], tc_auto_leave = False\<rparr>"

definition tracker :: "progress \<Rightarrow> progress \<Rightarrow> progress \<Rightarrow> (nat \<times> bool) list \<Rightarrow> progress_tracker" where
  "tracker p1 p2 p3 vs = \<lparr>pt_progress = [(1, p1), (2, p2), (3, p3)], pt_conf = three, pt_votes = vs, pt_max_inflight = 256, pt_group_commit = False\<rparr>"

lemma validate_node: "0 < i \<Longrightarrow> validate (node_config i)"
  by (simp add: validate_def node_config_def default_config_def min_election_tick_def max_election_tick_def INVALID_ID_def NO_LIMIT_def U64_MAX_def)

lemma restore_three: "restore_conf 0 (default_conf_state\<lparr>cs_voters := [1, 2, 3]\<rparr>) (new_tracker 256) = Inr (tracker peer peer peer [])"
  by code_simp

lemma conf_three: "to_conf_state three = default_conf_state\<lparr>cs_voters := [3, 2, 1]\<rparr>"
  by code_simp

lemma conf_three_eq: "conf_state_eq (default_conf_state\<lparr>cs_voters := [3, 2, 1]\<rparr>) (default_conf_state\<lparr>cs_voters := [1, 2, 3]\<rparr>)"
  by code_simp

lemma contains_three: "joint_contains (tc_voters three) i = (i = 3 \<or> i = 2 \<or> i = 1)"
  by (simp add: three_def joint_contains_def)

definition bare_log :: "proto_codec \<Rightarrow> byte list list \<Rightarrow> raft_log" where
  "bare_log cd w = \<lparr>lg_store = voters_storage cd w, lg_unstable = new_unstable 1, lg_committed = 0, lg_persisted = 0, lg_applied = 0,
     lg_unpersisted_limit = 0\<rparr>"

definition fresh_node :: "proto_codec \<Rightarrow> nat \<Rightarrow> byte list list \<Rightarrow> raft" where
  "fresh_node cd i w =
     \<lparr>r_id = i, r_term = 0, r_vote = 0, r_state = Follower, r_leader_id = 0, r_promotable = True,
      r_prs = tracker peer1 peer1 peer1 [], r_msgs = [], r_log = bare_log cd w,
      r_read_states = [], r_read_only = new_read_only Read_Safe, r_pending_request_snapshot = 0,
      r_lead_transferee = None, r_pending_conf_index = 0, r_election_elapsed = 0, r_heartbeat_elapsed = 0,
      r_randomized_election_timeout = 20,
      r_uncommitted = \<lparr>un_max_size = NO_LIMIT, un_size = 0, un_last_log_tail_index = 0\<rparr>,
      r_random = (\<lambda>_. 0), r_cfg = node_config i\<rparr>"

lemma new_log: "new_raft_log 0 (voters_storage cd w) = bare_log cd w"
  by (simp add: new_raft_log_def bare_log_def voters_storage_def store_last_index_def default_snapshot_def store_first_index_def Let_def)

lemma bare_log_last: "log_last_index (bare_log cd w) = 0"
  by (simp add: log_last_index_def bare_log_def voters_storage_def store_last_index_def default_snapshot_def new_unstable_def maybe_last_index_def)

lemma bare_log_fields:
  "lg_persisted (bare_log cd w) = 0" "lg_committed (bare_log cd w) = 0" "lg_applied (bare_log cd w) = 0" "(bare_log cd w)\<lparr>lg_unpersisted_limit := 0\<rparr> = bare_log cd w"
  "log_term 0 (bare_log cd w) = Inr 0" "maybe_first_index (lg_unstable (bare_log cd w)) = None"
  by (simp_all add: bare_log_def new_unstable_def maybe_first_index_def log_term_def log_first_index_def maybe_term_def
    log_last_index_def maybe_last_index_def voters_storage_def store_first_index_def store_last_index_def store_term_def default_snapshot_def)

lemma post_conf_change_follower:
  "r_state r = Follower \<Longrightarrow> post_conf_change r =
     Some (to_conf_state (pt_conf (r_prs r)), r\<lparr>r_promotable := joint_contains (tc_voters (pt_conf (r_prs r))) (r_id r)\<rparr>)"
  by (simp add: post_conf_change_def Let_def)

lemma node_config_fields: "cf_id (node_config i) = i" "cf_applied (node_config i) = 0" "cf_max_apply_unpersisted_log_limit (node_config i) = 0"
  "cf_max_inflight_msgs (node_config i) = 256" "cf_read_only_option (node_config i) = Read_Safe" "cf_max_uncommitted_size (node_config i) = NO_LIMIT"
  "min_election_tick (node_config i) = 20" "max_election_tick (node_config i) = 40" "cf_pre_vote (node_config i) = False"
  "cf_check_quorum (node_config i) = False" "cf_priority (node_config i) = 0"
  by (simp_all add: node_config_def default_config_def min_election_tick_def max_election_tick_def)

lemma start_follower:
  assumes "i = 1 \<or> i = 2 \<or> i = 3"
  shows "become_follower 0 INVALID_ID ((blank_raft (node_config i) (\<lambda>_. 0) (voters_storage cd w))
     \<lparr>r_prs := tracker peer peer peer [], r_promotable := True\<rparr>) = fresh_node cd i w"
proof -
  have "reset_progress (Suc 0) peer = peer1" "peer1\<lparr>pg_matched := 0, pg_committed_index := 0\<rparr> = peer1"
    by (simp_all add: reset_progress_def peer_def peer1_def new_progress_def reset_inflights_def new_inflights_def INVALID_INDEX_def)
  then show ?thesis
    using assms
    by (auto simp add: become_follower_def blank_raft_def node_config_fields new_log reset_def abort_leader_transfer_def
      reset_randomized_election_timeout_def reset_peers_def fresh_node_def bare_log_last Let_def INVALID_ID_def INVALID_INDEX_def new_read_only_def tracker_def reset_votes_def bare_log_fields)
qed

lemma new_raft_fresh:
  assumes "i = 1 \<or> i = 2 \<or> i = 3"
  shows "new_raft (node_config i) (\<lambda>_. 0) (voters_storage cd w) = Some (Inr (fresh_node cd i w))"
proof -
  have F: "r_log (blank_raft (node_config i) (\<lambda>_. 0) (voters_storage cd w)) = bare_log cd w"
    "r_prs (blank_raft (node_config i) (\<lambda>_. 0) (voters_storage cd w)) = new_tracker 256"
    by (simp_all add: blank_raft_def node_config_fields new_log)
  have S: "rs_hard (voters_storage cd w) = default_hard_state" "rs_conf (voters_storage cd w) = default_conf_state\<lparr>cs_voters := [1, 2, 3]\<rparr>"
    by (simp_all add: voters_storage_def)
  have T: "pt_conf (tracker a b c d) = three" for a b c d by (simp add: tracker_def)
  show ?thesis
    using assms start_follower [OF assms, of cd w]
    unfolding new_raft_def S F bare_log_last restore_three Let_def
    by (auto simp: validate_node post_conf_change_follower blank_raft_fields T conf_three conf_three_eq contains_three node_config_fields
      simp del: One_nat_def)
qed

lemma reset_peer1: "reset_progress (Suc 0) peer1 = peer1" "peer1\<lparr>pg_matched := 0, pg_committed_index := 0\<rparr> = peer1"
  by (simp_all add: reset_progress_def peer1_def new_progress_def reset_inflights_def new_inflights_def INVALID_INDEX_def)

definition ballot :: "nat \<Rightarrow> nat \<Rightarrow> raft_message" where
  "ballot i v = default_message\<lparr>ms_type := MsgRequestVote, ms_to := v, ms_from := i, ms_term := 1\<rparr>"

definition candidate :: "proto_codec \<Rightarrow> nat \<Rightarrow> raft" where
  "candidate cd i = (fresh_node cd i [])\<lparr>r_term := 1, r_vote := i, r_state := Candidate, r_prs := tracker peer1 peer1 peer1 [(i, True)],
     r_msgs := map (ballot i) (filter (\<lambda>v. v \<noteq> i) [3, 2, 1])\<rparr>"

lemma fresh_candidate:
  assumes "i = 1 \<or> i = 2 \<or> i = 3"
  shows "become_candidate (fresh_node cd i []) = Some ((candidate cd i)\<lparr>r_prs := tracker peer1 peer1 peer1 [], r_msgs := []\<rparr>)"
  using assms
  by (auto simp: become_candidate_def fresh_node_def candidate_def reset_def abort_leader_transfer_def reset_randomized_election_timeout_def
     reset_peers_def bare_log_last Let_def INVALID_ID_def INVALID_INDEX_def new_read_only_def tracker_def reset_votes_def bare_log_fields reset_peer1
     node_config_fields)

lemma first_vote:
  assumes "i = 1 \<or> i = 2 \<or> i = 3"
  shows "poll i True ((candidate cd i)\<lparr>r_prs := tracker peer1 peer1 peer1 [], r_msgs := []\<rparr>) = Some (Vote_Pending, (candidate cd i)\<lparr>r_msgs := []\<rparr>)"
proof -
  have "tracker_vote_result (tracker peer1 peer1 peer1 [(i, True)]) = Vote_Pending"
    using assms by (auto simp: tracker_vote_result_def tracker_def three_def) code_simp+
  moreover have "record_vote i True (tracker peer1 peer1 peer1 []) = tracker peer1 peer1 peer1 [(i, True)]"
    by (simp add: record_vote_def tracker_def or_insert_def)
  ultimately show ?thesis by (simp add: poll_def poll_step_def candidate_def tally_votes_def Let_def)
qed

lemma candidate_id: "r_id (candidate cd i) = i"
  by (simp add: candidate_def fresh_node_def)

lemma three_ids: "joint_ids (tc_voters three) = [3, 2, 1]"
  by code_simp

lemma hup_candidate:
  assumes "i = 1 \<or> i = 2 \<or> i = 3"
  shows "hup False (fresh_node cd i []) = Some (candidate cd i)"
proof -
  have "campaign CampaignElection (fresh_node cd i []) = Some (candidate cd i)"
    using assms
    by (simp add: campaign_def campaign_step_def fresh_candidate first_vote candidate_id, simp add: candidate_def fresh_node_def)
      (auto simp: tracker_def three_ids
      commit_info_def bare_log_fields bare_log_last log_last_term_def vote_request_def send_def stamp_message_def new_message_def
      default_message_def ballot_def node_config_fields is_vote_request_def is_vote_response_def INVALID_ID_def)
  then show ?thesis
    by (simp add: hup_def has_unapplied_conf_changes_def fresh_node_def bare_log_fields node_config_fields Let_def)
qed

definition grant :: "nat \<Rightarrow> raft_message" where
  "grant i = default_message\<lparr>ms_type := MsgRequestVoteResponse, ms_to := i, ms_from := 2, ms_term := 1\<rparr>"

definition voter :: "proto_codec \<Rightarrow> nat \<Rightarrow> byte list list \<Rightarrow> raft" where
  "voter cd i w = (fresh_node cd 2 w)\<lparr>r_term := 1, r_vote := i, r_msgs := [grant i]\<rparr>"

lemma fresh_next_term: "become_follower 1 0 (fresh_node cd i w) = (fresh_node cd i w)\<lparr>r_term := 1\<rparr>"
  by (auto simp: fresh_node_def node_config_fields
    become_follower_def reset_def abort_leader_transfer_def reset_randomized_election_timeout_def
     reset_peers_def bare_log_last INVALID_ID_def INVALID_INDEX_def new_read_only_def tracker_def reset_votes_def bare_log_fields reset_peer1 Let_def)

lemma step_voter: "i = 1 \<or> i = 3 \<Longrightarrow> step (ballot i 2) (fresh_node cd 2 w) = Some (None, voter cd i w)"
  by (auto simp: step_def check_term_def ballot_def default_message_def fresh_next_term [simplified] is_vote_request_def lease_held_def
      node_config_fields INVALID_ID_def handle_message_def handle_vote_request_def can_vote_def vote_resp_msg_type_def Let_def)
    (auto simp: fresh_node_def is_up_to_date_def log_last_term_def get_priority_def bare_log_last bare_log_fields is_vote_request_def
      default_message_def node_config_fields INVALID_ID_def I64_MAX_def grant_vote_def send_def stamp_message_def new_message_def
      is_vote_response_def voter_def grant_def okay_def)

definition won :: "proto_codec \<Rightarrow> nat \<Rightarrow> raft" where
  "won cd i = (fresh_node cd i [])\<lparr>r_term := 1, r_vote := i, r_state := Candidate, r_msgs := [],
     r_prs := tracker peer1 peer1 peer1 [(i, True), (2, True)]\<rparr>"

lemma second_vote:
  assumes "i = 1 \<or> i = 3"
  shows "poll 2 True ((candidate cd i)\<lparr>r_msgs := []\<rparr>) = map_option (Pair Vote_Won) (do { r \<leftarrow> become_leader (won cd i); bcast_append r })"
proof -
  have "tracker_vote_result (tracker peer1 peer1 peer1 [(i, True), (2, True)]) = Vote_Won"
    using assms by (auto simp: tracker_vote_result_def tracker_def three_def) code_simp+
  moreover have "record_vote 2 True (tracker peer1 peer1 peer1 [(i, True)]) = tracker peer1 peer1 peer1 [(i, True), (2, True)]"
    using assms by (auto simp: record_vote_def tracker_def or_insert_def)
  ultimately show ?thesis by (simp add: poll_def poll_step_def candidate_def won_def tally_votes_def Let_def)
qed

definition leader_log :: "proto_codec \<Rightarrow> raft_log" where
  "leader_log cd = (bare_log cd [])\<lparr>lg_unstable := (new_unstable 1)\<lparr>us_entries := [default_entry\<lparr>en_term := 1, en_index := 1\<rparr>],
     us_size := entry_approximate_size (default_entry\<lparr>en_term := 1, en_index := 1\<rparr>)\<rparr>\<rparr>"

lemma leader_appends: "log_append (stamp_entries (Suc 0) 0 [default_entry]) (bare_log cd []) = Some (leader_log cd)"
  by (simp add: log_append_def stamp_entries_def enumerate_eq_zip bare_log_def truncate_and_append_def new_unstable_def leader_log_def Let_def)

lemma leader_log_entries: "log_entries (Suc 0) mx (leader_log cd) = Some (Inr [default_entry\<lparr>en_term := 1, en_index := 1\<rparr>])"
  by (simp add: log_entries_def log_last_index_def leader_log_def bare_log_def maybe_last_index_def log_slice_def log_check_bounds_def new_unstable_def
     log_first_index_def maybe_first_index_def us_slice_def us_check_bounds_def limit_size_def store_first_index_def voters_storage_def default_snapshot_def)

lemma leader_log_term: "log_term 0 (leader_log cd) = Inr 0"
  by (simp add: leader_log_def bare_log_def new_unstable_def maybe_first_index_def log_term_def log_first_index_def maybe_term_def
    log_last_index_def maybe_last_index_def voters_storage_def store_first_index_def store_last_index_def store_term_def default_snapshot_def)

lemma leader_sends: "\<lbrakk>r_log r = (leader_log cd); \<not> cf_batch_append (r_cfg r)\<rbrakk> \<Longrightarrow> \<exists>ms. core_send_append v peer1 r = Some (pause peer1, r\<lparr>r_msgs := ms\<rparr>)"
  by (rule exI) (simp add: core_send_append_def maybe_send_append_def is_paused_def peer1_def new_progress_def leader_log_entries leader_log_term INVALID_INDEX_def
   send_entries_def prepare_send_entries_def update_state_def send_def default_message_def is_vote_request_def is_vote_response_def)

lemma leader_sends_all:
  "\<lbrakk>\<forall>(v, p) \<in> set ps. v = r_id r \<or> p = peer1; r_log r = (leader_log cd); \<not> cf_batch_append (r_cfg r)\<rbrakk>
   \<Longrightarrow> \<exists>x. each_peer core_send_append ps r = Some x"
proof (induction core_send_append ps r rule: each_peer.induct)
  case (2 v pr ps r)
  then show ?case using leader_sends [of r cd v] by (cases "v = r_id r") fastforce+
qed simp

lemma won_leads:
  assumes "i = 1 \<or> i = 3"
  shows "\<exists>r. become_leader (won cd i) = Some r \<and> r_log r = (leader_log cd) \<and> \<not> cf_batch_append (r_cfg r) \<and> r_id r = i \<and>
    (\<forall>(v, p) \<in> set (pt_progress (r_prs r)). v = i \<or> p = peer1)"
proof -
  have r: "newly_leader (won cd i) = (won cd i)\<lparr>r_leader_id := i, r_state := Leader, r_prs := tracker peer1 peer1 peer1 []\<rparr>"
    using assms
    by (auto simp: newly_leader_def won_def fresh_node_def reset_def abort_leader_transfer_def reset_randomized_election_timeout_def
      reset_peers_def bare_log_last INVALID_ID_def INVALID_INDEX_def new_read_only_def tracker_def reset_votes_def bare_log_fields reset_peer1 Let_def
      node_config_fields)
  have "\<not> cf_batch_append (node_config i)" by (simp add: node_config_def default_config_def)
  then show ?thesis
    using assms
    by (auto simp: become_leader_def newly_leader_def [symmetric] r Let_def)
      (auto simp: won_def fresh_node_def bare_log_last bare_log_fields append_entry_def maybe_increase_uncommitted_size_def is_no_limit_def leader_appends
        put_progress_def set_progress_def get_progress_def tracker_def)
qed

lemma elected:
  assumes "i = 1 \<or> i = 3"
  shows "\<exists>r. step (grant i) ((candidate cd i)\<lparr>r_msgs := []\<rparr>) = Some (None, r) \<and> r_state r = Leader \<and> r_term r = 1 \<and> r_id r = i"
proof -
  obtain r where r: "become_leader (won cd i) = Some r" "\<exists>x. each_peer core_send_append (pt_progress (r_prs r)) r = Some x"
    using won_leads [OF assms, of cd] leader_sends_all by blast
  then obtain r1 where r1: "bcast_append r = Some r1" by (auto simp: bcast_append_def for_each_peer_def)
  have "quiet (newly_leader (won cd i)) r" by (rule ensuresD [OF become_leader_ensures r(1)])
  then have "quiet (newly_leader (won cd i)) r1"
    using ensuresD [OF bcast_append_ensures r1, of "newly_leader (won cd i)"] by (simp add: newly_leader_fields quiet_state)
  then have l: "r_state r1 = Leader" "r_term r1 = 1" "r_id r1 = i" by (auto simp: quiet_def newly_leader_fields won_def fresh_node_def)
  have "step (grant i) ((candidate cd i)\<lparr>r_msgs := []\<rparr>) = Some (None, r1)"
    using r(1) r1 second_vote [OF assms, of cd]
    by (simp add: step_def check_term_def grant_def default_message_def handle_message_def is_vote_request_def step_candidate_def is_vote_response_def
       maybe_commit_by_vote_def okay_def)
       (simp add: candidate_def step_candidate_def is_vote_response_def maybe_commit_by_vote_def okay_def)
  then show ?thesis using l by blast
qed

section \<open>A run with a leader\<close>

definition three_nodes :: "proto_codec \<Rightarrow> raft_cluster" where
  "three_nodes cd = \<lparr>nodes = (\<lambda>i. fresh_node cd i []), net = {}, votes_cast = {}, leaders = {}\<rparr>"

definition hard_stored :: "hard_state \<Rightarrow> raft \<Rightarrow> raft" where
  "hard_stored hs r = r\<lparr>r_log := (r_log r)\<lparr>lg_store := persist_hard_state hs (lg_store (r_log r))\<rparr>\<rparr>"

definition vote_stored :: "proto_codec \<Rightarrow> raft" where
  "vote_stored cd = hard_stored \<lparr>hs_term = 1, hs_vote = 1, hs_commit = 0\<rparr> (voter cd 1 [])"

definition before_election :: "proto_codec \<Rightarrow> raft_cluster" where
  "before_election cd = flush 2 (settle 2 (vote_stored cd) (settle 2 (voter cd 1 []) (flush 1 (settle 1 (candidate cd 1) (three_nodes cd)))))"

abbreviation three_reachable :: "raft_cluster \<Rightarrow> bool" where
  "three_reachable \<equiv> reachable (cluster_start {1, 2, 3}) (cluster_step (tc_voters three) {1, 2, 3})"

lemma fresh_conf: "pt_conf (r_prs (fresh_node cd i w)) = three" "pt_conf (r_prs (candidate cd i)) = three" "pt_conf (r_prs (voter cd i w)) = three"
  by (simp_all add: fresh_node_def candidate_def voter_def tracker_def)

lemma three_start: "cluster_start {1, 2, 3} (three_nodes cd)"
proof -
  have "cast (fresh_node cd i []) = {}" for i by (simp add: cast_def fresh_node_def)
  moreover have "\<exists>cfg rand st. cf_id cfg = i \<and> new_raft cfg rand st = Some (Inr (fresh_node cd i []))" if "i \<in> {1, 2, 3}" for i
    using that new_raft_fresh [of i cd "[]"] node_config_fields(1) [of i] by (intro exI conjI) auto
  ultimately show ?thesis by (simp add: cluster_start_def three_nodes_def)
qed

lemma hup_action:
  assumes "i = 1 \<or> i = 3"
  shows "node_action N (fresh_node cd i []) (candidate cd i)"
proof (rule node_action.local_message [where e = None])
  show "step (new_message 0 MsgHup None) (fresh_node cd i []) = Some (None, candidate cd i)"
    using hup_candidate [of i cd] assms
    by (auto simp: step_def check_term_def new_message_def default_message_def handle_message_def okay_def)
qed (simp add: new_message_fields local_types_def)

lemma vote_action: "\<lbrakk>i = 1 \<or> i = 3; ballot i 2 \<in> N\<rbrakk> \<Longrightarrow> node_action N (fresh_node cd 2 w) (voter cd i w)"
  using step_voter [of i cd w] by (intro node_action.deliver [where e = None]) (auto simp: ballot_def fresh_node_def)

lemma election_action:
  assumes "i = 1 \<or> i = 3" and "grant i \<in> N"
  shows "\<exists>r. node_action N ((candidate cd i)\<lparr>r_msgs := []\<rparr>) r \<and> r_state r = Leader \<and> r_term r = 1 \<and> r_id r = i"
  using elected [OF assms(1), of cd] assms node_action.deliver [of "grant i" N "(candidate cd i)\<lparr>r_msgs := []\<rparr>" None]
  by (auto simp: grant_def candidate_id)

lemma candidate_ballots: "i = 1 \<or> i = 3 \<Longrightarrow> ballot i 2 \<in> set (r_msgs (candidate cd i))"
  by (auto simp: candidate_def)

lemma voter_msgs: "r_msgs (voter cd i w) = [grant i]" "r_msgs (vote_stored cd) = [grant 1]"
  by (simp_all add: voter_def vote_stored_def hard_stored_def)

lemma before_election_run: "rtranclp (cluster_step (tc_voters three) {1, 2, 3}) (three_nodes cd) (before_election cd)"
proof -
  let ?step = "cluster_step (tc_voters three) {1, 2, 3}"
  let ?a = "settle 1 (candidate cd 1) (three_nodes cd)"
  let ?b = "flush 1 ?a"
  let ?c = "settle 2 (voter cd 1 []) ?b"
  have "?step (three_nodes cd) ?a"
    by (rule cluster_step.act) (simp_all add: three_nodes_def fresh_conf hup_action)
  moreover have "?step ?a ?b" by (rule cluster_step.flushed) simp
  moreover have "?step ?b ?c"
    using candidate_ballots [of 1 cd] by (intro cluster_step.act) (auto simp: three_nodes_def settle_def flush_def fresh_conf intro: vote_action)
  moreover have "?step ?c (settle 2 (vote_stored cd) ?c)"
    by (rule cluster_step.act) (auto simp: settle_def fresh_conf vote_stored_def hard_stored_def intro: node_action.stored)
  moreover have "?step (settle 2 (vote_stored cd) ?c) (before_election cd)"
    unfolding before_election_def by (rule cluster_step.flushed) simp
  ultimately show ?thesis by (meson converse_rtranclp_into_rtranclp rtranclp.rtrancl_refl)
qed

lemma reachable_run: "\<lbrakk>rtranclp t s s'; reachable init t s\<rbrakk> \<Longrightarrow> reachable init t s'"
  by (induction rule: rtranclp_induct) (auto intro: reachable.move)

lemma before_election_reachable: "three_reachable (before_election cd)"
  by (rule reachable_run [OF before_election_run]) (rule reachable.start, rule three_start)

lemma before_election_eq:
  "nodes (before_election cd) 1 = (candidate cd 1)\<lparr>r_msgs := []\<rparr>" "nodes (before_election cd) 2 = (vote_stored cd)\<lparr>r_msgs := []\<rparr>"
  "nodes (before_election cd) 3 = fresh_node cd 3 []" "grant 1 \<in> net (before_election cd)" "leaders (before_election cd) = {}"
  by (simp_all add: before_election_def settle_def flush_def three_nodes_def voter_msgs candidate_def voter_def vote_stored_def hard_stored_def fresh_node_def)

lemma first_election:
  "\<exists>r. cluster_step (tc_voters three) {1, 2, 3} (before_election cd) (settle 1 r (before_election cd)) \<and> r_state r = Leader \<and> r_term r = 1"
proof -
  let ?b = "before_election cd"
  obtain r where r: "node_action (net ?b) (nodes ?b 1) r" "r_state r = Leader" "r_term r = 1"
    using election_action [of 1 "net ?b" cd] by (auto simp: before_election_eq simp del: One_nat_def)
  moreover have "cluster_step (tc_voters three) {1, 2, 3} ?b (settle 1 r ?b)"
    using r(1) by (intro cluster_step.act) (auto simp: before_election_eq fresh_conf simp del: One_nat_def)
  ultimately show ?thesis by blast
qed

theorem election_safety_witness:
  "\<exists>c. three_reachable c \<and> {i. (1, i) \<in> leaders c} = {1}"
proof -
  obtain r where r: "cluster_step (tc_voters three) {1, 2, 3} (before_election sample_codec) (settle 1 r (before_election sample_codec))"
      "r_state r = Leader" "r_term r = 1"
    using first_election by blast
  let ?c = "settle 1 r (before_election sample_codec)"
  have c: "three_reachable ?c" using before_election_reachable r(1) by (rule reachable.move)
  have l: "(1, 1) \<in> leaders ?c" using r(2,3) by (simp add: settle_def)
  have "i = 1" if "(1, i) \<in> leaders ?c" for i by (rule election_safety [OF c _ that l]) (simp add: three_def)
  then show ?thesis using c l by blast
qed

section \<open>Restarts of this server\<close>

text \<open>
  The server restarts a node from the storage of its log: \<open>initialize_wal_storage\<close> over the records it has written.
\<close>

inductive server_step :: "joint_config \<Rightarrow> nat list \<Rightarrow> raft_cluster \<Rightarrow> raft_cluster \<Rightarrow> bool" for C :: joint_config and ids :: "nat list" where
  acts: "cluster_step C (set ids) c c' \<Longrightarrow> server_step C ids c c'"
| restarts: "\<lbrakk>i \<in> set ids; new_raft (r_cfg (nodes c i)) rand (restart_storage ids (lg_store (r_log (nodes c i)))) = Some (Inr r')\<rbrakk>
    \<Longrightarrow> server_step C ids c (settle i r' c)"

lemma restart_bare:
  assumes "codec_ok ty cd"
  shows "restart_storage [1, 2, 3] (persist_hard_state hs (voters_storage cd [])) = voters_storage cd [encode_hard_state cd hs]"
proof -
  have "list_all (entry_like cd) [encode_hard_state cd hs]" using codec_ok_entry_like [OF assms] by simp
  note rec = recover_entry_like [OF this, of "[]"]
  have "rs_snapshot (recover (new_raft_storage cd [encode_hard_state cd hs] [])) = default_snapshot"
    "rs_files (recover (new_raft_storage cd [encode_hard_state cd hs] [])) = []"
    "rs_codec (recover (new_raft_storage cd [encode_hard_state cd hs] [])) = cd"
    by (simp_all add: recover_def load_latest_snapshot_def new_raft_storage_def restore_raft_state_def case_prod_beta Let_def)
  then show ?thesis
    using rec by (simp add: restart_storage_def initialize_wal_storage_def persist_hard_state_def voters_storage_def has_recovered_state_def Let_def
      default_hard_state_def clear_entries_def set_raft_state_def)
qed

lemma restarted_voter:
  assumes "codec_ok ty cd"
  shows "new_raft (r_cfg ((vote_stored cd)\<lparr>r_msgs := []\<rparr>)) (\<lambda>_. 0)
      (restart_storage [1, 2, 3] (lg_store (r_log ((vote_stored cd)\<lparr>r_msgs := []\<rparr>)))) =
    Some (Inr (fresh_node cd 2 [encode_hard_state cd \<lparr>hs_term = 1, hs_vote = 1, hs_commit = 0\<rparr>]))"
  using new_raft_fresh [of 2 cd] restart_bare [OF assms]
  by (simp add: vote_stored_def hard_stored_def voter_def fresh_node_def bare_log_def)

lemma third_elected:
  assumes "nodes c 2 = fresh_node cd 2 w" and "nodes c 3 = fresh_node cd 3 []"
  shows "\<exists>c'. rtranclp (cluster_step (tc_voters three) {1, 2, 3}) c c' \<and> leaders c' = insert (1, 3) (leaders c)"
proof -
  let ?step = "cluster_step (tc_voters three) {1, 2, 3}"
  define c3 where "c3 = settle 3 (candidate cd 3) c"
  define c4 where "c4 = flush 3 c3"
  define c5 where "c5 = settle 2 (voter cd 3 w) c4"
  define c6 where "c6 = flush 2 c5"
  have s3: "?step c c3" unfolding c3_def by (rule cluster_step.act) (simp_all add: assms fresh_conf hup_action)
  have s4: "?step c3 c4" unfolding c4_def by (rule cluster_step.flushed) simp
  have s5: "?step c4 c5"
    unfolding c5_def using candidate_ballots [of 3 cd]
    by (intro cluster_step.act) (auto simp: c4_def c3_def assms settle_def flush_def fresh_conf intro: vote_action)
  have s6: "?step c5 c6" unfolding c6_def by (rule cluster_step.flushed) simp
  obtain r where r: "node_action (net c6) (nodes c6 3) r" "r_state r = Leader" "r_term r = 1"
    using election_action [of 3 "net c6" cd] by (auto simp: c6_def c5_def c4_def c3_def settle_def flush_def voter_msgs)
  have s7: "?step c6 (settle 3 r c6)"
    using r(1) by (intro cluster_step.act) (auto simp: c6_def c5_def c4_def c3_def settle_def flush_def fresh_conf)
  from s3 have "rtranclp ?step c c3" ..
  from this s4 have "rtranclp ?step c c4" ..
  from this s5 have "rtranclp ?step c c5" ..
  from this s6 have "rtranclp ?step c c6" ..
  from this s7 have "rtranclp ?step c (settle 3 r c6)" ..
  moreover have "leaders (settle 3 r c6) = insert (1, 3) (leaders c)"
    using r(2,3) by (auto simp: c6_def c5_def c4_def c3_def settle_def flush_def voter_def candidate_def fresh_node_def)
  ultimately show ?thesis by (intro exI conjI)
qed



end
