(* ===== verification/Raft_RawNode.thy ===== *)
theory Raft_RawNode
  imports Raft_Election
begin

text \<open>
  The interface of a Raft node to the application: a ready is the work to do, handed out by \<open>ready\<close> and taken back by
  \<open>advance\<close>, which returns what became possible by persisting it.
\<close>

section \<open>State\<close>

record ready_record =
  rr_number :: nat
  rr_last_entry :: "(nat \<times> nat) option"
  rr_snapshot :: "(nat \<times> nat) option"

record light_ready =
  lr_commit_index :: "nat option"
  lr_committed_entries :: "raft_entry list"
  lr_messages :: "raft_message list"

record raft_ready =
  rd_number :: nat
  rd_ss :: "soft_state option"
  rd_hs :: "hard_state option"
  rd_read_states :: "read_state list"
  rd_entries :: "raft_entry list"
  rd_snapshot :: raft_snapshot
  rd_is_persisted_msg :: bool
  rd_light :: light_ready
  rd_must_sync :: bool

record raw_node =
  rn_raft :: raft
  rn_prev_ss :: soft_state
  rn_prev_hs :: hard_state
  rn_max_number :: nat
  rn_records :: "ready_record list"
  rn_commit_since_index :: nat

definition is_local_msg :: "message_type \<Rightarrow> bool" where
  "is_local_msg t \<longleftrightarrow> t \<in> {MsgHup, MsgBeat, MsgUnreachable, MsgSnapStatus, MsgCheckQuorum}"

definition is_response_msg :: "message_type \<Rightarrow> bool" where
  "is_response_msg t \<longleftrightarrow>
     t \<in> {MsgAppendResponse, MsgRequestVoteResponse, MsgHeartbeatResponse, MsgUnreachable, MsgRequestPreVoteResponse}"

text \<open>The messages of a ready that may be sent at once, and those that must wait until it is persisted.\<close>

definition ready_messages :: "raft_ready \<Rightarrow> raft_message list" where
  "ready_messages rd = (if rd_is_persisted_msg rd then [] else lr_messages (rd_light rd))"

definition ready_persisted_messages :: "raft_ready \<Rightarrow> raft_message list" where
  "ready_persisted_messages rd = (if rd_is_persisted_msg rd then lr_messages (rd_light rd) else [])"

section \<open>Operations\<close>

definition new_raw_node :: "raft_config \<Rightarrow> (nat \<Rightarrow> nat) \<Rightarrow> raft_storage \<Rightarrow> (raft_error + raw_node) option" where
  "new_raw_node c rand st =
     (if cf_id c = 0 then None
      else
        (case new_raft c rand st of
           None \<Rightarrow> None
         | Some (Inl e) \<Rightarrow> Some (Inl e)
         | Some (Inr r) \<Rightarrow>
             Some (Inr \<lparr>rn_raft = r, rn_prev_ss = get_soft_state r, rn_prev_hs = get_hard_state r, rn_max_number = 0,
                        rn_records = [], rn_commit_since_index = cf_applied c\<rparr>)))"

definition raw_tick :: "raw_node \<Rightarrow> (bool \<times> raw_node) option" where
  "raw_tick rn = map_option (\<lambda>(b, r). (b, rn\<lparr>rn_raft := r\<rparr>)) (tick (rn_raft rn))"

definition step_into :: "raft_message \<Rightarrow> raw_node \<Rightarrow> (raft_error option \<times> raw_node) option" where
  "step_into m rn = map_option (\<lambda>(e, r). (e, rn\<lparr>rn_raft := r\<rparr>)) (step m (rn_raft rn))"

definition raw_campaign :: "raw_node \<Rightarrow> (raft_error option \<times> raw_node) option" where
  "raw_campaign rn = step_into (default_message\<lparr>ms_type := MsgHup\<rparr>) rn"

definition propose :: "byte list \<Rightarrow> byte list \<Rightarrow> raw_node \<Rightarrow> (raft_error option \<times> raw_node) option" where
  "propose context data rn =
     step_into (default_message\<lparr>ms_type := MsgPropose, ms_from := r_id (rn_raft rn),
                  ms_entries := [default_entry\<lparr>en_data := data, en_context := context\<rparr>]\<rparr>) rn"

definition raw_step :: "raft_message \<Rightarrow> raw_node \<Rightarrow> (raft_error option \<times> raw_node) option" where
  "raw_step m rn =
     (if is_local_msg (ms_type m) then Some (Some StepLocalMsg, rn)
      else if get_progress (ms_from m) (r_prs (rn_raft rn)) \<noteq> None \<or> \<not> is_response_msg (ms_type m) then step_into m rn
      else Some (Some StepPeerNotFound, rn))"

definition report_unreachable :: "nat \<Rightarrow> raw_node \<Rightarrow> raw_node option" where
  "report_unreachable v rn = map_option snd (step_into (default_message\<lparr>ms_type := MsgUnreachable, ms_from := v\<rparr>) rn)"

definition report_snapshot :: "nat \<Rightarrow> bool \<Rightarrow> raw_node \<Rightarrow> raw_node option" where
  "report_snapshot v failed rn =
     map_option snd (step_into (default_message\<lparr>ms_type := MsgSnapStatus, ms_from := v, ms_reject := failed\<rparr>) rn)"

definition transfer_leader :: "nat \<Rightarrow> raw_node \<Rightarrow> raw_node option" where
  "transfer_leader v rn = map_option snd (step_into (default_message\<lparr>ms_type := MsgTransferLeader, ms_from := v\<rparr>) rn)"

definition read_index :: "byte list \<Rightarrow> raw_node \<Rightarrow> raw_node option" where
  "read_index ctx rn =
     map_option snd (step_into (default_message\<lparr>ms_type := MsgReadIndex, ms_entries := [default_entry\<lparr>en_data := ctx\<rparr>]\<rparr>) rn)"

definition propose_conf_change :: "byte list \<Rightarrow> entry_type \<Rightarrow> byte list \<Rightarrow> raw_node \<Rightarrow> (raft_error option \<times> raw_node) option" where
  "propose_conf_change context ty data rn =
     step_into (default_message\<lparr>ms_type := MsgPropose,
                  ms_entries := [default_entry\<lparr>en_type := ty, en_data := data, en_context := context\<rparr>]\<rparr>) rn"

text \<open>Only two of the contexts of a read may be answered later; the others panic.\<close>

datatype entries_context = For_send_append nat nat bool | For_empty bool | For_transfer_leader | For_commit_by_vote | For_gen_ready

definition on_entries_fetched :: "entries_context \<Rightarrow> raw_node \<Rightarrow> raw_node option" where
  "on_entries_fetched ctx rn =
     (case ctx of
        For_send_append to trm aggressively \<Rightarrow>
          if r_term (rn_raft rn) \<noteq> trm \<or> r_state (rn_raft rn) \<noteq> Leader \<or> get_progress to (r_prs (rn_raft rn)) = None then Some rn
          else
            map_option (\<lambda>r. rn\<lparr>rn_raft := r\<rparr>)
              (if aggressively then send_append_aggressively to (rn_raft rn) else send_append to (rn_raft rn))
      | For_empty can_async \<Rightarrow> if can_async then Some rn else None
      | _ \<Rightarrow> None)"

definition raw_apply_conf_change :: "conf_change_v2 \<Rightarrow> raw_node \<Rightarrow> ((conf_change_error + conf_state) \<times> raw_node) option" where
  "raw_apply_conf_change cc rn = map_option (\<lambda>(cs, r). (cs, rn\<lparr>rn_raft := r\<rparr>)) (apply_conf_change cc (rn_raft rn))"

section \<open>Handing out work\<close>

definition gen_light_ready :: "raw_node \<Rightarrow> (light_ready \<times> raw_node) option" where
  "gen_light_ready rn =
     do {
       let r = rn_raft rn;
       found \<leftarrow> next_entries_since (rn_commit_since_index rn) (Some (cf_max_committed_size_per_ready (r_cfg r))) (r_log r);
       let es = (case found of Some es \<Rightarrow> es | None \<Rightarrow> []);
       let r1 = reduce_uncommitted_size es r;
       if es \<noteq> [] \<and> en_index (last es) \<le> rn_commit_since_index rn then None
       else
         Some (\<lparr>lr_commit_index = None, lr_committed_entries = es, lr_messages = r_msgs r1\<rparr>,
               rn\<lparr>rn_raft := r1\<lparr>r_msgs := []\<rparr>,
                  rn_commit_since_index := (if es = [] then rn_commit_since_index rn else en_index (last es))\<rparr>)
     }"

definition has_ready :: "raw_node \<Rightarrow> bool" where
  "has_ready rn \<longleftrightarrow>
     (let r = rn_raft rn
      in r_msgs r \<noteq> [] \<or> get_soft_state r \<noteq> rn_prev_ss rn \<or> get_hard_state r \<noteq> rn_prev_hs rn \<or> r_read_states r \<noteq> [] \<or>
         us_entries (lg_unstable (r_log r)) \<noteq> [] \<or>
         (case us_snapshot (lg_unstable (r_log r)) of Some s \<Rightarrow> sn_index s \<noteq> 0 | None \<Rightarrow> False) \<or>
         has_next_entries_since (rn_commit_since_index rn) (r_log r))"

text \<open>A snapshot not yet stored moves the start of what is handed out behind it.\<close>

definition take_snapshot :: "raw_node \<Rightarrow> (raft_snapshot option \<times> raw_node) option" where
  "take_snapshot rn =
     (case us_snapshot (lg_unstable (r_log (rn_raft rn))) of
        None \<Rightarrow> Some (None, rn)
      | Some s \<Rightarrow>
          if rn_commit_since_index rn \<le> sn_index s \<and> \<not> has_next_entries_since (sn_index s) (r_log (rn_raft rn))
          then Some (Some s, rn\<lparr>rn_commit_since_index := sn_index s\<rparr>) else None)"

definition drain_records :: "raw_node \<Rightarrow> raw_node option" where
  "drain_records rn =
     (if ss_raft_state (rn_prev_ss rn) \<noteq> Leader \<and> r_state (rn_raft rn) = Leader then
        if list_all (\<lambda>rec. rr_last_entry rec = None \<and> rr_snapshot rec = None) (rn_records rn)
        then Some (rn\<lparr>rn_records := []\<rparr>) else None
      else Some rn)"

definition ready :: "raw_node \<Rightarrow> (raft_ready \<times> raw_node) option" where
  "ready rn =
     do {
       rn1 \<leftarrow> drain_records (rn\<lparr>rn_max_number := rn_max_number rn + 1\<rparr>);
       let r = rn_raft rn1;
       let ss = get_soft_state r;
       let hs = get_hard_state r;
       let rn2 = rn1\<lparr>rn_raft := r\<lparr>r_read_states := []\<rparr>\<rparr>;
       (snap, rn3) \<leftarrow> take_snapshot rn2;
       let es = us_entries (lg_unstable (r_log r));
       (light, rn4) \<leftarrow> gen_light_ready rn3;
       Some (\<lparr>rd_number = rn_max_number rn1, rd_ss = (if ss \<noteq> rn_prev_ss rn1 then Some ss else None),
              rd_hs = (if hs \<noteq> rn_prev_hs rn1 then Some hs else None), rd_read_states = r_read_states r, rd_entries = es,
              rd_snapshot = (case snap of Some s \<Rightarrow> s | None \<Rightarrow> default_snapshot),
              rd_is_persisted_msg = (r_state r \<noteq> Leader), rd_light = light,
              rd_must_sync = (hs_vote hs \<noteq> hs_vote (rn_prev_hs rn1) \<or> hs_term hs \<noteq> hs_term (rn_prev_hs rn1) \<or> snap \<noteq> None \<or> es \<noteq> [])\<rparr>,
             rn4\<lparr>rn_records := rn_records rn4 @
                 [\<lparr>rr_number = rn_max_number rn1,
                   rr_last_entry = (if es = [] then None else Some (en_index (last es), en_term (last es))),
                   rr_snapshot = map_option (\<lambda>s. (sn_index s, sn_term s)) snap\<rparr>]\<rparr>)
     }"

definition commit_ready :: "raft_ready \<Rightarrow> raw_node \<Rightarrow> raw_node option" where
  "commit_ready rd rn =
     (if rn_records rn = [] \<or> rr_number (last (rn_records rn)) \<noteq> rd_number rd then None
      else
        do {
          let rec = last (rn_records rn);
          lg1 \<leftarrow> (case rr_snapshot rec of Some (i, _) \<Rightarrow> stable_snap i (r_log (rn_raft rn)) | None \<Rightarrow> Some (r_log (rn_raft rn)));
          lg2 \<leftarrow> (case rr_last_entry rec of Some (i, t) \<Rightarrow> stable_entries i t lg1 | None \<Rightarrow> Some lg1);
          Some (rn\<lparr>rn_prev_ss := (case rd_ss rd of Some ss \<Rightarrow> ss | None \<Rightarrow> rn_prev_ss rn),
                   rn_prev_hs := (case rd_hs rd of Some hs \<Rightarrow> hs | None \<Rightarrow> rn_prev_hs rn),
                   rn_raft := (rn_raft rn)\<lparr>r_log := lg2\<rparr>\<rparr>)
        })"

text \<open>The last snapshot and the last entry after it among the records that are persisted.\<close>

fun persisted_upto :: "ready_record list \<Rightarrow> nat \<times> nat \<times> nat \<Rightarrow> nat \<times> nat \<times> nat" where
  "persisted_upto [] s = s"
| "persisted_upto (rec # recs) (idx, trm, snap_idx) =
     (let (idx1, trm1, snap1) = (case rr_snapshot rec of Some (i, _) \<Rightarrow> (0, 0, i) | None \<Rightarrow> (idx, trm, snap_idx));
          (idx2, trm2) = (case rr_last_entry rec of Some (i, t) \<Rightarrow> (i, t) | None \<Rightarrow> (idx1, trm1))
      in persisted_upto recs (idx2, trm2, snap1))"

definition on_persist_ready :: "nat \<Rightarrow> raw_node \<Rightarrow> raw_node option" where
  "on_persist_ready number rn =
     do {
       let done = takeWhile (\<lambda>rec. rr_number rec \<le> number) (rn_records rn);
       let (idx, trm, snap_idx) = persisted_upto done (0, 0, 0);
       let rn1 = rn\<lparr>rn_records := drop (length done) (rn_records rn)\<rparr>;
       r1 \<leftarrow> (if snap_idx \<noteq> 0 then on_persist_snap snap_idx (rn_raft rn1) else Some (rn_raft rn1));
       r2 \<leftarrow> (if idx \<noteq> 0 then on_persist_entries idx trm r1 else Some r1);
       Some (rn1\<lparr>rn_raft := r2\<rparr>)
     }"

definition advance_append :: "raft_ready \<Rightarrow> raw_node \<Rightarrow> (light_ready \<times> raw_node) option" where
  "advance_append rd rn =
     do {
       rn1 \<leftarrow> commit_ready rd rn;
       rn2 \<leftarrow> on_persist_ready (rn_max_number rn1) rn1;
       (light, rn3) \<leftarrow> gen_light_ready rn2;
       let hs = get_hard_state (rn_raft rn3);
       let prev = rn_prev_hs rn3;
       if r_state (rn_raft rn3) \<noteq> Leader \<and> lr_messages light \<noteq> [] then None
       else if hs_commit hs < hs_commit prev \<or> hs \<noteq> prev\<lparr>hs_commit := hs_commit hs\<rparr> then None
       else
         Some (light\<lparr>lr_commit_index := (if hs_commit prev < hs_commit hs then Some (hs_commit hs) else None)\<rparr>,
               rn3\<lparr>rn_prev_hs := prev\<lparr>hs_commit := hs_commit hs\<rparr>\<rparr>)
     }"

definition advance_apply_to :: "nat \<Rightarrow> raw_node \<Rightarrow> raw_node option" where
  "advance_apply_to applied rn = map_option (\<lambda>r. rn\<lparr>rn_raft := r\<rparr>) (commit_apply applied (rn_raft rn))"

definition advance :: "raft_ready \<Rightarrow> raw_node \<Rightarrow> (light_ready \<times> raw_node) option" where
  "advance rd rn =
     do {
       let applied = rn_commit_since_index rn;
       (light, rn1) \<leftarrow> advance_append rd rn;
       rn2 \<leftarrow> advance_apply_to applied rn1;
       Some (light, rn2)
     }"


section \<open>What is handed out\<close>

definition segment :: "raft_log \<Rightarrow> nat \<Rightarrow> raft_entry list \<Rightarrow> bool" where
  "segment lg low es \<longleftrightarrow> (\<forall>k < length es. log_at lg (low + k) = Some (es ! k))"

lemma segment_Nil [simp]: "segment lg low []"
  by (simp add: segment_def)

lemma segment_take: "segment lg low es \<Longrightarrow> segment lg low (take k es)"
  by (simp add: segment_def)

lemma segment_append: "segment lg low (xs @ ys) \<longleftrightarrow> segment lg low xs \<and> segment lg (low + length xs) ys"
proof
  assume s: "segment lg low (xs @ ys)"
  have "log_at lg (low + k) = Some (xs ! k)" if "k < length xs" for k
    using s that by (auto simp: segment_def nth_append dest: spec [of _ k])
  moreover have "log_at lg (low + length xs + k) = Some (ys ! k)" if "k < length ys" for k
    using s that by (auto simp: segment_def nth_append add.assoc dest: spec [of _ "length xs + k"])
  ultimately show "segment lg low xs \<and> segment lg (low + length xs) ys" by (simp add: segment_def)
next
  assume s: "segment lg low xs \<and> segment lg (low + length xs) ys"
  have "log_at lg (low + k) = Some ((xs @ ys) ! k)" if "k < length xs + length ys" for k
    using s that unfolding segment_def by (cases "k < length xs") (auto simp: nth_append dest: spec [of _ "k - length xs"])
  then show "segment lg low (xs @ ys)" by (simp add: segment_def)
qed

lemma segment_limit: "segment lg low es \<Longrightarrow> segment lg low (limit_size cd mx es)"
  by (auto simp: limit_size_def segment_take split: option.split)

lemma limit_size_length: "length (limit_size cd mx es) \<le> length es"
  by (auto simp: limit_size_def split: option.split)

lemma segment_index:
  assumes "log_wf lg" and "segment lg low es" and "es \<noteq> []"
  shows "en_index (last es) + 1 = low + length es" and "\<forall>e \<in> set es. low \<le> en_index e"
proof -
  have i: "en_index (es ! k) = low + k" if "k < length es" for k
    using assms(1,2) that log_at_bounds by (fastforce simp: segment_def)
  then show "en_index (last es) + 1 = low + length es"
    using i [of "length es - 1"] assms(3) by (cases "length es") (auto simp: last_conv_nth)
  show "\<forall>e \<in> set es. low \<le> en_index e" using i by (auto simp: in_set_conv_nth)
qed

lemma unstable_segment:
  assumes "us_slice low high (lg_unstable lg) = Some es" and "us_offset (lg_unstable lg) \<le> low"
  shows "segment lg low es" and "length es \<le> high - low"
proof -
  let ?u = "lg_unstable lg"
  have es: "es = take (high - low) (drop (low - us_offset ?u) (us_entries ?u))"
    using assms(1) by (auto simp: us_slice_def split: if_splits)
  then show "length es \<le> high - low" by simp
  show "segment lg low es"
    unfolding segment_def
  proof (intro allI impI)
    fix k
    assume k: "k < length es"
    then have "low - us_offset ?u + k < length (us_entries ?u)" using es by auto
    then show "log_at lg (low + k) = Some (es ! k)" using es k assms(2) by (auto simp: log_at_def lookup_at_def Let_def)
  qed
qed

lemma stored_segment:
  assumes "log_wf lg" and "us_snapshot (lg_unstable lg) = None" and "store_entries low high mx (lg_store lg) = Some (Inr es)"
    and "log_first_index lg \<le> low" and "low < high" and "high \<le> us_offset (lg_unstable lg)"
  shows "segment lg low es \<and> length es \<le> high - low"
proof (cases "rs_entries (lg_store lg) = []")
  case True
  then show ?thesis using assms(3,5) by (simp add: store_entries_def)
next
  case False
  let ?st = "lg_store lg"
  let ?es = "take (high - low) (drop (low - rs_first_index ?st) (rs_entries ?st))"
  have low: "rs_first_index ?st \<le> low" using assms(2,4) by (simp add: log_first_index_def maybe_first_index_def store_first_index_def)
  have "es = (case mx of None \<Rightarrow> ?es | Some m \<Rightarrow> take (size_limit m 0 ?es) ?es)"
    using assms(3,5) False low by (simp add: store_entries_def Let_def split: if_splits)
  then obtain n where es: "es = take n ?es" by (cases mx) (auto intro: that [of "high - low"])
  have "log_at lg (low + k) = Some (es ! k)" if k: "k < length es" for k
  proof -
    have "k < high - low" "low - rs_first_index ?st + k < length (rs_entries ?st)" using k es by auto
    then show ?thesis using assms(2,6) low k es by (auto simp: log_at_def lookup_at_def Let_def)
  qed
  then show ?thesis using es by (simp add: segment_def)
qed

lemma slice_segment:
  assumes wf: "log_wf lg" and none: "us_snapshot (lg_unstable lg) = None \<or> us_offset (lg_unstable lg) \<le> low"
    and s: "log_slice low high mx lg = Some (Inr es)"
  shows "segment lg low es \<and> low + length es \<le> high"
proof -
  let ?off = "us_offset (lg_unstable lg)"
  have b: "low \<le> high" "log_first_index lg \<le> low"
    using s by (auto simp: log_slice_def log_check_bounds_def Let_def split: if_splits)
  have rest: "segment lg low (xs @ us) \<and> length (xs @ us) \<le> high - low"
    if "segment lg low xs" "length xs = min high ?off - low" "low < high"
      "(if ?off < high then us_slice (max low ?off) high (lg_unstable lg) else Some []) = Some us" for xs us
    using that unstable_segment [of "max low ?off" high lg us] by (auto simp: segment_append max_def min_def split: if_splits)
  have fin: "segment lg low (limit_size cd mx xs) \<and> low + length (limit_size cd mx xs) \<le> high"
    if "segment lg low xs \<and> length xs \<le> high - low" for cd xs
    using that segment_limit [of lg low xs cd mx] limit_size_length [of cd mx xs] b by linarith
  show ?thesis
  proof (cases "low < ?off \<and> low \<noteq> high")
    case no_store: False
    show ?thesis
    proof (cases "low = high")
      case True
      then show ?thesis using s by (auto simp: log_slice_def Let_def split: option.splits)
    next
      case False
      then obtain us where "us_slice (max low ?off) high (lg_unstable lg) = Some us \<and> ?off < high \<or> us = [] \<and> high \<le> ?off"
          "es = limit_size (rs_codec (lg_store lg)) mx ([] @ us)"
        using s no_store by (auto simp: log_slice_def Let_def split: option.splits if_splits)
      then show ?thesis using fin [OF rest [of "[]" us]] no_store False b by (auto split: if_splits)
    qed
  next
    case stored: True
    then have st: "segment lg low xs \<and> length xs \<le> min high ?off - low"
      if "store_entries low (min high ?off) mx (lg_store lg) = Some (Inr xs)" for xs
      using stored_segment [OF wf _ that] none b by auto
    obtain xs where xs: "store_entries low (min high ?off) mx (lg_store lg) = Some (Inr xs)"
      using s stored by (auto simp: log_slice_def Let_def split: option.splits if_splits sum.splits storage_error.splits)
    show ?thesis
    proof (cases "length xs < min high ?off - low")
      case True
      then have "es = xs" using s stored xs by (simp add: log_slice_def Let_def split: option.splits)
      then show ?thesis using st [OF xs] b by auto
    next
      case long: False
      then obtain us where us: "(if ?off < high then us_slice (max low ?off) high (lg_unstable lg) else Some []) = Some us"
          "es = limit_size (rs_codec (lg_store lg)) mx (xs @ us)"
        using s stored xs by (auto simp: log_slice_def Let_def split: option.splits if_splits)
      then show ?thesis using fin [OF rest [OF _ _ _ us(1)]] st [OF xs] long stored b by simp
    qed
  qed
qed

lemma next_entries_segment:
  assumes "log_wf lg" and "log_first_index lg \<le> since + 1" and "next_entries_since since mx lg = Some (Some es)"
  shows "segment lg (since + 1) es" and "since + length es \<le> applied_index_upper_bound lg"
proof -
  have low: "max (since + 1) (log_first_index lg) = since + 1" using assms(2) by simp
  have sl: "log_slice (since + 1) (applied_index_upper_bound lg + 1) mx lg = Some (Inr es)"
    using assms(3) by (auto simp: next_entries_since_def low [simplified] Let_def split: if_splits option.splits sum.splits)
  have "us_snapshot (lg_unstable lg) = None \<or> us_offset (lg_unstable lg) \<le> since + 1"
    using assms(1,2) by (auto simp: log_wf_defs log_first_index_def maybe_first_index_def split: option.splits)
  note slice_segment [OF assms(1) this sl]
  then show "segment lg (since + 1) es" and "since + length es \<le> applied_index_upper_bound lg" by auto
qed



text \<open>A node with three stored entries, two of them committed.\<close>

definition sample_raw :: raw_node where
  "sample_raw =
     (let r = (blank_raft default_config (\<lambda>_. 0) (new_raft_storage sample_codec [] []))\<lparr>r_log := follower_log\<lparr>lg_committed := 2\<rparr>\<rparr>
      in \<lparr>rn_raft = r, rn_prev_ss = get_soft_state r, rn_prev_hs = get_hard_state r, rn_max_number = 0, rn_records = [],
          rn_commit_since_index = 0\<rparr>)"

lemma sample_raw_wf: "log_wf (r_log (rn_raft sample_raw))" "log_first_index (r_log (rn_raft sample_raw)) = 1"
  by (simp_all add: sample_raw_def log_wf_defs follower_log_defs Let_def)

lemma sample_raw_light:
  "\<exists>light rn. gen_light_ready sample_raw = Some (light, rn) \<and> lr_committed_entries light = [normal_entry 1 1, normal_entry 2 1]"
  by (simp add: gen_light_ready_def sample_raw_def next_entries_since_def applied_index_upper_bound_def log_slice_def log_check_bounds_def
      blank_raft_def default_config_def store_entries_def limit_size_def follower_log_defs NO_LIMIT_def U64_MAX_def reduce_uncommitted_size_def Let_def)


end
