(* ===== verification/Raft_Server.thy ===== *)
theory Raft_Server
  imports Raft_RawNode
begin

text \<open>
  The server around a Raft node: the replicated state machine of nodes and brokers, and one turn of the message loop that ticks the
  node, feeds it the messages received, persists and sends what is ready, advances the node, applies committed entries and takes
  snapshots.
\<close>

section \<open>The replicated state machine\<close>

datatype metadata_command =
    AddNode_cmd nat string
  | RemoveNode_cmd nat
  | RegisterBroker int string int "string option"
  | UpdateBrokerStatus int string
  | RemoveBroker int

record broker_info =
  bi_broker_id :: int
  bi_host :: string
  bi_port :: int
  bi_rack :: "string option"
  bi_status :: string

record metadata_machine =
  mm_nodes :: "(nat \<times> string) list"
  mm_brokers :: "(int \<times> broker_info) list"

definition new_machine :: metadata_machine where
  "new_machine = \<lparr>mm_nodes = [], mm_brokers = []\<rparr>"

fun apply_command :: "metadata_command \<Rightarrow> metadata_machine \<Rightarrow> metadata_machine" where
  "apply_command (AddNode_cmd v addr) mm = mm\<lparr>mm_nodes := AList.update v addr (mm_nodes mm)\<rparr>"
| "apply_command (RemoveNode_cmd v) mm = mm\<lparr>mm_nodes := remove_key v (mm_nodes mm)\<rparr>"
| "apply_command (RegisterBroker b host port rack) mm =
     mm\<lparr>mm_brokers := AList.update b \<lparr>bi_broker_id = b, bi_host = host, bi_port = port, bi_rack = rack, bi_status = ''online''\<rparr>
          (mm_brokers mm)\<rparr>"
| "apply_command (UpdateBrokerStatus b status) mm =
     (case map_of (mm_brokers mm) b of
        None \<Rightarrow> mm
      | Some bi \<Rightarrow> mm\<lparr>mm_brokers := AList.update b (bi\<lparr>bi_status := status\<rparr>) (mm_brokers mm)\<rparr>)"
| "apply_command (RemoveBroker b) mm = mm\<lparr>mm_brokers := remove_key b (mm_brokers mm)\<rparr>"

text \<open>The serialization of commands and of the state machine is a parameter.\<close>

record metadata_codec =
  decode_command :: "byte list \<Rightarrow> metadata_command option"
  encode_machine :: "metadata_machine \<Rightarrow> byte list"
  decode_machine :: "byte list \<Rightarrow> metadata_machine option"

text \<open>An entry that does not decode ends the batch with an error, and nothing of the batch is kept.\<close>

fun apply_entries :: "metadata_codec \<Rightarrow> raft_entry list \<Rightarrow> metadata_machine \<Rightarrow> metadata_machine option" where
  "apply_entries mc [] mm = Some mm"
| "apply_entries mc (e # es) mm =
     (if en_data e = [] \<or> en_type e \<noteq> EntryNormal then apply_entries mc es mm
      else
        (case decode_command mc (en_data e) of
           None \<Rightarrow> None
         | Some cmd \<Rightarrow> apply_entries mc es (apply_command cmd mm)))"

definition apply_committed_entries :: "metadata_codec \<Rightarrow> raft_entry list \<Rightarrow> metadata_machine \<Rightarrow> metadata_machine" where
  "apply_committed_entries mc es mm = (case apply_entries mc es mm of Some mm1 \<Rightarrow> mm1 | None \<Rightarrow> mm)"

section \<open>The message loop\<close>

record raft_server =
  sv_raw :: raw_node
  sv_outbox :: "raft_message list"
  sv_machine :: metadata_machine
  sv_batches :: "raft_entry list list"
  sv_last_snapshot_index :: nat
  sv_previous_leader :: "nat option"
  sv_leader_changes :: "(nat \<times> nat \<times> nat) list"
  sv_cached_leader :: nat
  sv_cached_is_leader :: bool

definition update_store :: "(raft_storage \<Rightarrow> raft_storage) \<Rightarrow> raw_node \<Rightarrow> raw_node" where
  "update_store f rn =
     rn\<lparr>rn_raft := (rn_raft rn)\<lparr>r_log := (r_log (rn_raft rn))\<lparr>lg_store := f (lg_store (r_log (rn_raft rn)))\<rparr>\<rparr>\<rparr>"

definition server_store :: "raw_node \<Rightarrow> raft_storage" where
  "server_store rn = lg_store (r_log (rn_raft rn))"

text \<open>Errors of \<open>step\<close> are logged and the loop goes on.\<close>

fun step_incoming :: "raft_message list \<Rightarrow> raw_node \<Rightarrow> raw_node option" where
  "step_incoming [] rn = Some rn"
| "step_incoming (m # ms) rn = do { (e, rn1) \<leftarrow> raw_step m rn; step_incoming ms rn1 }"

text \<open>A snapshot is saved; when its data decodes, the state machine is replaced and the log truncated.\<close>

definition apply_snapshot :: "metadata_codec \<Rightarrow> raft_snapshot \<Rightarrow> raft_server \<Rightarrow> raft_server" where
  "apply_snapshot mc s sv =
     (let rn = update_store (save_snapshot s) (sv_raw sv)
      in if sn_data s = [] then sv\<lparr>sv_raw := update_store (truncate_log_to_snapshot (sn_index s)) rn\<rparr>
         else
           (case decode_machine mc (sn_data s) of
              None \<Rightarrow> sv\<lparr>sv_raw := rn\<rparr>
            | Some mm \<Rightarrow> sv\<lparr>sv_raw := update_store (truncate_log_to_snapshot (sn_index s)) rn, sv_machine := mm\<rparr>))"

fun apply_conf_entries :: "raft_entry list \<Rightarrow> raw_node \<Rightarrow> raw_node option" where
  "apply_conf_entries [] rn = Some rn"
| "apply_conf_entries (e # es) rn =
     (if en_type e \<noteq> EntryConfChangeV2 then apply_conf_entries es rn
      else
        (case decode_conf_change_v2 (rs_codec (server_store rn)) (en_data e) of
           None \<Rightarrow> apply_conf_entries es rn
         | Some cc \<Rightarrow> do { (cs, rn1) \<leftarrow> raw_apply_conf_change cc rn; apply_conf_entries es rn1 }))"

definition persist_ready :: "raft_ready \<Rightarrow> raw_node \<Rightarrow> raw_node option" where
  "persist_ready rd rn =
     do {
       st \<leftarrow> (if rd_entries rd = [] then Some (server_store rn) else append_entries (rd_entries rd) (server_store rn));
       let st1 = (case rd_hs rd of Some hs \<Rightarrow> persist_hard_state hs st | None \<Rightarrow> st);
       Some (update_store (\<lambda>_. st1) rn)
     }"

definition cache_leader :: "raft_server \<Rightarrow> raft_server" where
  "cache_leader sv =
     (let r = rn_raft (sv_raw sv) in sv\<lparr>sv_cached_leader := r_leader_id r, sv_cached_is_leader := (r_state r = Leader)\<rparr>)"

definition detect_leader_change :: "raft_server \<Rightarrow> raft_server" where
  "detect_leader_change sv =
     (let r = rn_raft (sv_raw sv); l = r_leader_id r
      in if l = INVALID_ID then sv
         else
           sv\<lparr>sv_leader_changes := sv_leader_changes sv @
                (case sv_previous_leader sv of Some p \<Rightarrow> if p \<noteq> l then [(l, p, r_term r)] else [] | None \<Rightarrow> []),
              sv_previous_leader := Some l\<rparr>)"

definition should_snapshot :: "raft_server \<Rightarrow> bool" where
  "should_snapshot sv \<longleftrightarrow>
     (let st = server_store (sv_raw sv); applied = hs_commit (rs_hard st); li = store_last_index st
      in 0 < applied \<and> 1000 < li \<and> li - 1000 \<le> applied \<and> sv_last_snapshot_index sv + 500 \<le> applied)"

definition maybe_snapshot :: "metadata_codec \<Rightarrow> raft_server \<Rightarrow> raft_server" where
  "maybe_snapshot mc sv =
     (if \<not> should_snapshot sv then sv
      else
        let st = server_store (sv_raw sv);
            applied = hs_commit (rs_hard st);
            trm = (case store_term applied st of Inr t \<Rightarrow> t | Inl _ \<Rightarrow> 0);
            s = create_snapshot (encode_machine mc (sv_machine sv)) applied trm st
        in sv\<lparr>sv_raw := update_store (truncate_log_to_snapshot applied) (update_store (save_snapshot s) (sv_raw sv)),
              sv_last_snapshot_index := applied\<rparr>)"

text \<open>The ready without a snapshot: the light ready that \<open>advance\<close> returns is dropped.\<close>

definition handle_ready :: "metadata_codec \<Rightarrow> raft_ready \<Rightarrow> raft_server \<Rightarrow> (light_ready \<times> raft_server) option" where
  "handle_ready mc rd sv =
     do {
       let committed = lr_committed_entries (rd_light rd);
       let normal = filter (\<lambda>e. en_type e \<noteq> EntryConfChangeV2) committed;
       rn1 \<leftarrow> apply_conf_entries committed (sv_raw sv);
       rn2 \<leftarrow> persist_ready rd rn1;
       (light, rn3) \<leftarrow> advance rd rn2;
       let sv1 = cache_leader (sv\<lparr>sv_raw := rn3, sv_outbox := sv_outbox sv @ ready_persisted_messages rd\<rparr>);
       Some (light,
         if normal \<noteq> []
         then sv1\<lparr>sv_machine := apply_committed_entries mc normal (sv_machine sv1), sv_batches := sv_batches sv1 @ [normal]\<rparr>
         else maybe_snapshot mc (detect_leader_change sv1))
     }"

definition loop_turn :: "metadata_codec \<Rightarrow> raft_message list \<Rightarrow> raft_server \<Rightarrow> raft_server option" where
  "loop_turn mc queued sv =
     do {
       (_, rn1) \<leftarrow> raw_tick (sv_raw sv);
       rn2 \<leftarrow> step_incoming queued rn1;
       if \<not> has_ready rn2 then Some (sv\<lparr>sv_raw := rn2\<rparr>)
       else
         do {
           (rd, rn3) \<leftarrow> ready rn2;
           let sv1 = sv\<lparr>sv_raw := rn3, sv_outbox := sv_outbox sv @ ready_messages rd\<rparr>;
           if sn_index (rd_snapshot rd) \<noteq> 0 then Some (apply_snapshot mc (rd_snapshot rd) sv1)
           else map_option snd (handle_ready mc rd sv1)
         }
     }"

end
