(* ===== verification/Raft_Apply.thy ===== *)
theory Raft_Apply
  imports Raft_Restart Raft_Server
begin

text \<open>
  A server that is a cluster of its own: it leads, takes a command, stores it and commits it, and never applies it.
\<close>

section \<open>Election and proposal\<close>

definition solo :: tracker_config where
  "solo = \<lparr>tc_voters = \<lparr>incoming = [1], outgoing = []\<rparr>, tc_learners = [], tc_learners_next = [], tc_auto_leave = False\<rparr>"

definition solo_storage :: "proto_codec \<Rightarrow> raft_storage" where
  "solo_storage cd = (voters_storage cd [])\<lparr>rs_conf := default_conf_state\<lparr>cs_voters := [1]\<rparr>\<rparr>"

definition solo_log :: "proto_codec \<Rightarrow> raft_entry list \<Rightarrow> raft_log" where
  "solo_log cd es = \<lparr>lg_store = solo_storage cd,
     lg_unstable = \<lparr>us_snapshot = None, us_entries = es, us_size = sum_list (map entry_approximate_size es), us_offset = 1\<rparr>,
     lg_committed = 0, lg_persisted = 0, lg_applied = 0, lg_unpersisted_limit = 0\<rparr>"

definition solo_tracker :: "progress \<Rightarrow> (nat \<times> bool) list \<Rightarrow> progress_tracker" where
  "solo_tracker p vs = \<lparr>pt_progress = [(1, p)], pt_conf = solo, pt_votes = vs, pt_max_inflight = 256, pt_group_commit = False\<rparr>"

definition solo_node :: "proto_codec \<Rightarrow> raft" where
  "solo_node cd = (fresh_node cd 1 [])\<lparr>r_prs := solo_tracker peer1 [], r_log := solo_log cd []\<rparr>"

lemma solo_log_fields:
  "log_last_index (solo_log cd []) = 0" "lg_persisted (solo_log cd es) = 0" "lg_committed (solo_log cd es) = 0"
  "lg_applied (solo_log cd es) = 0" "(solo_log cd es)\<lparr>lg_unpersisted_limit := 0\<rparr> = solo_log cd es"
  "us_snapshot (lg_unstable (solo_log cd es)) = None" "us_entries (lg_unstable (solo_log cd es)) = es"
  "lg_store (solo_log cd es) = solo_storage cd"
  by (simp_all add: solo_log_def log_last_index_def maybe_last_index_def store_last_index_def solo_storage_def voters_storage_def)

lemma new_solo_log: "new_raft_log 0 (solo_storage cd) = solo_log cd []"
  by (simp add: new_raft_log_def solo_log_def solo_storage_def voters_storage_def store_last_index_def store_first_index_def new_unstable_def)

lemma restore_solo: "restore_conf 0 (default_conf_state\<lparr>cs_voters := [1]\<rparr>) (new_tracker 256) = Inr (solo_tracker peer [])"
  by code_simp

lemma conf_solo: "to_conf_state solo = default_conf_state\<lparr>cs_voters := [1]\<rparr>"
  "conf_state_eq (default_conf_state\<lparr>cs_voters := [1]\<rparr>) (default_conf_state\<lparr>cs_voters := [1]\<rparr>)"
  "joint_contains (tc_voters solo) 1" "joint_ids (tc_voters solo) = [1]"
  by code_simp+

lemma peer_reset: "reset_progress (Suc 0) peer = peer1"
  by (simp add: reset_progress_def peer_def peer1_def new_progress_def reset_inflights_def new_inflights_def INVALID_INDEX_def)

lemmas node_defs = fresh_node_def solo_node_def solo_log_fields node_config_fields reset_def abort_leader_transfer_def
  reset_randomized_election_timeout_def reset_peers_def INVALID_ID_def INVALID_INDEX_def new_read_only_def solo_tracker_def reset_votes_def
  reset_peer1 peer_reset Let_def

lemma solo_starts: "new_raft (node_config 1) (\<lambda>_. 0) (solo_storage cd) = Some (Inr (solo_node cd))"
proof -
  have F: "r_log (blank_raft (node_config 1) (\<lambda>_. 0) (solo_storage cd)) = solo_log cd []"
    "r_prs (blank_raft (node_config 1) (\<lambda>_. 0) (solo_storage cd)) = new_tracker 256"
    by (simp_all add: blank_raft_def node_config_fields new_solo_log)
  have S: "rs_hard (solo_storage cd) = default_hard_state" "rs_conf (solo_storage cd) = default_conf_state\<lparr>cs_voters := [1]\<rparr>"
    by (simp_all add: solo_storage_def voters_storage_def)
  have T: "pt_conf (solo_tracker a b) = solo" for a b by (simp add: solo_tracker_def)
  have B: "become_follower 0 INVALID_ID ((blank_raft (node_config 1) (\<lambda>_. 0) (solo_storage cd))
     \<lparr>r_prs := solo_tracker peer [], r_promotable := True\<rparr>) = solo_node cd"
    by (simp add: become_follower_def blank_raft_def new_solo_log node_defs)
  show ?thesis
    using B
    unfolding new_raft_def S F solo_log_fields restore_solo Let_def
    by (auto simp: validate_node post_conf_change_follower blank_raft_fields T conf_solo node_config_fields simp del: One_nat_def)
qed

definition solo_leader :: "proto_codec \<Rightarrow> raft_entry list \<Rightarrow> raft" where
  "solo_leader cd es = (solo_node cd)\<lparr>r_term := 1, r_vote := 1, r_state := Leader, r_leader_id := 1,
     r_prs := solo_tracker (become_replicate peer1) [], r_log := solo_log cd es\<rparr>"

definition entry_at :: "nat \<Rightarrow> byte list \<Rightarrow> raft_entry" where
  "entry_at i d = default_entry\<lparr>en_term := 1, en_index := i, en_data := d\<rparr>"

lemma solo_append:
  "length es = n \<Longrightarrow> log_append (stamp_entries (Suc 0) n [default_entry\<lparr>en_data := d\<rparr>]) (solo_log cd es) =
     Some (solo_log cd (es @ [entry_at (Suc n) d]))"
  by (auto simp: log_append_def stamp_entries_def enumerate_eq_zip solo_log_def truncate_and_append_def entry_at_def default_entry_def Let_def)

lemma empty_entry: "default_entry\<lparr>en_data := []\<rparr> = default_entry"
  by (simp add: default_entry_def)

lemma solo_bcast: "\<lbrakk>pt_progress (r_prs r) = [(1, p)]; r_id r = 1\<rbrakk> \<Longrightarrow> bcast_append r = Some r"
  by (simp add: bcast_append_def for_each_peer_def)

lemma solo_won: "tracker_vote_result (solo_tracker p [(1, True)]) = Vote_Won"
  by (simp add: tracker_vote_result_def solo_tracker_def solo_def) code_simp

lemma solo_campaign: "raw_campaign rn = Some (None, rn\<lparr>rn_raft := solo_leader cd [entry_at 1 []]\<rparr>)" if "rn_raft rn = solo_node cd"
proof -
  define c where "c = (solo_node cd)\<lparr>r_term := 1, r_vote := 1, r_state := Candidate\<rparr>"
  define c' where "c' = c\<lparr>r_prs := solo_tracker peer1 [(1, True)]\<rparr>"
  have cand: "become_candidate (solo_node cd) = Some c"
    by (simp add: become_candidate_def c_def node_defs)
  have "become_leader c' = Some (solo_leader cd [entry_at 1 []])"
    using solo_append [of "[]" 0 "[]" cd]
    by (simp add: become_leader_def c'_def c_def solo_leader_def node_defs get_progress_def put_progress_def set_progress_def
        append_entry_def maybe_increase_uncommitted_size_def is_no_limit_def empty_entry)
  moreover have "bcast_append (solo_leader cd [entry_at 1 []]) = Some (solo_leader cd [entry_at 1 []])"
    by (rule solo_bcast) (simp_all add: solo_leader_def node_defs)
  ultimately have "poll 1 True c = Some (Vote_Won, solo_leader cd [entry_at 1 []])"
    using solo_won [of peer1]
    by (simp add: poll_def poll_step_def tally_votes_def c'_def c_def record_vote_def or_insert_def solo_tracker_def solo_node_def Let_def)
  then have "campaign CampaignElection (solo_node cd) = Some (solo_leader cd [entry_at 1 []])"
    using cand by (simp add: campaign_def campaign_step_def c_def solo_node_def fresh_node_def)
  then have "hup False (solo_node cd) = Some (solo_leader cd [entry_at 1 []])"
    by (simp add: hup_def has_unapplied_conf_changes_def node_defs)
  then show ?thesis
    using that
    by (simp add: raw_campaign_def step_into_def step_def check_term_def default_message_def handle_message_def okay_def)
qed

lemma solo_last: "es \<noteq> [] \<Longrightarrow> log_last_index (solo_log cd es) = length es"
  by (simp add: solo_log_def log_last_index_def maybe_last_index_def)

lemma solo_propose:
  "propose [] d rn = Some (None, rn\<lparr>rn_raft := solo_leader cd [entry_at 1 [], entry_at 2 d]\<rparr>)" if "rn_raft rn = solo_leader cd [entry_at 1 []]"
proof -
  let ?e = "default_entry\<lparr>en_data := d\<rparr>" and ?r = "solo_leader cd [entry_at 1 []]"
  define m where "m = default_message\<lparr>ms_type := MsgPropose, ms_from := 1, ms_entries := [?e]\<rparr>"
  have F: "r_id ?r = 1" "r_state ?r = Leader" "r_lead_transferee ?r = None" "get_progress 1 (r_prs ?r) \<noteq> None"
    by (simp_all add: solo_leader_def node_defs get_progress_def)
  have "append_entry [?e] ?r = Some (True, solo_leader cd [entry_at 1 [], entry_at 2 d])"
    using solo_append [of "[entry_at 1 []]" 1 d cd]
    by (simp add: append_entry_def maybe_increase_uncommitted_size_def is_no_limit_def solo_leader_def node_defs solo_last numeral_2_eq_2)
  moreover have "bcast_append (solo_leader cd es) = Some (solo_leader cd es)" for es
    by (rule solo_bcast) (simp_all add: solo_leader_def node_defs)
  moreover have "propose_entries 0 [?e] ?r = (Some [?e], ?r)" by (simp add: is_conf_entry_def default_entry_def)
  ultimately have "handle_propose m ?r = Some (None, solo_leader cd [entry_at 1 [], entry_at 2 d])"
    using F by (simp add: handle_propose_def m_def okay_def)
  then have "step m ?r = Some (None, solo_leader cd [entry_at 1 [], entry_at 2 d])"
    using F(2) by (simp add: step_def check_term_def m_def default_message_def handle_message_def is_vote_request_def step_leader_def)
  moreover have "?e\<lparr>en_context := []\<rparr> = ?e" by (simp add: default_entry_def)
  ultimately show ?thesis using that F(1) by (simp add: propose_def step_into_def m_def)
qed

lemma solo_tick: "raw_tick rn = Some (False, rn\<lparr>rn_raft := (rn_raft rn)\<lparr>r_heartbeat_elapsed := 1, r_election_elapsed := 1\<rparr>\<rparr>)"
  if "rn_raft rn = solo_leader cd es"
  using that by (simp add: raw_tick_def tick_def tick_heartbeat_def solo_leader_def node_defs node_config_def default_config_def)

definition solo_ticked :: "proto_codec \<Rightarrow> byte list \<Rightarrow> raft" where
  "solo_ticked cd d = (solo_leader cd [entry_at 1 [], entry_at 2 d])\<lparr>r_heartbeat_elapsed := 1, r_election_elapsed := 1\<rparr>"

definition solo_light :: light_ready where
  "solo_light = \<lparr>lr_commit_index = None, lr_committed_entries = [], lr_messages = []\<rparr>"

definition solo_ready :: "byte list \<Rightarrow> raft_ready" where
  "solo_ready d = \<lparr>rd_number = 1, rd_ss = Some \<lparr>ss_leader_id = 1, ss_raft_state = Leader\<rparr>,
     rd_hs = Some \<lparr>hs_term = 1, hs_vote = 1, hs_commit = 0\<rparr>, rd_read_states = [], rd_entries = [entry_at 1 [], entry_at 2 d],
     rd_snapshot = default_snapshot, rd_is_persisted_msg = False, rd_light = solo_light, rd_must_sync = True\<rparr>"

definition solo_raw :: "raft \<Rightarrow> raw_node" where
  "solo_raw r = \<lparr>rn_raft = r, rn_prev_ss = \<lparr>ss_leader_id = 0, ss_raft_state = Follower\<rparr>, rn_prev_hs = default_hard_state,
     rn_max_number = 0, rn_records = [], rn_commit_since_index = 0\<rparr>"

lemma solo_new_raw: "new_raw_node (node_config 1) (\<lambda>_. 0) (solo_storage cd) = Some (Inr (solo_raw (solo_node cd)))"
  using solo_starts [of cd]
  by (simp add: new_raw_node_def solo_raw_def node_config_fields get_soft_state_def get_hard_state_def)
    (simp add: node_defs default_hard_state_def)

lemma solo_first_index: "log_first_index (solo_log cd es) = 1"
  by (simp add: log_first_index_def maybe_first_index_def solo_log_fields store_first_index_def solo_storage_def voters_storage_def)

lemma solo_handed_out:
  "ready (solo_raw (solo_ticked cd d)) = Some (solo_ready d, (solo_raw (solo_ticked cd d))\<lparr>rn_max_number := 1,
     rn_records := [\<lparr>rr_number = 1, rr_last_entry = Some (2, 1), rr_snapshot = None\<rparr>]\<rparr>)"
proof -
  have F: "r_log (solo_ticked cd d) = solo_log cd [entry_at 1 [], entry_at 2 d]" "r_state (solo_ticked cd d) = Leader"
    "r_msgs (solo_ticked cd d) = []" "r_read_states (solo_ticked cd d) = []"
    "get_soft_state (solo_ticked cd d) = \<lparr>ss_leader_id = 1, ss_raft_state = Leader\<rparr>"
    "get_hard_state (solo_ticked cd d) = \<lparr>hs_term = 1, hs_vote = 1, hs_commit = 0\<rparr>"
    by (simp_all add: solo_ticked_def solo_leader_def get_soft_state_def get_hard_state_def node_defs)
  have U: "(solo_ticked cd d)\<lparr>r_read_states := []\<rparr> = solo_ticked cd d" "(solo_ticked cd d)\<lparr>r_msgs := []\<rparr> = solo_ticked cd d"
    "reduce_uncommitted_size [] (solo_ticked cd d) = solo_ticked cd d"
    by (simp_all add: solo_ticked_def solo_leader_def node_defs reduce_uncommitted_size_def maybe_reduce_uncommitted_size_def is_no_limit_def)
  have N: "next_entries_since 0 mx (solo_log cd es) = Some None" for mx es
    by (simp add: next_entries_since_def solo_first_index applied_index_upper_bound_def solo_log_fields)
  show ?thesis
    by (simp add: ready_def drain_records_def solo_raw_def take_snapshot_def gen_light_ready_def F U N solo_log_fields Let_def
        solo_ready_def solo_light_def default_hard_state_def entry_at_def)
qed

section \<open>Persisting\<close>

definition solo_stored :: "proto_codec \<Rightarrow> byte list \<Rightarrow> raft_storage" where
  "solo_stored cd d = (solo_storage cd)\<lparr>rs_entries := [entry_at 1 [], entry_at 2 d], rs_hard := \<lparr>hs_term = 1, hs_vote = 1, hs_commit = 0\<rparr>,
     rs_wal := [encode_entry cd (entry_at 1 []), encode_entry cd (entry_at 2 d), encode_hard_state cd \<lparr>hs_term = 1, hs_vote = 1, hs_commit = 0\<rparr>]\<rparr>"

lemma solo_persists:
  "persist_hard_state \<lparr>hs_term = 1, hs_vote = 1, hs_commit = 0\<rparr> (the (append_entries [entry_at 1 [], entry_at 2 d] (solo_storage cd))) = solo_stored cd d"
  "append_entries [entry_at 1 [], entry_at 2 d] (solo_storage cd) \<noteq> None"
  by (simp_all add: append_entries_def put_entry_def solo_storage_def voters_storage_def entry_at_def MAX_UNSTABLE_ENTRIES_def
      persist_hard_state_def solo_stored_def Let_def default_snapshot_def)

definition solo_end_log :: "proto_codec \<Rightarrow> byte list \<Rightarrow> raft_log" where
  "solo_end_log cd d = \<lparr>lg_store = solo_stored cd d,
     lg_unstable = \<lparr>us_snapshot = None, us_entries = [], us_size = 0, us_offset = 3\<rparr>,
     lg_committed = 2, lg_persisted = 2, lg_applied = 0, lg_unpersisted_limit = 0\<rparr>"

lemma solo_end_term: "store_term 2 (solo_stored cd d) = Inr 1"
  by (simp add: store_term_def solo_stored_def solo_storage_def voters_storage_def entry_at_def default_snapshot_def)

lemma solo_end_last: "log_last_index (solo_end_log cd d) = 2" "log_first_index (solo_end_log cd d) = 1"
  by (simp_all add: solo_end_log_def log_last_index_def maybe_last_index_def store_last_index_def solo_stored_def solo_storage_def voters_storage_def
      log_first_index_def maybe_first_index_def store_first_index_def)

lemma solo_slice:
  assumes "int (length d) < 2 ^ 63"
  shows "next_entries_since 0 (Some NO_LIMIT) (solo_end_log cd d) = Some (Some [entry_at 1 [], entry_at 2 d])"
proof -
  have "48 + length d \<le> U64_MAX" using assms by (simp add: U64_MAX_def)
  then have "store_entries 1 3 (Some NO_LIMIT) (solo_stored cd d) = Some (Inr [entry_at 1 [], entry_at 2 d])"
    by (simp add: store_entries_def solo_stored_def solo_storage_def voters_storage_def NO_LIMIT_def entry_at_def default_entry_def Let_def)
  then show ?thesis
    by (simp add: next_entries_since_def solo_end_last applied_index_upper_bound_def log_slice_def log_check_bounds_def limit_size_def Let_def)
      (simp add: solo_end_log_def)
qed

definition solo_end_progress :: progress where
  "solo_end_progress = (new_progress 3 256)\<lparr>pg_matched := 2, pg_state := Replicate, pg_committed_index := 2\<rparr>"

definition solo_end :: "proto_codec \<Rightarrow> byte list \<Rightarrow> nat \<Rightarrow> nat \<Rightarrow> raft" where
  "solo_end cd d h e = (solo_leader cd [])\<lparr>r_heartbeat_elapsed := h, r_election_elapsed := e, r_prs := solo_tracker solo_end_progress [],
     r_log := solo_end_log cd d\<rparr>"

definition solo_unpersisted :: "proto_codec \<Rightarrow> byte list \<Rightarrow> raft" where
  "solo_unpersisted cd d = (solo_ticked cd d)\<lparr>r_log := (solo_end_log cd d)\<lparr>lg_committed := 0, lg_persisted := 0\<rparr>\<rparr>"

lemma solo_quorum: "maximal_committed_index (solo_tracker (solo_end_progress\<lparr>pg_committed_index := 0\<rparr>) []) = (2, False)"
  by (simp add: maximal_committed_index_def joint_committed_index_def majority_committed_index_def matched_indexes_def progress_acked_def
      get_progress_def solo_tracker_def solo_def solo_end_progress_def new_progress_def majority_def U64_MAX_def)

lemma solo_on_persist: "on_persist_entries 2 1 (solo_unpersisted cd d) = Some (solo_end cd d 1 1)"
proof -
  define lg where "lg = (solo_end_log cd d)\<lparr>lg_committed := 0\<rparr>"
  have p: "maybe_persist 2 1 ((solo_end_log cd d)\<lparr>lg_committed := 0, lg_persisted := 0\<rparr>) = (True, lg)"
    using solo_end_term [of cd d] by (simp add: maybe_persist_def solo_end_log_def lg_def)
  have u: "maybe_update 2 (become_replicate peer1) = (True, solo_end_progress\<lparr>pg_committed_index := 0\<rparr>)"
    by (simp add: maybe_update_def become_replicate_def reset_state_def peer1_def new_progress_def solo_end_progress_def resume_def
        reset_inflights_def new_inflights_def Let_def)
  have "maybe_commit 2 1 lg = (True, solo_end_log cd d)"
    using solo_end_term [of cd d]
    by (simp add: maybe_commit_def lg_def log_term_def solo_end_last commit_to_def maybe_term_def)
      (simp add: solo_end_log_def)
  note c = this
  define r1 where "r1 = (solo_unpersisted cd d)\<lparr>r_log := lg, r_prs := solo_tracker (solo_end_progress\<lparr>pg_committed_index := 0\<rparr>) []\<rparr>"
  have F: "r_prs (solo_unpersisted cd d) = solo_tracker (become_replicate peer1) []" "r_id (solo_unpersisted cd d) = 1"
    "r_state (solo_unpersisted cd d) = Leader" "r_term (solo_unpersisted cd d) = 1"
    "r_log (solo_unpersisted cd d) = (solo_end_log cd d)\<lparr>lg_committed := 0, lg_persisted := 0\<rparr>"
    by (simp_all add: solo_unpersisted_def solo_ticked_def solo_leader_def solo_node_def fresh_node_def)
  have "raft_maybe_commit r1 = Some (True, solo_end cd d 1 1)"
    using c solo_quorum
    by (simp add: raft_maybe_commit_def r1_def F get_progress_def put_progress_def set_progress_def solo_tracker_def update_committed_def
        solo_end_progress_def Let_def)
      (simp add: solo_unpersisted_def solo_ticked_def solo_end_def solo_leader_def solo_tracker_def solo_end_progress_def new_progress_def
        solo_node_def fresh_node_def solo_end_log_def)
  moreover have "bcast_append (solo_end cd d 1 1) = Some (solo_end cd d 1 1)"
    by (rule solo_bcast) (simp_all add: solo_end_def solo_leader_def node_defs)
  moreover have "put_progress 1 (solo_end_progress\<lparr>pg_committed_index := 0\<rparr>) ((solo_unpersisted cd d)\<lparr>r_log := lg\<rparr>) = r1"
    by (simp add: put_progress_def set_progress_def F r1_def solo_tracker_def)
  ultimately show ?thesis
    using p u by (simp add: on_persist_entries_def F get_progress_def solo_tracker_def)
qed

definition solo_processed :: "proto_codec \<Rightarrow> byte list \<Rightarrow> nat \<Rightarrow> nat \<Rightarrow> raw_node" where
  "solo_processed cd d h e = \<lparr>rn_raft = solo_end cd d h e, rn_prev_ss = \<lparr>ss_leader_id = 1, ss_raft_state = Leader\<rparr>,
     rn_prev_hs = \<lparr>hs_term = 1, hs_vote = 1, hs_commit = 2\<rparr>, rn_max_number = 1, rn_records = [], rn_commit_since_index = 2\<rparr>"

definition solo_persisted :: "proto_codec \<Rightarrow> byte list \<Rightarrow> raw_node" where
  "solo_persisted cd d = (solo_raw ((solo_ticked cd d)\<lparr>r_log := (solo_log cd [entry_at 1 [], entry_at 2 d])\<lparr>lg_store := solo_stored cd d\<rparr>\<rparr>))
     \<lparr>rn_max_number := 1, rn_records := [\<lparr>rr_number = 1, rr_last_entry = Some (2, 1), rr_snapshot = None\<rparr>]\<rparr>"

lemma solo_end_fields:
  "r_log (solo_end cd d h e) = solo_end_log cd d" "r_msgs (solo_end cd d h e) = []" "r_state (solo_end cd d h e) = Leader"
  "r_cfg (solo_end cd d h e) = node_config 1" "r_id (solo_end cd d h e) = 1" "r_read_states (solo_end cd d h e) = []"
  "get_hard_state (solo_end cd d h e) = \<lparr>hs_term = 1, hs_vote = 1, hs_commit = 2\<rparr>"
  "get_soft_state (solo_end cd d h e) = \<lparr>ss_leader_id = 1, ss_raft_state = Leader\<rparr>"
  "r_prs (solo_end cd d h e) = solo_tracker solo_end_progress []" "r_lead_transferee (solo_end cd d h e) = None"
  "reduce_uncommitted_size es (solo_end cd d h e) = solo_end cd d h e" "(solo_end cd d h e)\<lparr>r_msgs := []\<rparr> = solo_end cd d h e"
  "r_heartbeat_elapsed (solo_end cd d h e) = h" "r_election_elapsed (solo_end cd d h e) = e" "r_read_only (solo_end cd d h e) = new_read_only Read_Safe"
  "(solo_end cd d h e)\<lparr>r_heartbeat_elapsed := h'\<rparr> = solo_end cd d h' e" "(solo_end cd d h e)\<lparr>r_election_elapsed := e'\<rparr> = solo_end cd d h e'"
  by (simp_all add: solo_end_def solo_leader_def solo_node_def fresh_node_def get_hard_state_def get_soft_state_def solo_end_log_def
      reduce_uncommitted_size_def maybe_reduce_uncommitted_size_def is_no_limit_def)

lemma solo_advance:
  assumes "int (length d) < 2 ^ 63"
  shows "advance (solo_ready d) (solo_persisted cd d) =
    Some (\<lparr>lr_commit_index = Some 2, lr_committed_entries = [entry_at 1 [], entry_at 2 d], lr_messages = []\<rparr>, solo_processed cd d 1 1)"
proof -
  define rn1 where "rn1 = \<lparr>rn_raft = solo_unpersisted cd d, rn_prev_ss = \<lparr>ss_leader_id = 1, ss_raft_state = Leader\<rparr>,
     rn_prev_hs = \<lparr>hs_term = 1, hs_vote = 1, hs_commit = 0\<rparr>, rn_max_number = 1,
     rn_records = [\<lparr>rr_number = 1, rr_last_entry = Some (2, 1), rr_snapshot = None\<rparr>], rn_commit_since_index = 0\<rparr>"
  define rn2 where "rn2 = rn1\<lparr>rn_raft := solo_end cd d 1 1, rn_records := []\<rparr>"
  have "commit_ready (solo_ready d) (solo_persisted cd d) = Some rn1"
    by (simp add: commit_ready_def solo_persisted_def solo_raw_def solo_ready_def stable_entries_def us_stable_entries_def solo_log_def
        entry_at_def rn1_def solo_unpersisted_def solo_end_log_def Let_def)
  moreover have "on_persist_ready 1 rn1 = Some rn2"
    using solo_on_persist [of cd d] by (simp add: on_persist_ready_def rn2_def rn1_def Let_def)
  moreover have "gen_light_ready rn2 = Some (\<lparr>lr_commit_index = None, lr_committed_entries = [entry_at 1 [], entry_at 2 d], lr_messages = []\<rparr>,
      rn2\<lparr>rn_commit_since_index := 2\<rparr>)"
    using solo_slice [OF assms, of cd]
    by (simp add: gen_light_ready_def rn2_def rn1_def solo_end_fields node_config_def default_config_def entry_at_def Let_def)
  moreover have "commit_apply 0 (solo_end cd d 1 1) = Some (solo_end cd d 1 1)"
    by (simp add: commit_apply_def commit_apply_internal_def applied_to_def solo_end_fields solo_tracker_def solo_def Let_def)
  moreover have "rn_max_number rn1 = 1" "rn_commit_since_index (solo_persisted cd d) = 0"
    by (simp_all add: rn1_def solo_persisted_def solo_raw_def)
  ultimately show ?thesis
    by (simp add: advance_def advance_append_def advance_apply_to_def Let_def)
      (simp add: rn2_def rn1_def solo_end_fields solo_processed_def)
qed

section \<open>Turns of the loop\<close>

definition start_server :: "raw_node \<Rightarrow> metadata_machine \<Rightarrow> raft_server" where
  "start_server rn mm = \<lparr>sv_raw = rn, sv_outbox = [], sv_machine = mm, sv_batches = [], sv_last_snapshot_index = 0, sv_previous_leader = None,
     sv_leader_changes = [], sv_cached_leader = 0, sv_cached_is_leader = False\<rparr>"

fun quiet_turns :: "metadata_codec \<Rightarrow> nat \<Rightarrow> raft_server \<Rightarrow> raft_server option" where
  "quiet_turns mc 0 sv = Some sv"
| "quiet_turns mc (Suc n) sv = do { sv1 \<leftarrow> loop_turn mc [] sv; quiet_turns mc n sv1 }"

definition solo_served :: "proto_codec \<Rightarrow> byte list \<Rightarrow> nat \<Rightarrow> nat \<Rightarrow> metadata_machine \<Rightarrow> raft_server" where
  "solo_served cd d h e mm = (start_server (solo_processed cd d h e) mm)\<lparr>sv_previous_leader := Some 1, sv_cached_leader := 1, sv_cached_is_leader := True\<rparr>"

lemma solo_turn:
  assumes "int (length d) < 2 ^ 63"
  shows "loop_turn mc [] (start_server (solo_raw (solo_leader cd [entry_at 1 [], entry_at 2 d])) mm) = Some (solo_served cd d 1 1 mm)"
proof -
  let ?rn = "(solo_raw (solo_ticked cd d))\<lparr>rn_max_number := 1, rn_records := [\<lparr>rr_number = 1, rr_last_entry = Some (2, 1), rr_snapshot = None\<rparr>]\<rparr>"
  define sv where "sv = start_server ?rn mm"
  have t: "raw_tick (solo_raw (solo_leader cd [entry_at 1 [], entry_at 2 d])) = Some (False, solo_raw (solo_ticked cd d))"
    using solo_tick [of "solo_raw (solo_leader cd [entry_at 1 [], entry_at 2 d])" cd] by (simp add: solo_raw_def solo_ticked_def)
  have h: "has_ready (solo_raw (solo_ticked cd d))"
    by (simp add: has_ready_def solo_raw_def solo_ticked_def solo_leader_def solo_log_fields)
  have p: "persist_ready (solo_ready d) ?rn = Some (solo_persisted cd d)"
    using solo_persists [of d cd]
    by (auto simp: persist_ready_def solo_ready_def server_store_def update_store_def solo_raw_def solo_ticked_def solo_leader_def solo_log_fields
        solo_persisted_def)
  have "maybe_snapshot mc (detect_leader_change (cache_leader (sv\<lparr>sv_raw := solo_processed cd d 1 1\<rparr>))) = solo_served cd d 1 1 mm"
    by (simp add: maybe_snapshot_def should_snapshot_def detect_leader_change_def cache_leader_def server_store_def solo_processed_def
        solo_end_fields sv_def start_server_def solo_served_def solo_end_log_def solo_stored_def INVALID_ID_def Let_def)
      (simp add: solo_end_def solo_leader_def)
  then have "handle_ready mc (solo_ready d) sv = Some (\<lparr>lr_commit_index = Some 2, lr_committed_entries = [entry_at 1 [], entry_at 2 d],
      lr_messages = []\<rparr>, solo_served cd d 1 1 mm)"
    using p solo_advance [OF assms, of cd]
    by (simp add: handle_ready_def sv_def start_server_def solo_ready_def solo_light_def ready_persisted_messages_def Let_def)
  then show ?thesis
    using t h solo_handed_out [of cd d]
    by (simp add: loop_turn_def start_server_def sv_def ready_messages_def Let_def) (simp add: solo_ready_def solo_light_def default_snapshot_def)
qed

lemma solo_beat: "step (new_message INVALID_ID MsgBeat v) (solo_end cd d h e) = Some (None, solo_end cd d h e)"
proof -
  have "bcast_heartbeat (solo_end cd d h e) = Some (solo_end cd d h e)"
    by (simp add: bcast_heartbeat_def bcast_heartbeat_with_ctx_def for_each_peer_def solo_end_fields solo_tracker_def)
  then show ?thesis
    by (simp add: step_def check_term_def new_message_fields handle_message_def is_vote_request_def solo_end_fields step_leader_def okay_def)
qed

lemma solo_quiet_tick: "\<exists>b h' e'. raw_tick (solo_processed cd d h e) = Some (b, solo_processed cd d h' e')"
proof -
  have "\<exists>b h' e'. tick_heartbeat (solo_end cd d h e) = Some (b, solo_end cd d h' e')"
    by (auto simp: tick_heartbeat_def tick_quorum_def solo_end_fields node_config_fields solo_beat Let_def)
  then show ?thesis by (auto simp: raw_tick_def tick_def solo_processed_def solo_end_fields)
qed

lemma solo_not_ready: "\<not> has_ready (solo_processed cd d h e)"
  by (simp add: has_ready_def solo_processed_def solo_end_fields has_next_entries_since_def applied_index_upper_bound_def)
    (simp add: solo_end_log_def)

lemma solo_quiet_turns: "\<exists>h' e'. quiet_turns mc n (solo_served cd d h e mm) = Some (solo_served cd d h' e' mm)"
proof (induction n arbitrary: h e)
  case (Suc n)
  obtain b h' e' where t: "raw_tick (solo_processed cd d h e) = Some (b, solo_processed cd d h' e')" using solo_quiet_tick by blast
  then have "loop_turn mc [] (solo_served cd d h e mm) = Some (solo_served cd d h' e' mm)"
    by (simp add: loop_turn_def solo_served_def start_server_def solo_not_ready)
  then show ?case using Suc by simp
qed (simp, blast)


text \<open>The command of the instance registers a broker: applied, it would change the state machine.\<close>

definition sample_metadata_codec :: metadata_codec where
  "sample_metadata_codec = \<lparr>decode_command = (\<lambda>d. if d = [7] then Some (RegisterBroker 1 ''broker-1'' 9092 None) else None),
     encode_machine = (\<lambda>mm. []), decode_machine = (\<lambda>bs. None)\<rparr>"


end
