(* ===== verification/Spec2Isabelle.thy ===== *)
theory Spec2Isabelle
  imports Chronik_Prelude Leader_Epoch Wal_Record Wal_Truncate Tail_Cache Group_Commit Transaction_Index Metadata_State Metadata_Store
    Varint Record_Batch Txn_Coordinator Ordered_Map Isr_Ack Response_Pipeline Epoch_Stamp
    Partition_State Produce_Path
    Raft_Quorum Raft_Inflights Raft_Progress Raft_Confchange Raft_Storage Raft_Log Raft_Message Raft_Node Raft_Election Raft_Restart
    Raft_RawNode Raft_Server Raft_Apply
begin

text \<open>
  Chronik Stream is a broker that speaks the Kafka protocol and keeps its data in a write-ahead
  log. This development models the parts that decide what is stored, what is acknowledged and
  who leads, and proves what they promise. Paths are below \<open>src/crates\<close>.

  \<^bold>\<open>The program.\<close> A produce request reaches the leader of a partition, which reserves offsets,
  rewrites and stamps the batch, checks the producer's sequence and hands the bytes to the
  write-ahead log. The log collects writes in a queue and commits them with one fsync; its commit
  callback moves the high watermark and answers waiting producers, at once for \<open>acks=1\<close> and after
  the reports of a quorum of replicas for \<open>acks=all\<close>. Topics, assignments, producer ids and
  transactions are the event-sourced metadata of a node, kept in a log of its own and replicated to
  the other nodes. Cluster membership is agreed on by Raft: the repository has its own copy of the Raft
  library, a storage for it on the write-ahead log and a message loop around it.

  \<^bold>\<open>Conventions.\<close> An operation is a function from a state to a result and the next state. A returned
  error is \<^term>\<open>Inl\<close>, a panic \<^term>\<open>None\<close>. Machine integers are integers with the wrap-around of
  their width written out where the code can reach it, and words in \<open>Varint\<close>; node ids, terms and
  indexes of Raft are natural numbers. A hash map is a function or, where the order of iteration
  shows, an association list. Code that runs under one lock is one definition, so that
  interleavings are sequences of steps: each concurrent component has an inductive step relation and
  is an interpretation of the locale \<open>invariant_system\<close>. Third-party code is a parameter: CRC-32
  and CRC-32C, the compression libraries, the JSON codec of events, the protobuf codec of Raft messages
  (with the law \<open>codec_ok\<close>) and the bincode codec of commands. Clocks, ids, environment
  variables and random timeouts are arguments.

  \<^bold>\<open>Prelude.\<close> \<open>Chronik_Prelude\<close> holds bytes and integer encodings, decoders, maps keyed by
  partition and the locales of the interfaces: \<open>codec\<close> (reading back what was written, whatever
  follows), \<open>partition_store\<close> (operations on one partition's entry), \<open>event_sourced\<close> (replay of
  a log) and \<open>invariant_system\<close> (invariants of reachable states). \<open>Ordered_Map\<close> is \<open>BTreeMap\<close>.

  \<^bold>\<open>Write-ahead log\<close> (\<open>chronik-wal/src\<close>).
  \<^item> \<open>Wal_Record\<close> is \<open>record.rs\<close>: the round trip of sealed records, and exactly which checksums are
    checked.
  \<^item> \<open>Wal_Truncate\<close> is \<open>truncate.rs\<close> and \<open>truncate_partition_files\<close> of \<open>group_commit.rs\<close>:
    the bytes that survive are the records before the first one that reaches the target.
  \<^item> \<open>Tail_Cache\<close> is \<open>TailCache\<close> of \<open>group_commit.rs\<close>: reads have no gaps, and the incremental
    accounting equals a recomputation.
  \<^item> \<open>Group_Commit\<close> is the commit queue of \<open>group_commit.rs\<close>: the file is a prefix of the accepted
    writes and a producer is told of a commit only for what is in it. A truncation that meets
    the worker between two of its critical sections breaks this.

  \<^bold>\<open>Records\<close> (\<open>chronik-storage/src\<close>).
  \<^item> \<open>Varint\<close> and \<open>Record_Batch\<close> are \<open>kafka_records.rs\<close> and \<open>control_batch.rs\<close>: round trips of
    compressed and uncompressed batches, and the legacy formats.
  \<^item> \<open>Epoch_Stamp\<close> is the byte-level rewriting of \<open>leader_epoch.rs\<close> and \<open>produce_handler.rs\<close>: it ends
    on any bytes, touches only the fields it should and agrees with encoding the changed batch.

  \<^bold>\<open>Partitions\<close> (\<open>chronik-server/src\<close>).
  \<^item> \<open>Leader_Epoch\<close> is \<open>replication/leader_epoch.rs\<close>: the history is strictly increasing and answers
    with the end of the requested epoch.
  \<^item> \<open>Partition_State\<close> is \<open>PartitionState\<close> of \<open>produce_handler.rs\<close> and the commit callback of
    \<open>integrated_server/builder.rs\<close>: log start, high watermark and log end stay in order.
  \<^item> \<open>Isr_Ack\<close> and \<open>Response_Pipeline\<close> are \<open>isr_ack_tracker.rs\<close> and \<open>response_pipeline.rs\<close>:
    success means a quorum, a quorum means an answer, and a committed range answers
    exactly the requests it covers.
  \<^item> \<open>Produce_Path\<close> is the handling of one partition's batch in \<open>produce_handler.rs\<close>: disjoint offset
    ranges, exactly-once acceptance of an idempotent producer's batches, release of memory, and
    three ways in which the path differs from Kafka's.
  \<^item> \<open>Transaction_Index\<close> is \<open>transaction_index.rs\<close>: the last stable offset and the aborted list
    against the markers of the log.

  \<^bold>\<open>Metadata\<close> (\<open>chronik-common/src/metadata\<close>).
  \<^item> \<open>Metadata_State\<close> is \<open>events.rs\<close>, \<open>traits.rs\<close>, \<open>transaction.rs\<close> and \<open>apply_event\<close> of
    \<open>wal_metadata_store.rs\<close>: well-formedness, and convergence of assignments in any order.
  \<^item> \<open>Metadata_Store\<close> is \<open>WalMetadataStore\<close> and \<open>metadata_wal.rs\<close>: recovery restores what the log
    says, and one anti-entropy pass heals a follower.
  \<^item> \<open>Txn_Coordinator\<close> is the transaction handlers of \<open>chronik-protocol/src/handler.rs\<close> and
    \<open>chronik-server/src/kafka_handler.rs\<close> on this store: ending a transaction closes it in the index of
    its partitions, through the bytes of its markers, and a new session fences the old one.

  \<^bold>\<open>Raft\<close> (\<open>raft/src\<close>, \<open>raft-proto\<close>).
  \<^item> \<open>Raft_Quorum\<close>, \<open>Raft_Inflights\<close>, \<open>Raft_Progress\<close> and \<open>Raft_Confchange\<close> are \<open>quorum\<close>, \<open>tracker\<close>
    and \<open>confchange\<close>: the committed index of a joint configuration, the ring buffer as a bounded
    queue, and overlapping quorums over every configuration change.
  \<^item> \<open>Raft_Storage\<close> is \<open>chronik-wal/src/raft_storage_impl.rs\<close> and its use in \<open>raft_cluster.rs\<close>: a
    restart forgets the term, the vote and the log.
  \<^item> \<open>Raft_Log\<close> is \<open>raft_log.rs\<close> and \<open>log_unstable.rs\<close>: an accepted append, the search for a conflict,
    and a truncated suffix that this storage brings back.
  \<^item> \<open>Raft_Message\<close> and \<open>Raft_Node\<close> are \<open>raft.rs\<close>, \<open>config.rs\<close> and \<open>read_only.rs\<close>: the whole state
    machine of a node.
  \<^item> \<open>Raft_Election\<close> proves election safety of a cluster of these nodes, for every loss, repetition
    and order of messages, when the term and the vote survive restarts and the acting nodes agree on
    the voters. \<open>Raft_Restart\<close> runs three nodes on the storage of this server, whose restarts forget
    the vote, into two leaders of one term.
  \<^item> \<open>Raft_RawNode\<close> is \<open>raw_node.rs\<close>: committed entries are handed out in order and once.
    \<open>Raft_Server\<close> is the state machine of \<open>raft_metadata.rs\<close> and a turn of the message loop of
    \<open>raft_cluster.rs\<close>. \<open>Raft_Apply\<close> runs a single node: the entries that \<open>advance\<close> hands out are
    dropped, so a committed command is not applied.

  \<^bold>\<open>Termination and fuel.\<close> Loops are structural recursions or functions with a measure, the bytes left in
  the buffer in most cases. \<open>decode_batch\<close> carries fuel, one unit for each level of a compressed
  legacy message set inside another; a version 2 batch uses none, so the round trips and the produce
  path hold for every fuel. \<open>core_send_append_aggressively\<close> has no bound of its own and is a partial
  function, so that not returning would be \<^term>\<open>None\<close>.

  \<^bold>\<open>Not modelled.\<close> The fetch path, consumer groups other than their offsets, the replication and gRPC
  transports, failover and leases, and the dispatch of requests are tasks over timers and
  sockets. The wire format of requests is field-by-field decoding for every API version.
  Authentication rests on cryptographic libraries. Segment upload, object stores, indexing,
  search, columnar storage, embeddings, backup, configuration, metrics and the Kubernetes operator are clients
  of third-party systems, and the agent memory and the ontology are applications on top of the broker.
  Log output and metrics of the modelled parts are left out. Integers that count operations, such
  as Raft's terms and indexes, are taken not to reach the bound of their width.
\<close>

end
